(* ===== verification/Prelude.thy ===== *)
theory Prelude
  imports Complex_Main
begin

text \<open>
  Shared vocabulary of the gateway model: the error values Python code can end in, the
  truncation \<open>int(x)\<close> of a float, string helpers of the standard library
  (\<open>str.startswith\<close>, \<open>str.removeprefix\<close>, \<open>str.lower\<close>), and the fact collections the
  component theories add to.

  Numbers. A Python \<open>int\<close> is an \<open>int\<close>; a Python \<open>float\<close> is the rational
  number it denotes, and every float operation rounds its exact result (theory Floats).
\<close>

named_theorems fl_simps \<open>exact results of float operations\<close>
named_theorems hdr_simps \<open>reading a header after an update\<close>

section \<open>Python exceptions and numbers\<close>

text \<open>Exceptions of the language that the modelled code can raise by itself.\<close>

datatype py_exc = ZeroDivisionError | AttributeError | IntegrityError | OverflowError | ValueError | TypeError


text \<open>\<open>int(x)\<close> of a float truncates towards zero.\<close>

definition py_int :: "rat \<Rightarrow> int" where
  "py_int x = (if 0 \<le> x then \<lfloor>x\<rfloor> else \<lceil>x\<rceil>)"

lemma py_int_of_int [simp]: "py_int (of_int n) = n"
  by (simp add: py_int_def)

lemma py_int_nonneg: "0 \<le> x \<Longrightarrow> py_int x = \<lfloor>x\<rfloor>"
  by (simp add: py_int_def)

lemma py_int_0 [simp]: "py_int 0 = 0" and py_int_1 [simp]: "py_int 1 = 1"
  and py_int_numeral [simp]: "py_int (numeral w) = numeral w"
  by (simp_all add: py_int_def)

lemma py_int_ge_0: "0 \<le> x \<Longrightarrow> 0 \<le> py_int x"
  by (simp add: py_int_def)

lemma py_int_less: "x < of_int (py_int x) + 1"
  by (simp add: py_int_def) linarith

lemma py_int_mono: "x \<le> y \<Longrightarrow> py_int x \<le> py_int y"
  by (auto simp: py_int_def floor_mono ceiling_mono)
     (meson ceiling_le_zero le_floor_iff linorder_not_le of_int_0_le_iff order_trans
        zero_le_floor less_le_trans order_less_imp_le)

section \<open>Python strings\<close>

text \<open>A string is a list of characters; \<open>s.startswith(p)\<close> compares the first
  \<open>len(p)\<close> of them.\<close>

definition startswith :: "string \<Rightarrow> string \<Rightarrow> bool" where
  "startswith s p \<longleftrightarrow> take (length p) s = p"

definition removeprefix :: "string \<Rightarrow> string \<Rightarrow> string" where
  "removeprefix s p = (if startswith s p then drop (length p) s else s)"

text \<open>\<open>s.strip()\<close>, over the characters of one byte that \<open>str.isspace\<close> accepts, and
  \<open>s.rstrip(c)\<close> for one character.\<close>

definition py_space :: "char \<Rightarrow> bool" where
  "py_space c \<longleftrightarrow> c \<in> set [CHR 0x09, CHR 0x0A, CHR 0x0B, CHR 0x0C, CHR 0x0D,
     CHR 0x1C, CHR 0x1D, CHR 0x1E, CHR 0x1F, CHR '' '', CHR 0x85, CHR 0xA0]"

definition rstrip :: "char \<Rightarrow> string \<Rightarrow> string" where
  "rstrip c s = rev (dropWhile ((=) c) (rev s))"

definition strip :: "string \<Rightarrow> string" where
  "strip s = rev (dropWhile py_space (rev (dropWhile py_space s)))"

text \<open>\<open>s.split(c)\<close> for one character, and \<open>sep.join(items)\<close>.\<close>

fun split_on :: "char \<Rightarrow> string \<Rightarrow> string list" where
  "split_on c [] = [[]]"
| "split_on c (x # xs) =
     (if x = c then [] # split_on c xs
      else case split_on c xs of [] \<Rightarrow> [[x]] | y # ys \<Rightarrow> (x # y) # ys)"

fun join :: "string \<Rightarrow> string list \<Rightarrow> string" where
  "join sep [] = []"
| "join sep [x] = x"
| "join sep (x # y # ys) = x @ sep @ join sep (y # ys)"

lemma split_on_nonempty [simp]: "split_on c s \<noteq> []"
  by (cases s) (simp_all split: list.split)

lemma split_on_no_sep: "c \<notin> set x \<Longrightarrow> split_on c x = [x]"
  by (induction x) auto

lemma split_on_append: "c \<notin> set x \<Longrightarrow> split_on c (x @ c # y) = x # split_on c y"
  by (induction x) auto

lemma split_on_items: "x \<in> set (split_on c s) \<Longrightarrow> c \<notin> set x"
  by (induction s arbitrary: x) (auto split: if_splits list.splits)

lemma strip_space [simp]: "strip (CHR '' '' # s) = strip s"
  by (simp add: strip_def py_space_def)

lemma set_strip: "set (strip s) \<subseteq> set s"
  unfolding strip_def by (auto dest!: set_dropWhileD)

lemma strip_hd:
  assumes "strip s \<noteq> []"
  shows "\<not> py_space (hd (strip s))"
proof -
  let ?d = "dropWhile py_space s"
  obtain r where r: "?d = strip s @ r"
    unfolding strip_def by (metis rev_append rev_rev_ident takeWhile_dropWhile_id)
  then have "?d \<noteq> []" "hd ?d = hd (strip s)" using assms by auto
  then show ?thesis using hd_dropWhile [of py_space s] by simp
qed

lemma strip_last: "strip s \<noteq> [] \<Longrightarrow> \<not> py_space (last (strip s))"
  unfolding strip_def by (metis hd_dropWhile last_rev rev_is_Nil_conv)

lemma strip_id: "s = [] \<or> \<not> py_space (hd s) \<and> \<not> py_space (last s) \<Longrightarrow> strip s = s"
proof -
  assume "s = [] \<or> \<not> py_space (hd s) \<and> \<not> py_space (last s)"
  then consider "s = []" | x xs where "s = x # xs" "\<not> py_space x" "\<not> py_space (last s)"
    by (cases s) auto
  then show "strip s = s"
  proof cases
    case 2
    then have d: "dropWhile py_space s = s" by simp
    have "dropWhile py_space (rev s) = rev s"
      using 2 by (metis dropWhile.simps(2) dropWhile_eq_self_iff hd_rev)
    with d show ?thesis by (simp add: strip_def)
  qed (simp add: strip_def)
qed

lemma strip_strip [simp]: "strip (strip s) = strip s"
  by (rule strip_id) (use strip_hd strip_last in blast)

lemma startswith_append [simp]: "startswith (p @ s) p"
  by (simp add: startswith_def)

lemma startswith_iff: "startswith s p \<longleftrightarrow> (\<exists>t. s = p @ t)"
  by (metis append_take_drop_id startswith_append startswith_def)

lemma removeprefix_append [simp]: "removeprefix (p @ s) p = s"
  by (simp add: removeprefix_def)

section \<open>Characters\<close>

definition is_digit :: "char \<Rightarrow> bool" where
  "is_digit c \<longleftrightarrow> (let n = of_char c :: nat in 48 \<le> n \<and> n \<le> 57)"

definition is_alpha :: "char \<Rightarrow> bool" where
  "is_alpha c \<longleftrightarrow> (let n = of_char c :: nat in 65 \<le> n \<and> n \<le> 90 \<or> 97 \<le> n \<and> n \<le> 122)"

definition hex_val :: "char \<Rightarrow> nat option" where
  "hex_val c =
     (let n = of_char c :: nat
      in if 48 \<le> n \<and> n \<le> 57 then Some (n - 48)
         else if 65 \<le> n \<and> n \<le> 70 then Some (n - 55)
         else if 97 \<le> n \<and> n \<le> 102 then Some (n - 87)
         else None)"

lemma of_char_small: "n < 256 \<Longrightarrow> of_char (char_of n :: char) = (n :: nat)"
  by simp

lemma of_char_less: "(of_char c :: nat) < 256"
  using of_char_mod_256 [of c] by (metis mod_less_divisor zero_less_numeral)

lemma nibbles: "(of_char c :: nat) div 16 < 16" "(of_char c :: nat) mod 16 < 16"
  using of_char_less [of c] by (simp_all add: div_less_iff_less_mult)

text \<open>\<open>d[k] = v\<close> on a dictionary, which keeps the order of first insertion.\<close>

fun dict_put :: "'k \<Rightarrow> 'v \<Rightarrow> ('k \<times> 'v) list \<Rightarrow> ('k \<times> 'v) list" where
  "dict_put k v [] = [(k, v)]"
| "dict_put k v ((k', w) # d) = (if k' = k then (k, v) # d else (k', w) # dict_put k v d)"

lemma map_of_dict_put [simp]: "map_of (dict_put k v d) = (map_of d)(k \<mapsto> v)"
  by (induction k v d rule: dict_put.induct) (auto simp: fun_eq_iff)

lemma fst_dict_put: "fst ` set (dict_put k v d) = insert k (fst ` set d)"
  by (induction k v d rule: dict_put.induct) auto

lemma distinct_dict_put [simp]: "distinct (map fst (dict_put k v d)) = distinct (map fst d)"
  by (induction k v d rule: dict_put.induct) (auto simp: fst_dict_put)

section \<open>Histories of steps\<close>

text \<open>A step function and a condition that every admissible event keeps: then every history of
  admissible events keeps it.\<close>

locale kept_by_steps =
  fixes step :: "'e \<Rightarrow> 's \<Rightarrow> 's" and admissible :: "'e \<Rightarrow> bool" and ok :: "'s \<Rightarrow> bool"
  assumes keeps: "admissible e \<Longrightarrow> ok s \<Longrightarrow> ok (step e s)"
begin

lemma history_keeps: "\<forall>e\<in>set es. admissible e \<Longrightarrow> ok s \<Longrightarrow> ok (fold step es s)"
  by (induction es arbitrary: s) (simp_all add: keeps)

end

end
