(* ===== verification/Floats.thy ===== *)
theory Floats
  imports Prelude
begin

text \<open>
  Floating-point arithmetic, exactly. Python's \<open>float\<close> and Lua's number are IEEE-754
  binary64: an operation returns the exact result rounded to the nearest representable
  number, ties to even. \<open>fl64\<close> is that rounding on rationals (normal and subnormal
  range; the overflow to infinity above \<open>2^1023\<close> is out of the gateway's range and not
  modelled), and a float operation is written \<open>fl64 (x + y)\<close>, \<open>fl64 (x * y)\<close> and so on.
  \<open>g14\<close> is the value of the decimal numeral that Lua's \<open>tostring\<close> prints
  (format \<open>%.14g\<close>, 14 significant digits).

  Both are instances of one definition, rounding to \<open>p\<close> significant digits in base
  \<open>b\<close>. The locale \<open>rounding\<close> states what the arithmetic of the gateway needs from a
  rounding (monotone, idempotent, exact on small integers, a relative error bound); its
  lemmas are proved once there, and both formats interpret it.
\<close>

section \<open>Rounding to the nearest integer, ties to even\<close>

definition rne :: "rat \<Rightarrow> int" where
  "rne x = (let f = \<lfloor>x\<rfloor>; d = x - of_int f in
     if d < 1/2 then f else if 1/2 < d then f + 1 else if even f then f else f + 1)"

lemma rne_of_int [simp]: "rne (of_int n) = n"
  by (simp add: rne_def)

lemma rne_bounds: "\<lfloor>x\<rfloor> \<le> rne x" "rne x \<le> \<lfloor>x\<rfloor> + 1"
  by (simp_all add: rne_def Let_def)

lemma rne_error: "\<bar>of_int (rne x) - x\<bar> \<le> 1/2"
proof -
  have "of_int \<lfloor>x\<rfloor> \<le> x" "x < of_int \<lfloor>x\<rfloor> + 1" by linarith+
  then show ?thesis
    unfolding rne_def Let_def by (simp split: if_split)
qed

lemma rne_eqI:
  assumes "\<bar>x - of_int n\<bar> < 1/2 \<or> (\<bar>x - of_int n\<bar> \<le> 1/2 \<and> even n)"
  shows "rne x = n"
proof -
  have "\<lfloor>x\<rfloor> = n \<or> \<lfloor>x\<rfloor> = n - 1 \<and> x < of_int n"
    using assms by (auto simp: floor_eq_iff abs_if split: if_splits)
  then show ?thesis
    using assms by (auto simp: rne_def Let_def abs_if split: if_splits)
qed

lemma rne_mono:
  assumes "x \<le> y"
  shows "rne x \<le> rne y"
proof (cases "\<lfloor>x\<rfloor> = \<lfloor>y\<rfloor>")
  case True
  with assms show ?thesis by (auto simp: rne_def Let_def)
next
  case False
  with floor_mono [OF assms] have "\<lfloor>x\<rfloor> + 1 \<le> \<lfloor>y\<rfloor>" by linarith
  with rne_bounds [of x] rne_bounds [of y] show ?thesis by linarith
qed

lemma rne_le_int: "x \<le> of_int n \<Longrightarrow> rne x \<le> n"
  using rne_mono [of x "of_int n"] by simp

lemma int_le_rne: "of_int n \<le> x \<Longrightarrow> n \<le> rne x"
  using rne_mono [of "of_int n" x] by simp

section \<open>The exponent of a positive rational\<close>

fun ndigits :: "nat \<Rightarrow> nat \<Rightarrow> nat" where
  "ndigits b n = (if b \<le> 1 \<or> n = 0 then 0 else Suc (ndigits b (n div b)))"

declare ndigits.simps [simp del]

lemma ndigits_bounds:
  assumes "2 \<le> b" and "0 < n"
  shows "0 < ndigits b n" "b ^ (ndigits b n - 1) \<le> n" "n < b ^ ndigits b n"
proof -
  have "0 < ndigits b n \<and> b ^ (ndigits b n - 1) \<le> n \<and> n < b ^ ndigits b n"
    using assms
  proof (induction b n rule: ndigits.induct)
    case (1 b n)
    show ?case
    proof (cases "n div b = 0")
      case True
      with "1.prems" have "ndigits b n = 1" "n < b"
        by (simp_all add: ndigits.simps [of b n] ndigits.simps [of b 0] div_eq_0_iff)
      with "1.prems" show ?thesis by simp
    next
      case False
      let ?k = "ndigits b (n div b)"
      from False "1.prems" have IH: "0 < ?k" "b ^ (?k - 1) \<le> n div b" "n div b < b ^ ?k"
        using "1.IH" by auto
      have eq: "ndigits b n = Suc ?k"
        using "1.prems" by (simp add: ndigits.simps [of b n])
      have "b ^ ?k = b ^ (?k - 1) * b"
        using IH(1) by (metis Suc_diff_1 power_Suc2)
      also have "\<dots> \<le> (n div b) * b" using IH(2) by simp
      also have "\<dots> \<le> n" by simp
      finally have lo: "b ^ ?k \<le> n" .
      from IH(3) "1.prems" have "n < b ^ ?k * b"
        by (simp add: div_less_iff_less_mult)
      then show ?thesis using lo eq by (simp add: mult.commute)
    qed
  qed
  then show "0 < ndigits b n" "b ^ (ndigits b n - 1) \<le> n" "n < b ^ ndigits b n" by auto
qed

lemma powi_diff_nat:
  "(x :: rat) \<noteq> 0 \<Longrightarrow> x powi (int m - int n) = x ^ m / x ^ n"
  by (simp add: power_int_diff)

text \<open>\<open>ilog b x\<close> is the largest \<open>e\<close> with \<open>b powi e \<le> x\<close>, computed from the digit
  counts of numerator and denominator.\<close>

definition ilog :: "nat \<Rightarrow> rat \<Rightarrow> int" where
  "ilog b x = (let (p, q) = quotient_of x;
      k = int (ndigits b (nat p)) - int (ndigits b (nat q))
    in if of_nat b powi k \<le> x then k else k - 1)"

lemma ilog_bounds:
  assumes b: "2 \<le> b" and x: "0 < x"
  shows "of_nat b powi (ilog b x) \<le> x" "x < of_nat b powi (ilog b x + 1)"
proof -
  obtain p q where pq: "quotient_of x = (p, q)" by force
  then have q: "0 < q" and xeq: "x = of_int p / of_int q"
    using quotient_of_denom_pos quotient_of_div by blast+
  with x have p: "0 < p"
    by (metis of_int_0_less_iff zero_less_divide_iff not_less_iff_gr_or_eq order_less_trans)
  define m n where "m = ndigits b (nat p)" and "n = ndigits b (nat q)"
  have p': "0 < nat p" and q': "0 < nat q" using p q by auto
  have mpos: "0 < m" and npos: "0 < n"
    using ndigits_bounds(1) [OF b p'] ndigits_bounds(1) [OF b q'] by (simp_all add: m_def n_def)
  let ?B = "of_nat b :: rat"
  have B: "2 \<le> ?B" using b by (metis of_nat_le_iff of_nat_numeral)
  have P1: "?B ^ (m - 1) \<le> of_int p" and P2: "of_int p < ?B ^ m"
    using ndigits_bounds(2,3) [OF b p'] p unfolding m_def
    by (metis of_nat_le_iff of_nat_less_iff of_nat_power of_nat_nat order_less_imp_le)+
  have Q1: "?B ^ (n - 1) \<le> of_int q" and Q2: "of_int q < ?B ^ n"
    using ndigits_bounds(2,3) [OF b q'] q unfolding n_def
    by (metis of_nat_le_iff of_nat_less_iff of_nat_power of_nat_nat order_less_imp_le)+
  let ?k = "int m - int n"
  have Bpos: "0 < ?B" "?B \<noteq> 0" using B by auto
  have qr: "0 < (of_int q :: rat)" using q by simp
  have lo: "?B powi (?k - 1) \<le> x"
  proof -
    have "?k - 1 = int (m - 1) - int n" using mpos by simp
    then have "?B powi (?k - 1) = ?B ^ (m - 1) / ?B ^ n"
      by (simp only: powi_diff_nat [OF Bpos(2)])
    also have "\<dots> \<le> of_int p / of_int q"
      using P1 Q2 qr p by (intro frac_le) auto
    finally show ?thesis by (simp add: xeq)
  qed
  have hi: "x < ?B powi (?k + 1)"
  proof -
    have "of_int p / of_int q < ?B ^ m / ?B ^ (n - 1)"
      using P2 Q1 p qr Bpos by (intro frac_less) auto
    also have "\<dots> = ?B powi (?k + 1)"
    proof -
      have "?k + 1 = int m - int (n - 1)" using npos by simp
      then show ?thesis by (simp only: powi_diff_nat [OF Bpos(2)])
    qed
    finally show ?thesis by (simp add: xeq)
  qed
  have "ilog b x = (if ?B powi ?k \<le> x then ?k else ?k - 1)"
    by (simp add: ilog_def pq m_def n_def)
  with lo hi show "?B powi (ilog b x) \<le> x" "x < ?B powi (ilog b x + 1)" by auto
qed

lemma ilog_less:
  assumes "2 \<le> b" "0 < x" "x < of_nat b powi e"
  shows "ilog b x < e"
proof (rule ccontr)
  assume "\<not> ilog b x < e"
  with assms(1) have "of_nat b powi e \<le> (of_nat b :: rat) powi (ilog b x)"
    by (intro power_int_increasing) auto
  with ilog_bounds(1) [OF assms(1,2)] assms(3) show False by linarith
qed

lemma ilog_eqI:
  assumes "2 \<le> b" "0 < x" "of_nat b powi e \<le> x" "x < of_nat b powi (e + 1)"
  shows "ilog b x = e"
proof -
  have "ilog b x < e + 1" by (rule ilog_less [OF assms(1,2,4)])
  moreover have "\<not> ilog b x < e"
  proof
    assume "ilog b x < e"
    with assms(1) have "of_nat b powi (ilog b x + 1) \<le> (of_nat b :: rat) powi e"
      by (intro power_int_increasing) auto
    with ilog_bounds(2) [OF assms(1,2)] assms(3) show False by linarith
  qed
  ultimately show ?thesis by linarith
qed

lemma ilog_mono:
  assumes "2 \<le> b" "0 < x" "x \<le> y"
  shows "ilog b x \<le> ilog b y"
  using ilog_less [of b x "ilog b y + 1"] ilog_bounds(2) [of b y] assms by force

section \<open>Rounding to \<open>p\<close> significant digits in base \<open>b\<close>\<close>

text \<open>The quantum of \<open>x\<close> is the weight of its last kept digit; \<open>emin\<close> is the least
  exponent of a quantum (the subnormal range).\<close>

definition quantum :: "nat \<Rightarrow> nat \<Rightarrow> int \<Rightarrow> rat \<Rightarrow> rat" where
  "quantum b p emin x = of_nat b powi (max emin (ilog b \<bar>x\<bar> - (int p - 1)))"

definition round_sig :: "nat \<Rightarrow> nat \<Rightarrow> int \<Rightarrow> rat \<Rightarrow> rat" where
  "round_sig b p emin x =
     (if x = 0 then 0
      else let q = quantum b p emin x in
        if 0 < x then of_int (rne (x / q)) * q else - (of_int (rne (- x / q)) * q))"

text \<open>Binary64: 53 significant bits, least quantum \<open>2 powi -1074\<close>. The decimal format has
  no least exponent; \<open>-400\<close> is below the exponent of every nonzero double.\<close>

definition fl64 :: "rat \<Rightarrow> rat" where
  "fl64 x = round_sig 2 53 (-1074) x"

definition g14 :: "rat \<Rightarrow> rat" where
  "g14 x = round_sig 10 14 (-400) x"

section \<open>What the gateway's arithmetic needs from a rounding\<close>

locale rounding =
  fixes rd :: "rat \<Rightarrow> rat" and exact :: int and u :: rat
  assumes rd_mono: "x \<le> y \<Longrightarrow> rd x \<le> rd y"
    and rd_idem: "rd (rd x) = rd x"
    and rd_int: "\<bar>n\<bar> \<le> exact \<Longrightarrow> rd (of_int n) = of_int n"
    and rd_err: "\<bar>x\<bar> \<le> B \<Longrightarrow> 1 \<le> B \<Longrightarrow> \<bar>rd x - x\<bar> \<le> u * B"
    and exact_pos: "1 \<le> exact"
begin

lemma rd_0: "rd 0 = 0"
  using rd_int [of 0] exact_pos by simp

lemma rd_1: "rd 1 = 1"
  using rd_int [of 1] exact_pos by simp

lemma rd_nonneg: "0 \<le> x \<Longrightarrow> 0 \<le> rd x"
  using rd_mono [of 0 x] by (simp add: rd_0)

lemma rd_ge_1: "1 \<le> x \<Longrightarrow> 1 \<le> rd x"
  using rd_mono [of 1 x] by (simp add: rd_1)

lemma rd_le_int: "x \<le> of_int n \<Longrightarrow> \<bar>n\<bar> \<le> exact \<Longrightarrow> rd x \<le> of_int n"
  using rd_mono [of x "of_int n"] by (simp add: rd_int)

lemma int_le_rd: "of_int n \<le> x \<Longrightarrow> \<bar>n\<bar> \<le> exact \<Longrightarrow> of_int n \<le> rd x"
  using rd_mono [of "of_int n" x] by (simp add: rd_int)

lemma rd_le_fixed: "x \<le> y \<Longrightarrow> rd y = y \<Longrightarrow> rd x \<le> y"
  using rd_mono by metis

lemma fixed_le_rd: "x \<le> y \<Longrightarrow> rd x = x \<Longrightarrow> x \<le> rd y"
  using rd_mono by metis

text \<open>A value that rounds below an integer was below it.\<close>

lemma rd_less_intD: "rd x < of_int n \<Longrightarrow> \<bar>n\<bar> \<le> exact \<Longrightarrow> x < of_int n"
  using int_le_rd [of n x] by linarith

lemma rd_upper: "0 \<le> x \<Longrightarrow> x \<le> B \<Longrightarrow> 1 \<le> B \<Longrightarrow> rd x \<le> x + u * B"
  using rd_err [of x B] by linarith

lemma rd_lower: "0 \<le> x \<Longrightarrow> x \<le> B \<Longrightarrow> 1 \<le> B \<Longrightarrow> x - u * B \<le> rd x"
  using rd_err [of x B] by linarith

lemma u_nonneg: "0 \<le> u"
  using rd_err [of 0 1] by (simp add: rd_0)

end

section \<open>Significant-digit formats are roundings\<close>

locale sig_format =
  fixes b p :: nat and emin :: int
  assumes base: "2 \<le> b" and digits: "1 \<le> p" and emin_le: "emin \<le> 1 - int p"
begin

lemma base_rat: "1 < (of_nat b :: rat)" "0 < (of_nat b :: rat)" "(of_nat b :: rat) \<noteq> 0"
  using base by auto

lemma quantum_pos: "0 < quantum b p emin x"
  using base_rat by (simp add: quantum_def)

lemma round_pos: "0 < x \<Longrightarrow>
  round_sig b p emin x = of_int (rne (x / quantum b p emin x)) * quantum b p emin x"
  by (simp add: round_sig_def Let_def)

lemma round_neg: "round_sig b p emin (- x) = - round_sig b p emin x"
  by (auto simp: round_sig_def Let_def quantum_def)

lemma round_nonneg: "0 \<le> x \<Longrightarrow> 0 \<le> round_sig b p emin x"
  using quantum_pos [of x] int_le_rne [of 0 "x / quantum b p emin x"]
  by (auto simp: round_sig_def Let_def)

lemma powi_split: "e \<le> d \<Longrightarrow> (of_nat b :: rat) powi d = of_int (int b ^ nat (d - e)) * of_nat b powi e"
  using base_rat by (simp flip: power_int_of_nat power_int_add)

text \<open>Rounding never crosses a power of the base that is a multiple of the quantum.\<close>

lemma round_le_power:
  assumes "0 < x" "x \<le> of_nat b powi d" "max emin (ilog b x - (int p - 1)) \<le> d"
  shows "round_sig b p emin x \<le> of_nat b powi d"
proof -
  let ?q = "quantum b p emin x"
  have q: "?q = of_nat b powi (max emin (ilog b x - (int p - 1)))"
    using assms(1) by (simp add: quantum_def)
  let ?n = "int b ^ nat (d - max emin (ilog b x - (int p - 1)))"
  have d: "of_nat b powi d = of_int ?n * ?q"
    unfolding q by (rule powi_split [OF assms(3)])
  then have "x / ?q \<le> of_int ?n"
    using assms(2) quantum_pos [of x] by (simp add: divide_le_eq)
  then have "rne (x / ?q) \<le> ?n" by (rule rne_le_int)
  then have "(of_int (rne (x / ?q)) :: rat) * ?q \<le> of_int ?n * ?q"
    using quantum_pos [of x] by (intro mult_right_mono) (simp_all only: of_int_le_iff less_imp_le)
  then show ?thesis using d round_pos [OF assms(1)] by simp
qed

lemma power_le_round:
  assumes "0 < x" "of_nat b powi d \<le> x" "max emin (ilog b x - (int p - 1)) \<le> d"
  shows "of_nat b powi d \<le> round_sig b p emin x"
proof -
  let ?q = "quantum b p emin x"
  have q: "?q = of_nat b powi (max emin (ilog b x - (int p - 1)))"
    using assms(1) by (simp add: quantum_def)
  let ?n = "int b ^ nat (d - max emin (ilog b x - (int p - 1)))"
  have d: "of_nat b powi d = of_int ?n * ?q"
    unfolding q by (rule powi_split [OF assms(3)])
  then have "of_int ?n \<le> x / ?q"
    using assms(2) quantum_pos [of x] by (simp add: le_divide_eq)
  then have "?n \<le> rne (x / ?q)" by (rule int_le_rne)
  then have "of_int ?n * ?q \<le> (of_int (rne (x / ?q)) :: rat) * ?q"
    using quantum_pos [of x] by (intro mult_right_mono) (simp_all only: of_int_le_iff less_imp_le)
  then show ?thesis using d round_pos [OF assms(1)] by simp
qed

lemma round_mono_pos:
  assumes "0 < x" "x \<le> y"
  shows "round_sig b p emin x \<le> round_sig b p emin y"
proof -
  define ex ey where "ex = max emin (ilog b x - (int p - 1))"
    and "ey = max emin (ilog b y - (int p - 1))"
  have y: "0 < y" using assms by linarith
  have le: "ex \<le> ey" using ilog_mono [OF base assms] by (auto simp: ex_def ey_def)
  show ?thesis
  proof (cases "ex = ey")
    case True
    then have q: "quantum b p emin x = quantum b p emin y"
      using assms(1) y by (simp add: quantum_def ex_def ey_def)
    have "rne (x / quantum b p emin y) \<le> rne (y / quantum b p emin y)"
      using assms(2) quantum_pos [of y] by (intro rne_mono) (simp add: divide_right_mono)
    then show ?thesis
      unfolding round_pos [OF assms(1)] round_pos [OF y] q
      using quantum_pos [of y] by (intro mult_right_mono) auto
  next
    case False
    let ?d = "ilog b y"
    have ey: "ey = ?d - (int p - 1)" and lt: "ilog b x < ?d"
      using False le by (auto simp: ex_def ey_def split: if_splits)
    have "x < of_nat b powi (ilog b x + 1)" by (rule ilog_bounds(2) [OF base assms(1)])
    also have "\<dots> \<le> of_nat b powi ?d" using lt base by (intro power_int_increasing) auto
    finally have "round_sig b p emin x \<le> of_nat b powi ?d"
      using le ey digits by (intro round_le_power) (auto simp: assms(1) simp flip: ex_def)
    also have "\<dots> \<le> round_sig b p emin y"
      using ey digits ilog_bounds(1) [OF base y]
      by (intro power_le_round) (auto simp: y simp flip: ey_def)
    finally show ?thesis .
  qed
qed

lemma round_mono:
  assumes "x \<le> y"
  shows "round_sig b p emin x \<le> round_sig b p emin y"
proof -
  consider "0 < x" | "x \<le> 0" "0 \<le> y" | "y < 0" by linarith
  then show ?thesis
  proof cases
    case 1
    then show ?thesis by (rule round_mono_pos [OF _ assms])
  next
    case 2
    then have "0 \<le> round_sig b p emin (- x)" "0 \<le> round_sig b p emin y"
      by (auto intro: round_nonneg)
    then show ?thesis by (simp add: round_neg)
  next
    case 3
    then have "round_sig b p emin (- y) \<le> round_sig b p emin (- x)"
      using assms by (intro round_mono_pos) auto
    then show ?thesis by (simp add: round_neg)
  qed
qed

text \<open>The numbers with at most \<open>p\<close> digits are fixed points, and every rounded
  number is one of them.\<close>

lemma round_fixed_pos:
  assumes v: "v = of_int k * of_nat b powi e" and k: "0 < k" "k < int b ^ p" and e: "emin \<le> e"
  shows "round_sig b p emin v = v"
proof -
  have pos: "0 < v" using v k(1) base_rat by simp
  have "of_int k < (of_nat b :: rat) ^ p"
    using k(2) by (metis of_int_less_iff of_int_of_nat_eq of_int_power)
  then have "v < of_nat b powi int p * of_nat b powi e"
    unfolding v using base_rat by (intro mult_strict_right_mono) auto
  also have "\<dots> = of_nat b powi (int p + e)"
    using base_rat(3) by (simp add: power_int_add)
  finally have "ilog b v < int p + e" by (rule ilog_less [OF base pos])
  then have le: "max emin (ilog b v - (int p - 1)) \<le> e" using e by linarith
  let ?q = "quantum b p emin v"
  define n where "n = int b ^ nat (e - max emin (ilog b v - (int p - 1)))"
  have "of_nat b powi e = of_int n * ?q"
    using powi_split [OF le] pos by (simp add: quantum_def n_def)
  then have "v = of_int (k * n) * ?q" by (simp add: v)
  then have "v / ?q = of_int (k * n)"
    using quantum_pos [of v] by (metis less_irrefl nonzero_mult_div_cancel_right)
  then have "of_int (rne (v / ?q)) = v / ?q" by (simp only: rne_of_int)
  then show ?thesis using round_pos [OF pos] quantum_pos [of v] by simp
qed

lemma round_fixed_pos_le:
  assumes v: "v = of_int k * of_nat b powi e" and k: "0 \<le> k" "k \<le> int b ^ p" and e: "emin \<le> e"
  shows "round_sig b p emin v = v"
proof -
  consider "k = 0" | "0 < k" "k < int b ^ p" | "k = int b ^ p" using k by linarith
  then show ?thesis
  proof cases
    case 1
    then show ?thesis using v by (simp add: round_sig_def)
  next
    case 2
    then show ?thesis using v e by (intro round_fixed_pos) auto
  next
    case 3
    have "(of_nat b :: rat) ^ p = of_nat b ^ (p - 1) * of_nat b"
      using digits by (metis Suc_diff_1 power_Suc2 less_eq_Suc_le One_nat_def)
    then have "v = of_int (int b ^ (p - 1)) * of_nat b powi (e + 1)"
      unfolding v 3 using base_rat by (simp add: power_int_add ac_simps)
    then show ?thesis
      using digits base e by (intro round_fixed_pos [where k = "int b ^ (p - 1)" and e = "e + 1"]) auto
  qed
qed

lemma round_idem: "round_sig b p emin (round_sig b p emin x) = round_sig b p emin x"
proof -
  have pos: "round_sig b p emin (round_sig b p emin x) = round_sig b p emin x" if x: "0 < x" for x
  proof -
    let ?e = "max emin (ilog b x - (int p - 1))"
    let ?q = "quantum b p emin x"
    have q: "?q = of_nat b powi ?e" using x by (simp add: quantum_def)
    have "x < of_nat b powi (ilog b x + 1)" by (rule ilog_bounds(2) [OF base x])
    also have "\<dots> \<le> of_nat b powi (int p + ?e)"
      using base by (intro power_int_increasing) auto
    also have "\<dots> = of_nat b ^ p * ?q"
      unfolding q using base_rat by (simp add: power_int_add)
    finally have "x / ?q \<le> of_int (int b ^ p)"
      using quantum_pos [of x] by (simp add: divide_le_eq)
    then have "rne (x / ?q) \<le> int b ^ p" by (rule rne_le_int)
    moreover have "0 \<le> rne (x / ?q)"
      using x quantum_pos [of x] by (intro int_le_rne) auto
    ultimately show ?thesis
      by (intro round_fixed_pos_le [where k = "rne (x / ?q)" and e = ?e])
         (simp_all add: round_pos [OF x] q)
  qed
  consider "x = 0" | "0 < x" | "0 < - x" by linarith
  then show ?thesis
  proof cases
    case 3
    then show ?thesis using pos [OF 3] by (simp add: round_neg)
  qed (use pos in \<open>auto simp: round_sig_def\<close>)
qed

lemma round_int:
  assumes "\<bar>n\<bar> \<le> int b ^ p"
  shows "round_sig b p emin (of_int n) = of_int n"
proof -
  have pos: "round_sig b p emin (of_int m) = of_int m" if "0 \<le> m" "m \<le> int b ^ p" for m
    using that emin_le digits by (intro round_fixed_pos_le [where k = m and e = 0]) auto
  show ?thesis
    using pos [of n] pos [of "- n"] assms by (cases "0 \<le> n") (simp_all add: round_neg)
qed

lemma round_err:
  assumes "\<bar>x\<bar> \<le> B" "1 \<le> B"
  shows "\<bar>round_sig b p emin x - x\<bar> \<le> of_nat b powi (1 - int p) / 2 * B"
proof -
  have pos: "\<bar>round_sig b p emin x - x\<bar> \<le> of_nat b powi (1 - int p) / 2 * B"
    if x: "0 < x" "x \<le> B" for x
  proof -
    let ?q = "quantum b p emin x" and ?u = "(of_nat b :: rat) powi (1 - int p)"
    have "round_sig b p emin x - x = (of_int (rne (x / ?q)) - x / ?q) * ?q"
      using quantum_pos [of x] by (simp add: round_pos [OF x(1)] algebra_simps)
    then have err: "\<bar>round_sig b p emin x - x\<bar> \<le> 1 / 2 * ?q"
      using rne_error [of "x / ?q"] quantum_pos [of x]
      by (simp add: abs_mult divide_le_eq mult_right_mono)
    have "?q \<le> ?u * B"
    proof (cases "ilog b x - (int p - 1) \<le> emin")
      case True
      then have "?q = of_nat b powi emin" using x by (simp add: quantum_def max_def)
      also have "\<dots> \<le> ?u" using emin_le base by (intro power_int_increasing) auto
      also have "\<dots> \<le> ?u * B" using assms(2) base_rat by simp
      finally show ?thesis .
    next
      case False
      then have "max emin (ilog b \<bar>x\<bar> - (int p - 1)) = ilog b x + (1 - int p)"
        using x by simp
      then have "?q = of_nat b powi ilog b x * ?u"
        using base_rat(3) by (simp add: quantum_def power_int_add [symmetric])
      also have "\<dots> \<le> B * ?u"
        using ilog_bounds(1) [OF base x(1)] x(2) base_rat by (intro mult_right_mono) auto
      finally show ?thesis by (simp add: mult.commute)
    qed
    with err show ?thesis by linarith
  qed
  consider "x = 0" | "0 < x" | "0 < - x" by linarith
  then show ?thesis
  proof cases
    case 1
    then show ?thesis using assms base_rat by (simp add: round_sig_def)
  next
    case 2
    then show ?thesis using pos [of x] assms by simp
  next
    case 3
    then have "\<bar>round_sig b p emin (- x) - (- x)\<bar> \<le> of_nat b powi (1 - int p) / 2 * B"
      using pos [of "- x"] assms by simp
    then show ?thesis by (simp add: round_neg abs_minus_commute)
  qed
qed

lemma round_err_below_1:
  assumes x: "0 < x" "x < 1" and e: "emin \<le> - int p"
  shows "\<bar>round_sig b p emin x - x\<bar> \<le> of_nat b powi (- int p) / 2"
proof -
  let ?q = "quantum b p emin x"
  have "ilog b x < 0" using x by (intro ilog_less [OF base]) auto
  then have "?q \<le> of_nat b powi (- int p)"
    unfolding quantum_def using x e base by (intro power_int_increasing) auto
  moreover have "round_sig b p emin x - x = (of_int (rne (x / ?q)) - x / ?q) * ?q"
    using quantum_pos [of x] by (simp add: round_pos [OF x(1)] algebra_simps)
  then have "\<bar>round_sig b p emin x - x\<bar> \<le> 1 / 2 * ?q"
    using rne_error [of "x / ?q"] quantum_pos [of x]
    by (simp add: abs_mult divide_le_eq mult_right_mono)
  ultimately show ?thesis by linarith
qed

text \<open>Evaluation at a concrete number: the caller gives the scale \<open>k\<close> and the digits \<open>n\<close>.\<close>

lemma round_evalI:
  assumes k: "emin \<le> - int k"
    and lo: "of_nat b ^ (p - 1) \<le> x * of_nat b ^ k" and hi: "x * of_nat b ^ k < of_nat b ^ p"
    and n: "\<bar>x * of_nat b ^ k - of_int n\<bar> < 1/2 \<or> (\<bar>x * of_nat b ^ k - of_int n\<bar> \<le> 1/2 \<and> even n)"
  shows "round_sig b p emin x = of_int n / of_nat b ^ k"
proof -
  let ?B = "of_nat b :: rat"
  have Bk: "0 < ?B ^ k" using base_rat by simp
  have pw: "?B powi (int m - int k) = ?B ^ m / ?B ^ k" for m
    using base_rat(3) by (rule powi_diff_nat)
  have "0 < ?B ^ (p - 1)" using base_rat by simp
  with lo have "0 < x * ?B ^ k" by linarith
  with Bk have x: "0 < x" by (simp add: zero_less_mult_iff)
  have "ilog b x = int (p - 1) - int k"
  proof (rule ilog_eqI [OF base x])
    show "?B powi (int (p - 1) - int k) \<le> x"
      unfolding pw using lo Bk by (simp add: divide_le_eq)
    have "int (p - 1) - int k + 1 = int p - int k" using digits by simp
    then show "x < ?B powi (int (p - 1) - int k + 1)"
      using hi Bk by (simp add: pw less_divide_eq)
  qed
  then have "max emin (ilog b \<bar>x\<bar> - (int p - 1)) = - int k" using x k digits by simp
  then have q: "quantum b p emin x = 1 / ?B ^ k"
    by (simp add: quantum_def power_int_minus inverse_eq_divide)
  show ?thesis
    unfolding round_pos [OF x] q using rne_eqI [OF n] by simp
qed

end

sublocale sig_format \<subseteq> rounding "round_sig b p emin" "int b ^ p" "of_nat b powi (1 - int p) / 2"
proof unfold_locales
  show "1 \<le> int b ^ p" using base by simp
qed (rule round_mono round_idem round_int round_err; assumption?)+

interpretation bin64: sig_format 2 53 "-1074"
  by unfold_locales auto

interpretation dec14: sig_format 10 14 "-400"
  by unfold_locales auto

text \<open>The two roundings of the gateway, with their ranges of exact integers and their
  unit roundoffs written out.\<close>

lemma fl64_round: "fl64 = round_sig 2 53 (-1074)"
  by (simp add: fl64_def fun_eq_iff)

lemma g14_round: "g14 = round_sig 10 14 (-400)"
  by (simp add: g14_def fun_eq_iff)

interpretation fl: rounding fl64 "2 ^ 53" "1 / 2 ^ 53"
  using bin64.rounding_axioms by (simp add: fl64_round power_int_def power_divide)

interpretation dec: rounding g14 "10 ^ 14" "5 / 10 ^ 14"
  using dec14.rounding_axioms by (simp add: g14_round power_int_def power_divide)

lemma fl64_evalI:
  "k \<le> 1074 \<Longrightarrow> 2 ^ 52 \<le> x * 2 ^ k \<Longrightarrow> x * 2 ^ k < 2 ^ 53 \<Longrightarrow>
   \<bar>x * 2 ^ k - of_int n\<bar> < 1/2 \<or> (\<bar>x * 2 ^ k - of_int n\<bar> \<le> 1/2 \<and> even n) \<Longrightarrow>
   fl64 x = of_int n / 2 ^ k"
  using bin64.round_evalI [of k x n] by (simp add: fl64_def)

lemma g14_evalI:
  "k \<le> 400 \<Longrightarrow> 10 ^ 13 \<le> x * 10 ^ k \<Longrightarrow> x * 10 ^ k < 10 ^ 14 \<Longrightarrow>
   \<bar>x * 10 ^ k - of_int n\<bar> < 1/2 \<or> (\<bar>x * 10 ^ k - of_int n\<bar> \<le> 1/2 \<and> even n) \<Longrightarrow>
   g14 x = of_int n / 10 ^ k"
  using dec14.round_evalI [of k x n] by (simp add: g14_def)

text \<open>Integers up to \<open>2 ^ 53\<close> are exact in a double, up to \<open>10 ^ 14\<close> in print.\<close>

lemma fl64_int [fl_simps]: "\<bar>n\<bar> \<le> 2 ^ 53 \<Longrightarrow> fl64 (of_int n) = of_int n"
  by (rule fl.rd_int)

lemma fl64_nat [fl_simps]: "n \<le> 2 ^ 53 \<Longrightarrow> fl64 (of_nat n) = of_nat n"
  using fl.rd_int [of "int n"] by simp

lemma fl64_0 [simp]: "fl64 0 = 0" and fl64_1 [simp]: "fl64 1 = 1"
  by (rule fl.rd_0, rule fl.rd_1)

lemma g14_int [fl_simps]: "\<bar>n\<bar> \<le> 10 ^ 14 \<Longrightarrow> g14 (of_int n) = of_int n"
  by (rule dec.rd_int)

lemma g14_0 [simp]: "g14 0 = 0" and g14_1 [simp]: "g14 1 = 1"
  by (rule dec.rd_0, rule dec.rd_1)

lemma fl64_numeral [simp]: "(numeral w :: int) \<le> 2 ^ 53 \<Longrightarrow> fl64 (numeral w) = numeral w"
  using fl.rd_int [of "numeral w"] by simp

lemma g14_numeral [simp]: "(numeral w :: int) \<le> 10 ^ 14 \<Longrightarrow> g14 (numeral w) = numeral w"
  using dec.rd_int [of "numeral w"] by simp

text \<open>
  A float deficit is enough: adding \<open>1 - x\<close>, as computed, back to \<open>x\<close> gives at
  least 1 after rounding (the error of the subtraction is at most half an ulp below 1, and
  the tie rounds to the even neighbour, which is 1).
\<close>

lemma fl64_deficit:
  assumes "0 \<le> x" "x < 1" and y: "x + fl64 (1 - x) \<le> y"
  shows "1 \<le> fl64 y"
proof (cases "x = 0")
  case True
  with y show ?thesis using fl.rd_ge_1 [of y] by simp
next
  case False
  with assms have "\<bar>fl64 (1 - x) - (1 - x)\<bar> \<le> 1 / 2 ^ 54"
    using bin64.round_err_below_1 [of "1 - x"] by (simp add: fl64_def power_int_def power_divide)
  then have "1 - 1 / 2 ^ 54 \<le> y" using y by linarith
  moreover have "fl64 (1 - 1 / 2 ^ 54) = 1"
    using fl64_evalI [where k = 53 and n = "2 ^ 53" and x = "1 - 1 / 2 ^ 54"] by simp
  ultimately show ?thesis using fl.rd_mono by metis
qed

text \<open>So is a fraction of 53 bits over a power of two.\<close>

lemma fl64_dyadic:
  assumes "0 \<le> k" "k < 2 ^ 53" "e \<le> 1074"
  shows "fl64 (of_int k / 2 ^ e) = of_int k / 2 ^ e"
proof (cases "k = 0")
  case False
  then show ?thesis
    using assms bin64.round_fixed_pos [of "of_int k / 2 ^ e" k "- int e"]
    by (simp add: fl64_def power_int_minus divide_inverse)
qed simp

text \<open>An integer difference of doubles that hold integers is exact.\<close>

lemma fl64_int_diff: "\<bar>m - n\<bar> \<le> 2 ^ 53 \<Longrightarrow> fl64 (of_int m - of_int n) = of_int (m - n)"
  using fl.rd_int [of "m - n"] by simp

end
