(* ===== verification/Circuit_Breaker.thy ===== *)
theory Circuit_Breaker
  imports Floats
begin

text \<open>
  The circuit breaker, \<open>app/infra/circuit_breaker.py\<close>. The three \<open>async with self._lock\<close>
  blocks of \<open>call\<close> are the atomic operations \<open>cb_admit\<close>, \<open>cb_failure\<close> and \<open>cb_success\<close>;
  \<open>cb_call\<close> composes them around the wrapped function as the code does. Between the blocks
  other calls run, so the concurrent behaviour is the step relation \<open>cb_step\<close>, in which any
  number of admitted calls are in flight and finish in any order.
\<close>

section \<open>State and operations\<close>

datatype cb_state = CLOSED | OPEN | HALF_OPEN

primrec state_value :: "cb_state \<Rightarrow> string" where
  "state_value CLOSED = ''closed''"
| "state_value OPEN = ''open''"
| "state_value HALF_OPEN = ''half_open''"

record CircuitBreaker =
  cb_threshold :: int
  cb_recovery_timeout :: rat
  cb_state :: cb_state
  cb_failures :: int
  cb_opened_at :: rat

definition new_breaker :: "int \<Rightarrow> rat \<Rightarrow> CircuitBreaker" where
  "new_breaker failure_threshold recovery_timeout =
     \<lparr>cb_threshold = failure_threshold, cb_recovery_timeout = recovery_timeout,
      cb_state = CLOSED, cb_failures = 0, cb_opened_at = 0\<rparr>"

definition upstream_breaker :: CircuitBreaker where
  "upstream_breaker = new_breaker 5 60"

text \<open>The first block: \<open>False\<close> is \<open>CircuitOpenError\<close>.\<close>

definition cb_admit :: "rat \<Rightarrow> CircuitBreaker \<Rightarrow> bool \<times> CircuitBreaker" where
  "cb_admit now b =
     (if cb_state b = OPEN then
        if cb_recovery_timeout b \<le> fl64 (now - cb_opened_at b)
        then (True, b\<lparr>cb_state := HALF_OPEN\<rparr>)
        else (False, b)
      else (True, b))"

text \<open>The block of \<open>except Exception\<close>.\<close>

definition cb_failure :: "rat \<Rightarrow> CircuitBreaker \<Rightarrow> CircuitBreaker" where
  "cb_failure now b =
     (let b = b\<lparr>cb_failures := cb_failures b + 1\<rparr>
      in if cb_state b = HALF_OPEN \<or> cb_threshold b \<le> cb_failures b
         then b\<lparr>cb_state := OPEN, cb_opened_at := now\<rparr>
         else b)"

text \<open>The success path.\<close>

definition cb_success :: "CircuitBreaker \<Rightarrow> CircuitBreaker" where
  "cb_success b =
     (if cb_state b = HALF_OPEN then b\<lparr>cb_state := CLOSED, cb_failures := 0\<rparr>
      else if cb_state b = CLOSED then b\<lparr>cb_failures := 0\<rparr>
      else b)"

text \<open>How the wrapped coroutine ends: it returns, raises an \<open>Exception\<close>, or is cancelled
  (\<open>CancelledError\<close> is a \<open>BaseException\<close> and passes \<open>except Exception\<close> by).\<close>

datatype ('e, 'a) func_end = Returns 'a | Raises 'e | Cancelled

datatype ('e, 'a) call_end = Result 'a | CircuitOpenError | FuncError 'e | CallCancelled

definition cb_call ::
  "rat \<Rightarrow> rat \<Rightarrow> ('w \<Rightarrow> ('e, 'a) func_end \<times> 'w) \<Rightarrow> CircuitBreaker \<Rightarrow> 'w \<Rightarrow>
   ('e, 'a) call_end \<times> CircuitBreaker \<times> 'w" where
  "cb_call t_admit t_end func b w =
     (case cb_admit t_admit b of
        (False, b) \<Rightarrow> (CircuitOpenError, b, w)
      | (True, b) \<Rightarrow>
          (case func w of
             (Raises e, w) \<Rightarrow> (FuncError e, cb_failure t_end b, w)
           | (Cancelled, w) \<Rightarrow> (CallCancelled, b, w)
           | (Returns a, w) \<Rightarrow> (Result a, cb_success b, w)))"

section \<open>Concurrent calls\<close>

record cb_sys =
  brk :: CircuitBreaker
  inflight :: nat

datatype cb_event = Admit rat | Reject rat | Fail rat | Succeed | Cancel

inductive cb_step :: "cb_sys \<Rightarrow> cb_event \<Rightarrow> cb_sys \<Rightarrow> bool" where
  admit: "cb_admit t (brk s) = (True, b) \<Longrightarrow>
    cb_step s (Admit t) (s\<lparr>brk := b, inflight := Suc (inflight s)\<rparr>)"
| reject: "cb_admit t (brk s) = (False, b) \<Longrightarrow> cb_step s (Reject t) (s\<lparr>brk := b\<rparr>)"
| fail: "inflight s = Suc n \<Longrightarrow>
    cb_step s (Fail t) (s\<lparr>brk := cb_failure t (brk s), inflight := n\<rparr>)"
| succeed: "inflight s = Suc n \<Longrightarrow>
    cb_step s Succeed (s\<lparr>brk := cb_success (brk s), inflight := n\<rparr>)"
| cancel: "inflight s = Suc n \<Longrightarrow> cb_step s Cancel (s\<lparr>inflight := n\<rparr>)"

inductive_cases cb_step_AdmitE: "cb_step s (Admit t) s'"
inductive_cases cb_step_RejectE: "cb_step s (Reject t) s'"
inductive_simps cb_step_Admit: "cb_step s (Admit t) s'"
inductive_simps cb_step_Reject: "cb_step s (Reject t) s'"
inductive_simps cb_step_Fail: "cb_step s (Fail t) s'"
inductive_simps cb_step_Succeed: "cb_step s Succeed s'"
inductive_simps cb_step_Cancel: "cb_step s Cancel s'"

lemmas cb_step_simps = cb_step_Admit cb_step_Reject cb_step_Fail cb_step_Succeed cb_step_Cancel
lemmas cb_defs = cb_admit_def cb_failure_def cb_success_def Let_def

inductive cb_run :: "cb_sys \<Rightarrow> cb_event list \<Rightarrow> cb_sys \<Rightarrow> bool" where
  run_nil: "cb_run s [] s"
| run_cons: "cb_step s e s' \<Longrightarrow> cb_run s' es s'' \<Longrightarrow> cb_run s (e # es) s''"

inductive_simps cb_run_Nil: "cb_run s [] s'"
inductive_simps cb_run_Cons: "cb_run s (e # es) s'"

lemma cb_run_append: "cb_run s es s' \<Longrightarrow> cb_run s' es' s'' \<Longrightarrow> cb_run s (es @ es') s''"
  by (induction rule: cb_run.induct) (auto intro: cb_run.intros)

definition start_sys :: "int \<Rightarrow> rat \<Rightarrow> cb_sys" where
  "start_sys threshold timeout = \<lparr>brk = new_breaker threshold timeout, inflight = 0\<rparr>"

section \<open>The invariant\<close>

definition cb_inv :: "CircuitBreaker \<Rightarrow> bool" where
  "cb_inv b \<longleftrightarrow> 1 \<le> cb_threshold b \<and> 0 \<le> cb_failures b
     \<and> (cb_state b = CLOSED \<longleftrightarrow> cb_failures b < cb_threshold b)"

lemma cb_admit_inv: "cb_inv b \<Longrightarrow> cb_inv (snd (cb_admit t b))"
  by (auto simp: cb_inv_def cb_defs)

lemma cb_failure_inv: "cb_inv b \<Longrightarrow> cb_inv (cb_failure t b)"
  by (cases "cb_state b") (auto simp: cb_inv_def cb_defs)

lemma cb_success_inv: "cb_inv b \<Longrightarrow> cb_inv (cb_success b)"
  by (cases "cb_state b") (auto simp: cb_inv_def cb_defs)

lemma cb_step_inv: "cb_step s e s' \<Longrightarrow> cb_inv (brk s) \<Longrightarrow> cb_inv (brk s')"
proof (induction rule: cb_step.induct)
  case (admit t s b)
  then show ?case using cb_admit_inv [of "brk s" t] by simp
next
  case (reject t s b)
  then show ?case using cb_admit_inv [of "brk s" t] by simp
qed (simp_all add: cb_failure_inv cb_success_inv)

lemma cb_run_inv: "cb_run s es s' \<Longrightarrow> cb_inv (brk s) \<Longrightarrow> cb_inv (brk s')"
  by (induction rule: cb_run.induct) (auto intro: cb_step_inv)

text \<open>C20. The breaker's invariant under any interleaving of concurrent calls: in every state
  reachable from a new breaker, the failure counter is nonnegative and the breaker is CLOSED
  exactly while the counter is below the threshold, so an OPEN or HALF_OPEN breaker always has
  a counter at or above the threshold and a CLOSED one never does.\<close>

theorem breaker_invariant:
  assumes "cb_run (start_sys threshold timeout) es s" "1 \<le> threshold"
  shows "0 \<le> cb_failures (brk s)
    \<and> (cb_state (brk s) = CLOSED \<longleftrightarrow> cb_failures (brk s) < cb_threshold (brk s))"
proof -
  have "cb_inv (brk (start_sys threshold timeout))"
    using assms(2) by (simp add: cb_inv_def start_sys_def new_breaker_def)
  then have "cb_inv (brk s)" using cb_run_inv [OF assms(1)] by blast
  then show ?thesis by (simp add: cb_inv_def)
qed

theorem breaker_invariant_witness:
  "\<exists>s. cb_run (start_sys 1 60) [Admit 10, Fail 11] s \<and> cb_state (brk s) = OPEN
     \<and> 1 \<le> cb_failures (brk s)"
proof -
  let ?s = "\<lparr>brk = \<lparr>cb_threshold = 1, cb_recovery_timeout = 60, cb_state = OPEN,
      cb_failures = 1, cb_opened_at = 11\<rparr>, inflight = 0\<rparr>"
  have run: "cb_run (start_sys 1 60) [Admit 10, Fail 11] ?s"
    by (auto simp: cb_run_Cons cb_run_Nil cb_step_simps start_sys_def new_breaker_def cb_defs)
  show ?thesis using breaker_invariant [OF run] run by (intro exI [of _ ?s]) simp
qed

section \<open>Fast-fail\<close>

definition within_recovery :: "CircuitBreaker \<Rightarrow> rat \<Rightarrow> bool" where
  "within_recovery b t \<longleftrightarrow>
     cb_opened_at b \<le> t \<and> fl64 (t - cb_opened_at b) < cb_recovery_timeout b"

fun event_within :: "CircuitBreaker \<Rightarrow> cb_event \<Rightarrow> bool" where
  "event_within b (Admit t) = within_recovery b t"
| "event_within b (Reject t) = within_recovery b t"
| "event_within b (Fail t) = within_recovery b t"
| "event_within b Succeed = True"
| "event_within b Cancel = True"

fun is_Admit :: "cb_event \<Rightarrow> bool" where
  "is_Admit (Admit t) = True"
| "is_Admit e = False"

definition still_open :: "CircuitBreaker \<Rightarrow> CircuitBreaker \<Rightarrow> bool" where
  "still_open b b' \<longleftrightarrow> cb_state b' = OPEN \<and> cb_opened_at b \<le> cb_opened_at b'
     \<and> cb_recovery_timeout b' = cb_recovery_timeout b
     \<and> cb_threshold b' \<le> cb_failures b'"

lemma still_open_not_admitted:
  assumes "still_open b b'" "within_recovery b t"
  shows "cb_admit t b' = (False, b')"
proof -
  have "fl64 (t - cb_opened_at b') \<le> fl64 (t - cb_opened_at b)"
    using assms(1) by (intro fl.rd_mono) (simp add: still_open_def)
  then show ?thesis using assms by (simp add: cb_admit_def still_open_def within_recovery_def)
qed

lemma still_open_step:
  assumes "cb_step s e s'" "still_open b (brk s)" "event_within b e"
  shows "still_open b (brk s') \<and> \<not> is_Admit e"
  using assms(1)
proof cases
  case (admit t b')
  then show ?thesis using still_open_not_admitted [OF assms(2), of t] assms(3) by simp
next
  case (reject t b')
  then show ?thesis using still_open_not_admitted [OF assms(2), of t] assms(2,3) by simp
next
  case (fail n t)
  then show ?thesis using assms(2,3)
    by (auto simp: cb_defs still_open_def within_recovery_def)
qed (use assms(2) in \<open>auto simp: cb_defs still_open_def\<close>)

text \<open>Fast-fail: once the breaker is open, no call is let through to the upstream before
  the recovery timeout has passed since it opened, whatever calls arrive and however the calls
  already in flight end; late failures and late successes do not close it.\<close>

lemma open_breaker_rejects:
  assumes "cb_run s es s'" "cb_inv (brk s)" "cb_state (brk s) = OPEN"
    and "\<forall>e\<in>set es. event_within (brk s) e"
  shows "cb_state (brk s') = OPEN \<and> (\<forall>e\<in>set es. \<not> is_Admit e)"
proof -
  have "still_open b (brk s') \<and> (\<forall>e\<in>set es. \<not> is_Admit e)"
    if "still_open b (brk s)" "\<forall>e\<in>set es. event_within b e" for b
    using assms(1) that
    by (induction rule: cb_run.induct) (auto dest: still_open_step)
  moreover have "still_open (brk s) (brk s)"
    using assms(2,3) by (auto simp: still_open_def cb_inv_def)
  ultimately show ?thesis using assms(4) by (auto simp: still_open_def)
qed

lemma open_breaker_rejects_witness:
  "\<exists>s s'. cb_run s [Reject 30, Fail 40, Succeed, Reject 45] s' \<and> cb_state (brk s) = OPEN
      \<and> cb_state (brk s') = OPEN"
proof -
  let ?b = "\<lparr>cb_threshold = 1, cb_recovery_timeout = 60, cb_state = OPEN,
      cb_failures = 1, cb_opened_at = 11\<rparr>"
  let ?s = "\<lparr>brk = ?b, inflight = 2\<rparr>"
  let ?s' = "\<lparr>brk = ?b\<lparr>cb_failures := 2, cb_opened_at := 40\<rparr>, inflight = 0\<rparr>"
  have run: "cb_run ?s [Reject 30, Fail 40, Succeed, Reject 45] ?s'"
    by (auto simp: cb_run_Cons cb_run_Nil cb_step_simps cb_defs)
  then have "cb_state (brk ?s') = OPEN \<and> (\<forall>e\<in>set [Reject 30, Fail 40, Succeed, Reject 45]. \<not> is_Admit e)"
    by (rule open_breaker_rejects) (simp_all add: cb_inv_def within_recovery_def)
  with run show ?thesis by (intro exI [of _ ?s] exI [of _ ?s']) simp
qed

section \<open>Opening and recovery\<close>

text \<open>A sequence of calls, one after the other, whose function raises; each is given by the
  clock at admission and at the end.\<close>

fun failing_calls :: "(rat \<times> rat) list \<Rightarrow> CircuitBreaker \<Rightarrow> CircuitBreaker" where
  "failing_calls [] b = b"
| "failing_calls ((t1, t2) # ts) b =
     failing_calls ts (fst (snd (cb_call t1 t2 (\<lambda>w. (Raises () :: (unit, unit) func_end, w)) b ())))"

lemma failing_call_closed:
  "cb_state b = CLOSED \<Longrightarrow>
   fst (snd (cb_call t1 t2 (\<lambda>w. (Raises (e :: 'e) :: ('e, 'a) func_end, w)) b (w :: 'w))) = cb_failure t2 b"
  by (simp add: cb_call_def cb_admit_def)

lemma failing_below_threshold:
  "cb_state b = CLOSED \<Longrightarrow> cb_failures b + int (length ts) < cb_threshold b \<Longrightarrow>
   failing_calls ts b = b\<lparr>cb_failures := cb_failures b + int (length ts)\<rparr>"
  by (induction ts b rule: failing_calls.induct)
     (simp_all add: failing_call_closed cb_failure_def algebra_simps)

lemma failing_calls_append: "failing_calls (ts @ us) b = failing_calls us (failing_calls ts b)"
  by (induction ts b rule: failing_calls.induct) simp_all

text \<open>C23. The breaker opens at exactly the threshold-th consecutive failure: after a success on a
  CLOSED breaker, fewer than \<open>threshold\<close> failing calls leave it CLOSED with the counter at
  their number, and the \<open>threshold\<close>-th opens it and stamps the clock of its end.\<close>

theorem breaker_opens_at_threshold:
  assumes "cb_state b = CLOSED" "cb_threshold b = int (Suc n)" "length ts = n"
  shows "(\<forall>k \<le> n. failing_calls (take k ts) (cb_success b) = b\<lparr>cb_failures := int k\<rparr>)
    \<and> failing_calls (ts @ [(t1, t2)]) (cb_success b) =
        b\<lparr>cb_failures := int (Suc n), cb_state := OPEN, cb_opened_at := t2\<rparr>"
proof -
  have below: "failing_calls (take k ts) (cb_success b) = b\<lparr>cb_failures := int k\<rparr>" if "k \<le> n" for k
    using failing_below_threshold [of "cb_success b" "take k ts"] assms that
    by (simp add: cb_success_def min_def)
  moreover have "failing_calls ts (cb_success b) = b\<lparr>cb_failures := int n\<rparr>"
    using below [of n] assms(3) by simp
  ultimately show ?thesis
    using assms(1,2) by (simp add: failing_calls_append failing_call_closed cb_failure_def)
qed

theorem breaker_opens_at_threshold_witness:
  "failing_calls ([(0, 1), (2, 3), (4, 5), (6, 7)] @ [(8, 9)]) (cb_success upstream_breaker) =
     upstream_breaker\<lparr>cb_failures := 5, cb_state := OPEN, cb_opened_at := 9\<rparr>"
  using breaker_opens_at_threshold [of upstream_breaker 4 "[(0, 1), (2, 3), (4, 5), (6, 7)]" 8 9]
  by (simp add: upstream_breaker_def new_breaker_def)

text \<open>One call on an OPEN breaker: before the timeout it is refused, the function is not run
  and nothing changes; at or after the timeout the function runs as a probe, and its success
  closes the breaker with a zero counter, its failure reopens it for a full timeout from the
  failure, and its cancellation leaves it HALF_OPEN.\<close>

lemma open_breaker_call:
  assumes "cb_state b = OPEN"
  shows "(fl64 (t1 - cb_opened_at b) < cb_recovery_timeout b \<longrightarrow>
            cb_call t1 t2 func b w = (CircuitOpenError, b, w))
    \<and> (cb_recovery_timeout b \<le> fl64 (t1 - cb_opened_at b) \<longrightarrow>
        (case func w of
           (Returns a, w') \<Rightarrow> cb_call t1 t2 func b w =
             (Result a, b\<lparr>cb_state := CLOSED, cb_failures := 0\<rparr>, w')
         | (Raises e, w') \<Rightarrow> cb_call t1 t2 func b w =
             (FuncError e, b\<lparr>cb_failures := cb_failures b + 1, cb_state := OPEN, cb_opened_at := t2\<rparr>, w')
         | (Cancelled, w') \<Rightarrow> cb_call t1 t2 func b w =
             (CallCancelled, b\<lparr>cb_state := HALF_OPEN\<rparr>, w')))"
  using assms by (simp add: cb_call_def cb_defs split: prod.split func_end.split)

lemma open_breaker_call_witness:
  "cb_call 70 71 (\<lambda>w. (Returns (200 :: int) :: (unit, int) func_end, Suc w))
     (upstream_breaker\<lparr>cb_state := OPEN, cb_failures := 5, cb_opened_at := 10\<rparr>) 0
   = (Result 200, upstream_breaker\<lparr>cb_state := CLOSED, cb_failures := 0, cb_opened_at := 10\<rparr>, 1)
   \<and> cb_call 69 71 (\<lambda>w. (Returns (200 :: int) :: (unit, int) func_end, Suc w))
     (upstream_breaker\<lparr>cb_state := OPEN, cb_failures := 5, cb_opened_at := 10\<rparr>) 0
   = (CircuitOpenError, upstream_breaker\<lparr>cb_state := OPEN, cb_failures := 5, cb_opened_at := 10\<rparr>, 0)"
  using open_breaker_call [of "upstream_breaker\<lparr>cb_state := OPEN, cb_failures := 5, cb_opened_at := 10\<rparr>"
      70 71 "\<lambda>w. (Returns (200 :: int) :: (unit, int) func_end, Suc w)" 0]
    open_breaker_call [of "upstream_breaker\<lparr>cb_state := OPEN, cb_failures := 5, cb_opened_at := 10\<rparr>"
      69 71 "\<lambda>w. (Returns (200 :: int) :: (unit, int) func_end, Suc w)" 0]
  by (simp add: upstream_breaker_def new_breaker_def)

section \<open>The sequential code inside the interleaving\<close>

text \<open>Every execution of \<open>call\<close> is a path of the concurrent step relation that leaves the
  number of calls in flight as it was, so what holds for all interleavings holds for the code.\<close>

lemma cb_call_is_run:
  "\<exists>es. cb_run s es (s\<lparr>brk := fst (snd (cb_call t1 t2 func (brk s) w))\<rparr>)"
proof -
  obtain ok b where a: "cb_admit t1 (brk s) = (ok, b)" by force
  obtain x w' where f: "func w = (x, w')" by force
  show ?thesis
  proof (cases ok)
    case False
    then have "cb_run s [Reject t1] (s\<lparr>brk := b\<rparr>)"
      using a by (auto simp: cb_run_Cons cb_run_Nil cb_step_simps)
    then show ?thesis using a False by (auto simp: cb_call_def)
  next
    case True
    let ?s = "s\<lparr>brk := b, inflight := Suc (inflight s)\<rparr>"
    have adm: "cb_step s (Admit t1) ?s" using a True by (auto simp: cb_step_simps)
    have "\<exists>e. cb_step ?s e (s\<lparr>brk := fst (snd (cb_call t1 t2 func (brk s) w))\<rparr>)"
    proof (cases x)
      case (Returns y)
      have "cb_step ?s Succeed (s\<lparr>brk := cb_success b\<rparr>)" by (simp add: cb_step_simps)
      then show ?thesis using a f True Returns by (auto simp: cb_call_def)
    next
      case (Raises y)
      have "cb_step ?s (Fail t2) (s\<lparr>brk := cb_failure t2 b\<rparr>)" by (simp add: cb_step_simps)
      then show ?thesis using a f True Raises by (auto simp: cb_call_def)
    next
      case Cancelled
      have "cb_step ?s Cancel (s\<lparr>brk := b\<rparr>)" by (simp add: cb_step_simps)
      then show ?thesis using a f True Cancelled by (auto simp: cb_call_def)
    qed
    then show ?thesis using adm by (meson cb_run.intros)
  qed
qed

section \<open>Half-open does not limit probes\<close>

lemma half_open_admits:
  "cb_state (brk s) = HALF_OPEN \<Longrightarrow>
   cb_run s (replicate n (Admit t)) (s\<lparr>inflight := inflight s + n\<rparr>)"
proof (induction n arbitrary: s)
  case 0
  have "s\<lparr>inflight := inflight s + 0\<rparr> = s" by simp
  then show ?case by (simp add: cb_run_Nil)
next
  case (Suc n)
  have "cb_step s (Admit t) (s\<lparr>inflight := Suc (inflight s)\<rparr>)"
    using Suc.prems by (auto simp: cb_step_simps cb_admit_def)
  then show ?case using Suc.IH [of "s\<lparr>inflight := Suc (inflight s)\<rparr>"] Suc.prems
    by (auto simp: intro: cb_run.intros)
qed

text \<open>HALF_OPEN admits any number of concurrent probes, not one: for every \<open>n\<close> there is a run
  of the gateway's own breaker into HALF_OPEN with \<open>n + 1\<close> probes in flight at once.\<close>

lemma half_open_unlimited_probes:
  "\<exists>es s. cb_run \<lparr>brk = upstream_breaker, inflight = 0\<rparr> es s
     \<and> cb_state (brk s) = HALF_OPEN \<and> inflight s = Suc n"
proof -
  let ?f = "[Admit 0, Fail 0]"
  let ?h = "\<lparr>brk = upstream_breaker\<lparr>cb_failures := 5, cb_state := HALF_OPEN\<rparr>, inflight = 1\<rparr>"
  have "cb_run \<lparr>brk = upstream_breaker, inflight = 0\<rparr> (?f @ ?f @ ?f @ ?f @ ?f @ [Admit 60]) ?h"
    by (simp add: cb_run_Cons cb_run_Nil cb_step_simps cb_defs upstream_breaker_def new_breaker_def)
  from cb_run_append [OF this half_open_admits [of ?h n 60]] show ?thesis by fastforce
qed

end
