(* ===== verification/Metering.thy ===== *)
theory Metering
  imports Prelude
begin

text \<open>
  The budget contract of a rate limiter, as an interface: a call either grants or denies,
  the limiter holds a stock of tokens, and no call grants or keeps more than the stock plus
  what the clock credited, up to a fixed slack for rounding. The locale proves once what a
  whole history of calls can grant. The reference bucket and the Redis script both
  interpret it.
\<close>

fun run_calls :: "('c \<Rightarrow> 's \<Rightarrow> bool \<times> 's) \<Rightarrow> 'c list \<Rightarrow> 's \<Rightarrow> bool list \<times> 's" where
  "run_calls step [] s = ([], s)"
| "run_calls step (c # cs) s =
     (let (d, s') = step c s; (ds, s'') = run_calls step cs s' in (d # ds, s''))"

fun total_income :: "('c \<Rightarrow> 's \<Rightarrow> bool \<times> 's) \<Rightarrow> ('c \<Rightarrow> 's \<Rightarrow> rat) \<Rightarrow> 'c list \<Rightarrow> 's \<Rightarrow> rat" where
  "total_income step income [] s = 0"
| "total_income step income (c # cs) s = income c s + total_income step income cs (snd (step c s))"

definition allowed_count :: "bool list \<Rightarrow> nat" where
  "allowed_count ds = length (filter id ds)"

lemma allowed_count_simps [simp]:
  "allowed_count [] = 0"
  "allowed_count (d # ds) = (if d then Suc (allowed_count ds) else allowed_count ds)"
  by (simp_all add: allowed_count_def)

lemma run_calls_Cons [simp]:
  "run_calls step (c # cs) s =
     (fst (step c s) # fst (run_calls step cs (snd (step c s))), snd (run_calls step cs (snd (step c s))))"
  by (simp add: split_beta Let_def)

declare run_calls.simps(2) [simp del]

lemma run_calls_append:
  "run_calls step (cs @ ds) s =
     (fst (run_calls step cs s) @ fst (run_calls step ds (snd (run_calls step cs s))),
      snd (run_calls step ds (snd (run_calls step cs s))))"
  by (induction cs arbitrary: s) simp_all

lemma allowed_count_append [simp]: "allowed_count (ds @ es) = allowed_count ds + allowed_count es"
  by (simp add: allowed_count_def)

lemma length_run_calls: "length (fst (run_calls step cs s)) = length cs"
  by (induction cs arbitrary: s) simp_all

locale metered =
  fixes step :: "'c \<Rightarrow> 's \<Rightarrow> bool \<times> 's"
    and stock :: "'s \<Rightarrow> rat"
    and income :: "'c \<Rightarrow> 's \<Rightarrow> rat"
    and slack :: rat
    and good :: "'s \<Rightarrow> bool"
    and valid :: "'c \<Rightarrow> bool"
  assumes step_good: "good s \<Longrightarrow> valid c \<Longrightarrow> good (snd (step c s))"
    and stock_nonneg: "good s \<Longrightarrow> 0 \<le> stock s"
    and meter: "good s \<Longrightarrow> valid c \<Longrightarrow>
      (if fst (step c s) then 1 else 0) + stock (snd (step c s)) \<le> stock s + income c s + slack"
begin

lemma run_good:
  "good s \<Longrightarrow> \<forall>c\<in>set cs. valid c \<Longrightarrow> good (snd (run_calls step cs s))"
proof (induction cs arbitrary: s)
  case (Cons c cs)
  then have "good (snd (run_calls step cs (snd (step c s))))"
    by (simp add: step_good)
  then show ?case by simp
qed simp

lemma run_metered:
  "good s \<Longrightarrow> \<forall>c\<in>set cs. valid c \<Longrightarrow>
   of_nat (allowed_count (fst (run_calls step cs s))) + stock (snd (run_calls step cs s)) \<le>
   stock s + total_income step income cs s + of_nat (length cs) * slack"
proof (induction cs arbitrary: s)
  case Nil
  then show ?case by simp
next
  case (Cons c cs)
  let ?s = "snd (step c s)"
  have "of_nat (allowed_count (fst (run_calls step cs ?s))) + stock (snd (run_calls step cs ?s)) \<le>
        stock ?s + total_income step income cs ?s + of_nat (length cs) * slack"
    using Cons by (simp add: step_good)
  moreover have "(if fst (step c s) then 1 else 0) + stock ?s \<le> stock s + income c s + slack"
    using Cons.prems by (intro meter) auto
  moreover have "of_nat (length (c # cs)) * slack = slack + of_nat (length cs) * slack"
    by (simp add: algebra_simps)
  moreover have "(of_nat (allowed_count (fst (run_calls step (c # cs) s))) :: rat) =
      (if fst (step c s) then 1 else 0) + of_nat (allowed_count (fst (run_calls step cs ?s)))"
    and "snd (run_calls step (c # cs) s) = snd (run_calls step cs ?s)"
    by simp_all
  ultimately show ?case by (simp only: total_income.simps)
qed

text \<open>What a history of calls grants is at most the initial stock, the income and the slack.\<close>

lemma grants_bounded:
  assumes "good s" "\<forall>c\<in>set cs. valid c"
  shows "of_nat (allowed_count (fst (run_calls step cs s))) \<le>
    stock s + total_income step income cs s + of_nat (length cs) * slack"
  using run_metered [OF assms] stock_nonneg [OF run_good [OF assms]] by linarith

end

end
