(* ===== verification/Token_Bucket.thy ===== *)
theory Token_Bucket
  imports Floats Metering
begin

text \<open>
  The reference token bucket, \<open>app/infra/rate_limiter/algorithms.py\<close>: the bucket state,
  the result, and \<open>check_token_bucket\<close> with every float operation rounded. The lemmas
  give the bounds of the state, the burst of a full bucket, the long-run rate, and that
  the \<open>retry_after\<close> of a denial is long enough.
\<close>

section \<open>The algorithm\<close>

record TokenBucketState =
  tokens :: rat
  last_refill :: int

record TokenBucketResult =
  allowed :: bool
  new_state :: TokenBucketState
  remaining :: int
  retry_after :: int

text \<open>The refill phase: tokens for the elapsed time, capped at the capacity.\<close>

definition refill_phase :: "TokenBucketState \<Rightarrow> int \<Rightarrow> int \<Rightarrow> rat \<Rightarrow> rat" where
  "refill_phase state now capacity refill_rate_per_sec =
     (let elapsed = max 0 (now - last_refill state);
          refilled_tokens = fl64 (tokens state + fl64 (fl64 (of_int elapsed) * refill_rate_per_sec))
      in min refilled_tokens (fl64 (of_int capacity)))"

definition check_token_bucket ::
  "TokenBucketState option \<Rightarrow> int \<Rightarrow> int \<Rightarrow> rat \<Rightarrow> py_exc + TokenBucketResult" where
  "check_token_bucket state now capacity refill_rate_per_sec =
     (let state = (case state of
                     None \<Rightarrow> \<lparr>tokens = fl64 (of_int capacity), last_refill = now\<rparr>
                   | Some s \<Rightarrow> s);
          current_tokens = refill_phase state now capacity refill_rate_per_sec
      in if 1 \<le> current_tokens then
           let new_tokens = fl64 (current_tokens - 1)
           in Inr \<lparr>allowed = True,
                   new_state = \<lparr>tokens = new_tokens, last_refill = now\<rparr>,
                   remaining = py_int new_tokens,
                   retry_after = 0\<rparr>
         else
           let deficit = fl64 (1 - current_tokens)
           in if refill_rate_per_sec = 0 then Inl ZeroDivisionError
              else Inr \<lparr>allowed = False,
                        new_state = \<lparr>tokens = current_tokens, last_refill = now\<rparr>,
                        remaining = 0,
                        retry_after = py_int (fl64 (deficit / refill_rate_per_sec)) + 1\<rparr>)"

text \<open>Successive calls, each given the state the previous one returned. The result lists
  the decisions.\<close>

fun run_bucket ::
  "TokenBucketState option \<Rightarrow> int list \<Rightarrow> int \<Rightarrow> rat \<Rightarrow> py_exc + (bool list \<times> TokenBucketState option)" where
  "run_bucket state [] capacity rate = Inr ([], state)"
| "run_bucket state (now # nows) capacity rate =
     (case check_token_bucket state now capacity rate of
        Inl e \<Rightarrow> Inl e
      | Inr r \<Rightarrow> (case run_bucket (Some (new_state r)) nows capacity rate of
                    Inl e \<Rightarrow> Inl e
                  | Inr (ds, s) \<Rightarrow> Inr (allowed r # ds, s)))"

section \<open>Arithmetic of one refill, for any rounding\<close>

context rounding
begin

lemma refill_nonneg:
  "0 \<le> t \<Longrightarrow> 0 \<le> d \<Longrightarrow> 0 \<le> cap \<Longrightarrow> 0 \<le> min (rd (t + rd d)) (rd (of_int cap))"
  by (simp add: rd_nonneg)

text \<open>What one refill can add beyond the exact amount: two rounding errors.\<close>

lemma refill_upper:
  assumes t: "0 \<le> t" and d: "0 \<le> d" and cap: "1 \<le> cap" "cap \<le> exact"
  shows "min (rd (t + rd d)) (rd (of_int cap)) \<le> t + d + 2 * u * of_int cap"
proof -
  let ?c = "of_int cap :: rat"
  have c: "rd ?c = ?c" "1 \<le> ?c" using cap by (simp_all add: rd_int)
  have uc: "0 \<le> u * ?c" using u_nonneg c by simp
  show ?thesis
  proof (cases "d \<le> ?c")
    case False
    then show ?thesis using t c uc by linarith
  next
    case True
    then have r: "rd d \<le> d + u * ?c" using d c(2) by (intro rd_upper) auto
    show ?thesis
    proof (cases "t + rd d \<le> ?c")
      case True
      then have "rd (t + rd d) \<le> (t + rd d) + u * ?c"
        using t d c(2) rd_nonneg [OF d] by (intro rd_upper) auto
      then show ?thesis using r by linarith
    next
      case False
      then show ?thesis using r c uc by linarith
    qed
  qed
qed

lemma consume_upper:
  "1 \<le> x \<Longrightarrow> x \<le> of_int cap \<Longrightarrow> rd (x - 1) \<le> x - 1 + u * of_int cap"
  using rd_upper [of "x - 1" "of_int cap"] by simp

end

section \<open>Bounds of the bucket state\<close>

definition bucket_ok :: "int \<Rightarrow> TokenBucketState \<Rightarrow> bool" where
  "bucket_ok capacity s \<longleftrightarrow>
     0 \<le> tokens s \<and> tokens s \<le> of_int capacity \<and> fl64 (tokens s) = tokens s"

definition capacity_ok :: "int \<Rightarrow> bool" where
  "capacity_ok capacity \<longleftrightarrow> 1 \<le> capacity \<and> capacity \<le> 2 ^ 53"

lemma capacity_exact: "capacity_ok capacity \<Longrightarrow> fl64 (of_int capacity) = of_int capacity"
  by (simp add: capacity_ok_def fl64_int)

lemma refill_phase_bounds:
  assumes "capacity_ok capacity" "0 \<le> tokens s" "0 \<le> rate"
  shows "0 \<le> refill_phase s now capacity rate"
    and "refill_phase s now capacity rate \<le> of_int capacity"
    and "fl64 (refill_phase s now capacity rate) = refill_phase s now capacity rate"
proof -
  have "0 \<le> fl64 (of_int (max 0 (now - last_refill s))) * rate"
    using assms(3) by (intro mult_nonneg_nonneg fl.rd_nonneg) auto
  then show "0 \<le> refill_phase s now capacity rate"
    unfolding refill_phase_def Let_def
    using assms by (intro fl.refill_nonneg) (auto simp: capacity_ok_def)
  show "refill_phase s now capacity rate \<le> of_int capacity"
    by (simp add: refill_phase_def Let_def capacity_exact [OF assms(1)])
  show "fl64 (refill_phase s now capacity rate) = refill_phase s now capacity rate"
    by (simp add: refill_phase_def Let_def min_def fl.rd_idem)
qed

lemma refill_phase_same_instant:
  assumes "fl64 (tokens s) = tokens s" "now \<le> last_refill s" "capacity_ok capacity"
  shows "refill_phase s now capacity rate = min (tokens s) (of_int capacity)"
  using assms by (simp add: refill_phase_def Let_def capacity_exact)

text \<open>A new user is a user whose bucket was full at \<open>now\<close>.\<close>

definition full_bucket :: "int \<Rightarrow> int \<Rightarrow> TokenBucketState" where
  "full_bucket capacity now = \<lparr>tokens = fl64 (of_int capacity), last_refill = now\<rparr>"

lemma check_None:
  "check_token_bucket None now capacity rate =
   check_token_bucket (Some (full_bucket capacity now)) now capacity rate"
  by (simp add: check_token_bucket_def full_bucket_def)

lemma bucket_ok_full: "capacity_ok capacity \<Longrightarrow> bucket_ok capacity (full_bucket capacity now)"
  by (simp add: bucket_ok_def full_bucket_def capacity_exact)
     (simp add: capacity_ok_def)

text \<open>The two outcomes, as rewrite rules on the refilled amount.\<close>

lemma check_allow:
  "1 \<le> refill_phase s now capacity rate \<Longrightarrow>
   check_token_bucket (Some s) now capacity rate =
     Inr \<lparr>allowed = True,
          new_state = \<lparr>tokens = fl64 (refill_phase s now capacity rate - 1), last_refill = now\<rparr>,
          remaining = py_int (fl64 (refill_phase s now capacity rate - 1)), retry_after = 0\<rparr>"
  by (simp add: check_token_bucket_def Let_def)

lemma check_deny:
  "refill_phase s now capacity rate < 1 \<Longrightarrow> rate \<noteq> 0 \<Longrightarrow>
   check_token_bucket (Some s) now capacity rate =
     Inr \<lparr>allowed = False,
          new_state = \<lparr>tokens = refill_phase s now capacity rate, last_refill = now\<rparr>,
          remaining = 0,
          retry_after = py_int (fl64 (fl64 (1 - refill_phase s now capacity rate) / rate)) + 1\<rparr>"
  by (simp add: check_token_bucket_def Let_def)

lemma check_cases:
  assumes "check_token_bucket (Some s) now capacity rate = Inr r"
  obtains (allow) "1 \<le> refill_phase s now capacity rate" "allowed r" "retry_after r = 0"
      "new_state r = \<lparr>tokens = fl64 (refill_phase s now capacity rate - 1), last_refill = now\<rparr>"
      "remaining r = py_int (tokens (new_state r))"
    | (deny) "refill_phase s now capacity rate < 1" "rate \<noteq> 0" "\<not> allowed r" "remaining r = 0"
      "new_state r = \<lparr>tokens = refill_phase s now capacity rate, last_refill = now\<rparr>"
      "retry_after r = py_int (fl64 (fl64 (1 - refill_phase s now capacity rate) / rate)) + 1"
  using assms
  by (cases "1 \<le> refill_phase s now capacity rate")
     (auto simp: check_token_bucket_def Let_def split: if_splits)

lemma check_returns:
  "rate \<noteq> 0 \<Longrightarrow> \<exists>r. check_token_bucket st now capacity rate = Inr r"
  by (simp add: check_token_bucket_def Let_def)

lemma check_bucket_ok:
  assumes "check_token_bucket (Some s) now capacity rate = Inr r"
    and "capacity_ok capacity" "0 \<le> tokens s" "0 \<le> rate"
  shows "bucket_ok capacity (new_state r) \<and> last_refill (new_state r) = now"
proof -
  note b = refill_phase_bounds [OF assms(2-4), of now]
  from assms(1) show ?thesis
  proof (cases rule: check_cases)
    case allow
    have "fl64 (refill_phase s now capacity rate - 1) \<le> of_int capacity"
      using b(2) fl.rd_le_fixed capacity_exact [OF assms(2)] by fastforce
    then show ?thesis using allow by (simp add: bucket_ok_def fl.rd_idem fl.rd_nonneg)
  next
    case deny
    then show ?thesis using b by (simp add: bucket_ok_def)
  qed
qed

lemma check_remaining:
  assumes "check_token_bucket (Some s) now capacity rate = Inr r"
    and "capacity_ok capacity" "0 \<le> tokens s" "0 \<le> rate"
  shows "0 \<le> remaining r \<and> remaining r < capacity"
proof -
  note b = refill_phase_bounds [OF assms(2-4), of now]
  from assms(1) show ?thesis
  proof (cases rule: check_cases)
    case allow
    let ?x = "fl64 (refill_phase s now capacity rate - 1)"
    have "refill_phase s now capacity rate - 1 \<le> of_int (capacity - 1)" using b(2) by simp
    then have "?x \<le> of_int (capacity - 1)"
      using assms(2) by (intro fl.rd_le_int) (auto simp: capacity_ok_def)
    then have "\<lfloor>?x\<rfloor> \<le> capacity - 1" by (metis floor_mono floor_of_int)
    moreover have "0 \<le> ?x" using allow by (simp add: fl.rd_nonneg)
    ultimately show ?thesis using allow by (simp add: py_int_nonneg)
  next
    case deny
    then show ?thesis using assms(2) by (simp add: capacity_ok_def)
  qed
qed

section \<open>Bursts\<close>

text \<open>At one instant a bucket holding \<open>k\<close> whole tokens serves exactly \<open>k\<close> requests.\<close>

lemma burst_from:
  assumes "capacity_ok capacity" "int k \<le> capacity" "rate \<noteq> 0"
  shows "run_bucket (Some \<lparr>tokens = of_nat k, last_refill = now\<rparr>) (replicate n now) capacity rate =
    Inr (replicate (min n k) True @ replicate (n - k) False,
         Some \<lparr>tokens = of_nat (k - n), last_refill = now\<rparr>)"
  using assms(2)
proof (induction n arbitrary: k)
  case 0
  then show ?case by simp
next
  case (Suc n)
  let ?s = "\<lparr>tokens = of_nat k, last_refill = now\<rparr> :: TokenBucketState"
  have kk: "k \<le> 2 ^ 53" using assms(1) Suc.prems by (simp add: capacity_ok_def)
  have "(of_nat k :: rat) \<le> of_int capacity"
    using Suc.prems by (metis of_int_le_iff of_int_of_nat_eq)
  then have ref: "refill_phase ?s now capacity rate = of_nat k"
    using refill_phase_same_instant [of ?s now capacity rate] assms(1) kk by (simp add: fl64_nat)
  show ?case
  proof (cases k)
    case 0
    then show ?thesis
      using check_deny [of ?s now capacity rate] ref assms(3) Suc.IH [of 0] assms(1)
      by (simp add: capacity_ok_def)
  next
    case (Suc j)
    have "fl64 (of_nat k - 1) = of_nat j" using Suc kk fl64_nat [of j] by simp
    then show ?thesis
      using check_allow [of ?s now capacity rate] ref Suc Suc.IH [of j] Suc.prems by simp
  qed
qed

text \<open>A fresh bucket of capacity \<open>c\<close> allows exactly \<open>c\<close> requests at one instant,
  in float arithmetic, and denies every further one: of \<open>n\<close> simultaneous requests the first
  \<open>min n c\<close> are allowed and the rest denied, and \<open>c - n\<close> whole tokens are left.\<close>

lemma fresh_bucket_burst:
  assumes "1 \<le> capacity" "capacity \<le> 2 ^ 53" "rate \<noteq> 0" "1 \<le> n"
  shows "run_bucket None (replicate n now) capacity rate =
    Inr (replicate (min n (nat capacity)) True @ replicate (n - nat capacity) False,
         Some \<lparr>tokens = of_nat (nat capacity - n), last_refill = now\<rparr>)"
proof -
  have ok: "capacity_ok capacity" using assms by (simp add: capacity_ok_def)
  obtain m where n: "n = Suc m" using assms(4) by (metis Suc_le_D One_nat_def)
  have "run_bucket None (replicate n now) capacity rate =
        run_bucket (Some (full_bucket capacity now)) (replicate n now) capacity rate"
    by (simp add: n check_None)
  moreover have "full_bucket capacity now = \<lparr>tokens = of_nat (nat capacity), last_refill = now\<rparr>"
    using ok assms(1) by (simp add: full_bucket_def capacity_exact)
  ultimately show ?thesis using burst_from [OF ok, of "nat capacity" rate now n] assms by simp
qed

lemma fresh_bucket_burst_witness:
  "run_bucket None (replicate 4 1000) 3 (1/20) =
   Inr ([True, True, True, False], Some \<lparr>tokens = 0, last_refill = 1000\<rparr>)"
  using fresh_bucket_burst [of 3 "1/20" 4 1000] by (simp add: numeral_eq_Suc)

section \<open>The long-run rate\<close>

text \<open>The refill time of a sequence of calls: forward clock movement only.\<close>

fun refill_time :: "int \<Rightarrow> int list \<Rightarrow> int" where
  "refill_time t [] = 0"
| "refill_time t (n # ns) = max 0 (n - t) + refill_time n ns"

definition sane_clock :: "int \<Rightarrow> bool" where
  "sane_clock t \<longleftrightarrow> 0 \<le> t \<and> t \<le> 10 ^ 14"

lemma sane_elapsed:
  "sane_clock t \<Longrightarrow> sane_clock n \<Longrightarrow> fl64 (of_int (max 0 (n - t))) = of_int (max 0 (n - t))"
  by (rule fl64_int) (auto simp: sane_clock_def)

lemma refill_phase_upper:
  assumes "capacity_ok capacity" "0 \<le> tokens s" "0 \<le> rate"
    and "sane_clock now" "sane_clock (last_refill s)"
  shows "refill_phase s now capacity rate \<le>
    tokens s + of_int (max 0 (now - last_refill s)) * rate + 2 / 2 ^ 53 * of_int capacity"
  using fl.refill_upper [of "tokens s" "of_int (max 0 (now - last_refill s)) * rate" capacity] assms
  by (simp add: refill_phase_def Let_def sane_elapsed capacity_ok_def)

text \<open>One call: what it grants plus what it keeps is at most what was there plus the refill,
  up to three rounding errors.\<close>

lemma check_potential:
  assumes r: "check_token_bucket (Some s) now capacity rate = Inr r"
    and ok: "capacity_ok capacity" "0 \<le> tokens s" "0 \<le> rate"
    and clk: "sane_clock now" "sane_clock (last_refill s)"
  shows "(if allowed r then 1 else 0) + tokens (new_state r) \<le>
    tokens s + of_int (max 0 (now - last_refill s)) * rate + 3 / 2 ^ 53 * of_int capacity"
proof -
  note up = refill_phase_upper [OF ok clk]
  have c: "0 \<le> (of_int capacity :: rat)" using ok(1) by (simp add: capacity_ok_def)
  from r show ?thesis
  proof (cases rule: check_cases)
    case allow
    have "fl64 (refill_phase s now capacity rate - 1) \<le>
          refill_phase s now capacity rate - 1 + 1 / 2 ^ 53 * of_int capacity"
      using allow refill_phase_bounds(2) [OF ok] by (intro fl.consume_upper)
    then show ?thesis using allow up by simp
  next
    case deny
    then show ?thesis using up c by simp
  qed
qed

text \<open>The reference bucket meets the budget contract, for calls that may differ in
  capacity (up to \<open>cmax\<close>) and rate.\<close>

fun ref_call :: "int \<times> rat \<times> int \<Rightarrow> TokenBucketState \<Rightarrow> bool \<times> TokenBucketState" where
  "ref_call (capacity, rate, now) s =
     (case check_token_bucket (Some s) now capacity rate of
        Inl e \<Rightarrow> (False, s)
      | Inr r \<Rightarrow> (allowed r, new_state r))"

fun ref_income :: "int \<times> rat \<times> int \<Rightarrow> TokenBucketState \<Rightarrow> rat" where
  "ref_income (capacity, rate, now) s = of_int (max 0 (now - last_refill s)) * rate"

fun ref_valid :: "int \<Rightarrow> int \<times> rat \<times> int \<Rightarrow> bool" where
  "ref_valid cmax (capacity, rate, now) \<longleftrightarrow>
     capacity_ok capacity \<and> capacity \<le> cmax \<and> 0 < rate \<and> sane_clock now"

definition ref_good :: "TokenBucketState \<Rightarrow> bool" where
  "ref_good s \<longleftrightarrow> 0 \<le> tokens s \<and> sane_clock (last_refill s)"

interpretation ref: metered ref_call tokens ref_income "3 / 2 ^ 53 * of_int cmax" ref_good "ref_valid cmax"
  for cmax
proof unfold_locales
  fix s and c :: "int \<times> rat \<times> int"
  assume g: "ref_good s" and v: "ref_valid cmax c"
  obtain capacity rate now where c: "c = (capacity, rate, now)" by (cases c)
  obtain r where r: "check_token_bucket (Some s) now capacity rate = Inr r"
    using v c check_returns [of rate "Some s" now capacity] by auto
  have ok: "capacity_ok capacity" "0 \<le> tokens s" "0 \<le> rate" and le: "capacity \<le> cmax"
    and clk: "sane_clock now" "sane_clock (last_refill s)"
    using g v c by (auto simp: ref_good_def)
  have step: "ref_call c s = (allowed r, new_state r)" by (simp add: c r)
  show "ref_good (snd (ref_call c s))"
    using check_bucket_ok [OF r ok] clk(1) by (simp add: step ref_good_def bucket_ok_def)
  have "3 / 2 ^ 53 * of_int capacity \<le> (3 / 2 ^ 53 * of_int cmax :: rat)"
    using le by (intro mult_left_mono) simp_all
  with check_potential [OF r ok clk]
  show "(if fst (ref_call c s) then 1 else 0) + tokens (snd (ref_call c s)) \<le>
      tokens s + ref_income c s + 3 / 2 ^ 53 * of_int cmax"
    unfolding step by (simp only: c ref_income.simps fst_conv snd_conv)
qed (simp add: ref_good_def)

lemma run_bucket_calls:
  "run_bucket (Some s) nows capacity rate = Inr (ds, s') \<Longrightarrow>
   ds = fst (run_calls ref_call (map (\<lambda>t. (capacity, rate, t)) nows) s)"
  by (induction nows arbitrary: s ds)
     (auto split: sum.splits prod.splits)

lemma run_bucket_income:
  "run_bucket (Some s) nows capacity rate = Inr (ds, s') \<Longrightarrow>
   total_income ref_call ref_income (map (\<lambda>t. (capacity, rate, t)) nows) s =
   of_int (refill_time (last_refill s) nows) * rate"
proof (induction nows arbitrary: s ds)
  case (Cons n ns)
  then obtain r ds' where r: "check_token_bucket (Some s) n capacity rate = Inr r"
    and "run_bucket (Some (new_state r)) ns capacity rate = Inr (ds', s')"
    by (auto split: sum.splits prod.splits)
  moreover have "last_refill (new_state r) = n"
    using r by (auto elim: check_cases)
  ultimately show ?case using Cons.IH by (simp add: algebra_simps)
qed simp

text \<open>The long-run rate of the reference bucket, rounding included: over any sequence of
  calls from a new user, the number of allowed requests is at most the capacity, plus the
  refill rate times the time the clock moved forward, plus at most three rounding errors
  (\<open>3 * capacity / 2 ^ 53\<close>) per call.\<close>

lemma bucket_long_run_rate:
  assumes "run_bucket None (t # nows) capacity rate = Inr (ds, s')"
    and "1 \<le> capacity" "capacity \<le> 2 ^ 53" "0 < rate"
    and "\<forall>t'\<in>set (t # nows). 0 \<le> t' \<and> t' \<le> 10 ^ 14"
  shows "of_nat (allowed_count ds) \<le>
    of_int capacity + of_int (refill_time t nows) * rate
      + of_nat (length (t # nows)) * (3 * of_int capacity / 2 ^ 53)"
proof -
  have ok: "capacity_ok capacity" using assms by (simp add: capacity_ok_def)
  let ?s = "full_bucket capacity t"
  have run: "run_bucket (Some ?s) (t # nows) capacity rate = Inr (ds, s')"
    using assms(1) by (simp add: check_None)
  have "of_nat (allowed_count ds) \<le>
      tokens ?s + of_int (refill_time (last_refill ?s) (t # nows)) * rate
        + of_nat (length (t # nows)) * (3 / 2 ^ 53 * of_int capacity)"
    using ref.grants_bounded [where s = ?s and cmax = capacity
        and cs = "map (\<lambda>t. (capacity, rate, t)) (t # nows)"]
      bucket_ok_full [OF ok, of t] assms(4,5) ok
    unfolding run_bucket_calls [OF run] run_bucket_income [OF run]
    by (auto simp: ref_good_def bucket_ok_def sane_clock_def full_bucket_def)
  then show ?thesis using ok by (simp add: full_bucket_def capacity_exact)
qed

lemma bucket_long_run_rate_witness:
  "run_bucket None [0, 0, 1] 1 1 = Inr ([True, False, True], Some \<lparr>tokens = 0, last_refill = 1\<rparr>)
   \<and> (2 :: rat) \<le> 1 + 1 + 3 * (3 / 2 ^ 53)"
proof -
  have run: "run_bucket None [0, 0, 1] 1 1 =
      Inr ([True, False, True], Some \<lparr>tokens = 0, last_refill = 1\<rparr>)"
    by (simp add: check_token_bucket_def refill_phase_def Let_def)
  show ?thesis using run bucket_long_run_rate [OF run] by simp
qed

section \<open>Retry-After\<close>

text \<open>The integer the denial reports exceeds the exact quotient, whatever the rounding of
  the division was.\<close>

lemma wait_exceeds:
  assumes "0 \<le> x" "py_int (fl64 x) + 1 \<le> 2 ^ 53"
  shows "x < of_int (py_int (fl64 x) + 1)"
proof -
  have "0 \<le> py_int (fl64 x)" using assms(1) by (intro py_int_ge_0 fl.rd_nonneg)
  then show ?thesis
    using assms(2) py_int_less [of "fl64 x"] by - (rule fl.rd_less_intD, simp_all)
qed

text \<open>The \<open>retry_after\<close> of the reference algorithm is sufficient and positive: a client
  that is denied at \<open>now\<close> and comes back exactly \<open>retry_after\<close> seconds later, with no
  other request in between, is allowed, for every state, capacity and positive rate and with
  all float roundings.\<close>

lemma retry_after_sufficient:
  assumes r: "check_token_bucket (Some s) now capacity rate = Inr r" and deny: "\<not> allowed r"
    and ok: "1 \<le> capacity" "capacity \<le> 2 ^ 53" "0 \<le> tokens s" "0 < rate"
    and small: "retry_after r \<le> 2 ^ 53"
  shows "1 \<le> retry_after r \<and>
    (\<exists>r'. check_token_bucket (Some (new_state r)) (now + retry_after r) capacity rate = Inr r'
          \<and> allowed r')"
proof -
  have cap: "capacity_ok capacity" using ok by (simp add: capacity_ok_def)
  let ?c = "refill_phase s now capacity rate"
  let ?d = "fl64 (1 - ?c)"
  have c: "?c < 1" and st: "new_state r = \<lparr>tokens = ?c, last_refill = now\<rparr>"
    and ra: "retry_after r = py_int (fl64 (?d / rate)) + 1"
    using r deny by (auto elim: check_cases)
  have c0: "0 \<le> ?c" using refill_phase_bounds(1) [OF cap ok(3)] ok(4) by simp
  have d0: "0 \<le> ?d / rate" using c ok(4) by (simp add: fl.rd_nonneg)
  then have pos: "1 \<le> retry_after r"
    by (simp add: ra py_int_nonneg fl.rd_nonneg)
  have "?d / rate < of_int (retry_after r)"
    using wait_exceeds [OF d0] small by (simp add: ra)
  then have "?d \<le> of_int (retry_after r) * rate" using ok(4) by (simp add: divide_less_eq)
  then have "?d \<le> fl64 (of_int (retry_after r) * rate)"
    using fl.rd_idem by (rule fl.fixed_le_rd)
  then have "1 \<le> fl64 (?c + fl64 (of_int (retry_after r) * rate))"
    using c c0 by (intro fl64_deficit) auto
  then have "1 \<le> refill_phase (new_state r) (now + retry_after r) capacity rate"
    using pos small ok(1) by (simp add: st refill_phase_def Let_def fl64_int capacity_exact [OF cap])
  then show ?thesis using pos check_allow by fastforce
qed

lemma retry_after_sufficient_witness:
  "check_token_bucket (Some \<lparr>tokens = 0, last_refill = 1000\<rparr>) 1000 60 1 =
     Inr \<lparr>allowed = False, new_state = \<lparr>tokens = 0, last_refill = 1000\<rparr>, remaining = 0, retry_after = 2\<rparr>
   \<and> (\<exists>r'. check_token_bucket (Some \<lparr>tokens = 0, last_refill = 1000\<rparr>) 1002 60 1 = Inr r' \<and> allowed r')"
proof -
  have run: "check_token_bucket (Some \<lparr>tokens = 0, last_refill = 1000\<rparr>) 1000 60 1 =
     Inr \<lparr>allowed = False, new_state = \<lparr>tokens = 0, last_refill = 1000\<rparr>, remaining = 0, retry_after = 2\<rparr>"
    by (simp add: check_token_bucket_def refill_phase_def Let_def)
  show ?thesis using run retry_after_sufficient [OF run] by simp
qed

section \<open>The clock moving backwards\<close>

text \<open>A call never loses tokens to a clock that went backwards; what it does is move
  \<open>last_refill\<close> back with the clock.\<close>

lemma backward_keeps_tokens:
  assumes "bucket_ok capacity s" "capacity_ok capacity" "now \<le> last_refill s"
  shows "refill_phase s now capacity rate = tokens s"
  using assms refill_phase_same_instant [of s now capacity rate] by (simp add: bucket_ok_def)

text \<open>Clock skew refills the same interval twice: after a call whose clock was \<open>d\<close> seconds
  behind, the next call at the original time is credited \<open>d * rate\<close> tokens although no time has
  passed since the bucket was found empty, so an empty bucket serves a request.\<close>

lemma backward_clock_refills_twice:
  assumes "1 \<le> capacity" "capacity \<le> 2 ^ 53" "0 < rate"
    and "1 \<le> d" "d \<le> 2 ^ 53" "1 \<le> of_int d * rate"
  shows "\<exists>s. run_bucket (Some \<lparr>tokens = 0, last_refill = t\<rparr>) [t, t] capacity rate
              = Inr ([False, False], Some \<lparr>tokens = 0, last_refill = t\<rparr>)
           \<and> run_bucket (Some \<lparr>tokens = 0, last_refill = t\<rparr>) [t - d, t] capacity rate
              = Inr ([False, True], Some s)"
proof -
  have cap: "capacity_ok capacity" using assms by (simp add: capacity_ok_def)
  let ?e = "\<lparr>tokens = 0, last_refill = t\<rparr> :: TokenBucketState"
  have z: "refill_phase ?e t' capacity rate = 0" if "t' \<le> t" for t'
    using refill_phase_same_instant [of ?e t' capacity rate] that cap
    by (simp add: capacity_ok_def)
  have "1 \<le> fl64 (fl64 (of_int d * rate))"
    using assms by (simp add: fl.rd_idem fl.rd_ge_1)
  then have one: "1 \<le> refill_phase \<lparr>tokens = 0, last_refill = t - d\<rparr> t capacity rate"
    using assms by (simp add: refill_phase_def Let_def capacity_exact [OF cap] fl64_int)
  show ?thesis
    using assms z [of t] z [of "t - d"] check_allow [OF one] check_deny [of ?e _ capacity rate]
    by simp
qed

lemma backward_clock_refills_twice_witness:
  "\<exists>s. run_bucket (Some \<lparr>tokens = 0, last_refill = 1000\<rparr>) [1000, 1000] 60 1
          = Inr ([False, False], Some \<lparr>tokens = 0, last_refill = 1000\<rparr>)
       \<and> run_bucket (Some \<lparr>tokens = 0, last_refill = 1000\<rparr>) [999, 1000] 60 1
          = Inr ([False, True], Some s)"
  using backward_clock_refills_twice [of 60 1 1 1000] by simp

section \<open>Safety of one call\<close>

text \<open>The bucket invariant: every call keeps \<open>0 \<le> tokens \<le> capacity\<close> and a float token
  count, sets \<open>last_refill\<close> to its own clock, and reports \<open>remaining\<close> in
  \<open>[0, capacity)\<close>; \<open>retry_after\<close> is 0 exactly when the request is allowed. It holds for
  whatever nonnegative state was stored, also one above the capacity (a lowered limit).\<close>

lemma check_token_bucket_safe:
  assumes "0 \<le> tokens s" "1 \<le> capacity" "capacity \<le> 2 ^ 53" "0 < rate"
  shows "\<exists>r. check_token_bucket (Some s) now capacity rate = Inr r
    \<and> bucket_ok capacity (new_state r) \<and> last_refill (new_state r) = now
    \<and> 0 \<le> remaining r \<and> remaining r < capacity
    \<and> (allowed r \<longleftrightarrow> retry_after r = 0)"
proof -
  have cap: "capacity_ok capacity" using assms by (simp add: capacity_ok_def)
  obtain r where r: "check_token_bucket (Some s) now capacity rate = Inr r"
    using check_returns assms(4) by fastforce
  have "allowed r \<longleftrightarrow> retry_after r = 0" using r
  proof (cases rule: check_cases)
    case deny
    then have "0 \<le> fl64 (fl64 (1 - refill_phase s now capacity rate) / rate)"
      using assms(4) by (intro fl.rd_nonneg divide_nonneg_nonneg) auto
    then show ?thesis using deny py_int_ge_0 by fastforce
  qed simp
  then show ?thesis
    using r check_bucket_ok [OF r cap assms(1)] check_remaining [OF r cap assms(1)] assms(4) by auto
qed

lemma check_token_bucket_safe_witness:
  "\<exists>r. check_token_bucket (Some \<lparr>tokens = 1000, last_refill = 5\<rparr>) 9 60 1 = Inr r
    \<and> bucket_ok 60 (new_state r) \<and> last_refill (new_state r) = 9
    \<and> 0 \<le> remaining r \<and> remaining r < 60 \<and> (allowed r \<longleftrightarrow> retry_after r = 0)"
  using check_token_bucket_safe [of "\<lparr>tokens = 1000, last_refill = 5\<rparr>" 60 1 9] by simp

end
