(* ===== verification/Redis_Api.thy ===== *)
theory Redis_Api
  imports Floats "HOL-Library.Finite_Map"
begin

text \<open>
  The Redis server is not part of the repository. The model takes its commands as an
  argument, a record of functions on an abstract server state, and the properties that need
  it name what the documentation of the commands says (\<open>hash_laws\<close>, \<open>zset_laws\<close>).

  A hash field or a score is a decimal numeral; the model keeps the number it denotes.
\<close>

record 'r redis_api =
  hget :: "'r \<Rightarrow> string \<Rightarrow> string \<Rightarrow> rat option"
  hset :: "string \<Rightarrow> string \<Rightarrow> rat \<Rightarrow> 'r \<Rightarrow> 'r"
  expire :: "string \<Rightarrow> int \<Rightarrow> 'r \<Rightarrow> 'r"
  zadd :: "string \<Rightarrow> rat \<Rightarrow> rat \<Rightarrow> 'r \<Rightarrow> 'r"
  zscore :: "'r \<Rightarrow> string \<Rightarrow> rat \<Rightarrow> rat option"
  zremrangebyscore :: "string \<Rightarrow> rat \<Rightarrow> 'r \<Rightarrow> 'r"
  zcount :: "'r \<Rightarrow> string \<Rightarrow> rat \<Rightarrow> nat"

text \<open>HSET sets one field of one key and nothing else; EXPIRE with a positive TTL changes no
  field now.\<close>

definition hash_laws :: "'r redis_api \<Rightarrow> bool" where
  "hash_laws R \<longleftrightarrow>
     (\<forall>r k f v k' f'. hget R (hset R k f v r) k' f' =
        (if k' = k \<and> f' = f then Some v else hget R r k' f'))
   \<and> (\<forall>r k t k' f'. 0 < t \<longrightarrow> hget R (expire R k t r) k' f' = hget R r k' f')"

lemma hash_lawsD:
  assumes "hash_laws R"
  shows "hget R (hset R k f v r) k' f' = (if k' = k \<and> f' = f then Some v else hget R r k' f')"
    and "0 < t \<Longrightarrow> hget R (expire R k t r) k' f' = hget R r k' f'"
  using assms by (simp_all add: hash_laws_def)

text \<open>
  Sorted sets: ZADD gives a member a score, ZREMRANGEBYSCORE \<open>key -inf hi\<close> removes the
  members whose score is at most \<open>hi\<close>, ZCOUNT \<open>key lo +inf\<close> counts those whose score is at
  least \<open>lo\<close>; EXPIRE with a positive TTL removes nothing now. A sorted set is finite.
\<close>

definition zset_laws :: "'r redis_api \<Rightarrow> bool" where
  "zset_laws R \<longleftrightarrow>
     (\<forall>r k m s k' m'. zscore R (zadd R k m s r) k' m' =
        (if k' = k \<and> m' = m then Some s else zscore R r k' m'))
   \<and> (\<forall>r k hi k' m'. zscore R (zremrangebyscore R k hi r) k' m' =
        (case zscore R r k' m' of
           None \<Rightarrow> None
         | Some s \<Rightarrow> if k' = k \<and> s \<le> hi then None else Some s))
   \<and> (\<forall>r k t k' m'. 0 < t \<longrightarrow> zscore R (expire R k t r) k' m' = zscore R r k' m')
   \<and> (\<forall>r k. finite (dom (zscore R r k)))
   \<and> (\<forall>r k lo. zcount R r k lo = card {m. \<exists>s. zscore R r k m = Some s \<and> lo \<le> s})"

lemma zset_lawsD:
  assumes "zset_laws R"
  shows "zscore R (zadd R k m s r) k' m' = (if k' = k \<and> m' = m then Some s else zscore R r k' m')"
    and "zscore R (zremrangebyscore R k hi r) k' m' =
        (case zscore R r k' m' of
           None \<Rightarrow> None
         | Some s \<Rightarrow> if k' = k \<and> s \<le> hi then None else Some s)"
    and "0 < t \<Longrightarrow> zscore R (expire R k t r) k' m' = zscore R r k' m'"
    and "finite (dom (zscore R r k))"
    and "zcount R r k lo = card {m. \<exists>s. zscore R r k m = Some s \<and> lo \<le> s}"
  using assms by (simp_all add: zset_laws_def)

text \<open>A command on a sorted set leaves the fields of hashes alone.\<close>

definition separate_laws :: "'r redis_api \<Rightarrow> bool" where
  "separate_laws R \<longleftrightarrow>
     (\<forall>r k m s k' f. hget R (zadd R k m s r) k' f = hget R r k' f)
   \<and> (\<forall>r k hi k' f. hget R (zremrangebyscore R k hi r) k' f = hget R r k' f)"

section \<open>An instance, for concrete runs\<close>

text \<open>A server that stores what it is told in finite maps and lets nothing expire. It is used
  only to show that the laws can hold and to run examples.\<close>

record demo_redis =
  demo_hash :: "(string \<times> string, rat) fmap"
  demo_zset :: "(string \<times> rat, rat) fmap"

definition demo_empty :: demo_redis where
  "demo_empty = \<lparr>demo_hash = fmempty, demo_zset = fmempty\<rparr>"

definition demo_api :: "demo_redis redis_api" where
  "demo_api = \<lparr>
     hget = (\<lambda>r k f. fmlookup (demo_hash r) (k, f)),
     hset = (\<lambda>k f v r. r\<lparr>demo_hash := fmupd (k, f) v (demo_hash r)\<rparr>),
     expire = (\<lambda>k t r. r),
     zadd = (\<lambda>k m s r. r\<lparr>demo_zset := fmupd (k, m) s (demo_zset r)\<rparr>),
     zscore = (\<lambda>r k m. fmlookup (demo_zset r) (k, m)),
     zremrangebyscore = (\<lambda>k hi r. r\<lparr>demo_zset :=
        fmfilter (\<lambda>(k', m). \<not> (k' = k \<and> the (fmlookup (demo_zset r) (k', m)) \<le> hi)) (demo_zset r)\<rparr>),
     zcount = (\<lambda>r k lo. fcard (ffilter
        (\<lambda>(k', m). k' = k \<and> lo \<le> the (fmlookup (demo_zset r) (k', m))) (fmdom (demo_zset r))))\<rparr>"

lemma demo_hash_laws: "hash_laws demo_api"
  by (simp add: hash_laws_def demo_api_def)

lemma demo_separate_laws: "separate_laws demo_api"
  by (simp add: separate_laws_def demo_api_def)

lemma demo_missing [simp]: "hget demo_api demo_empty k f = None" "zscore demo_api demo_empty k m = None"
  by (simp_all add: demo_api_def demo_empty_def)

lemma demo_zset_laws: "zset_laws demo_api"
proof -
  have dom: "finite (dom (\<lambda>m. fmlookup z (k, m)))"
    for z :: "(string \<times> rat, rat) fmap" and k
  proof (rule finite_subset)
    show "dom (\<lambda>m. fmlookup z (k, m)) \<subseteq> snd ` fmdom' z"
    proof
      fix m assume "m \<in> dom (\<lambda>m. fmlookup z (k, m))"
      then have "(k, m) \<in> fmdom' z" by (auto simp: fmlookup_dom'_iff)
      then show "m \<in> snd ` fmdom' z" by (metis image_eqI snd_conv)
    qed
  qed simp
  have count: "fcard (ffilter (\<lambda>(k', m). k' = k \<and> lo \<le> the (fmlookup z (k', m))) (fmdom z)) =
      card {m. \<exists>s. fmlookup z (k, m) = Some s \<and> lo \<le> s}"
    for z :: "(string \<times> rat, rat) fmap" and k lo
  proof -
    have "fset (ffilter (\<lambda>(k', m). k' = k \<and> lo \<le> the (fmlookup z (k', m))) (fmdom z)) =
        Pair k ` {m. \<exists>s. fmlookup z (k, m) = Some s \<and> lo \<le> s}"
      by (force simp: fmlookup_dom_iff)
    then show ?thesis by (simp add: fcard.rep_eq card_image inj_on_def)
  qed
  show ?thesis
    by (auto simp: zset_laws_def demo_api_def dom count split: option.splits)
qed

end
