(* ===== verification/Redis_Limiter.thy ===== *)
theory Redis_Limiter
  imports Token_Bucket Redis_Api
begin

text \<open>
  The Redis-backed limiter: \<open>LimitResult\<close> of \<open>app/infra/rate_limiter/base.py\<close>, the Lua
  script and \<open>RedisRateLimiter.check\<close> of \<open>redis_limiter.py\<close>. The script is modelled
  command by command over the Redis parameter; its arithmetic is binary64, and a number
  it stores goes through \<open>tostring\<close> (\<open>g14\<close>) and comes back through \<open>tonumber\<close>
  (\<open>fl64\<close>).
\<close>

section \<open>The interface types\<close>

record LimitResult =
  lr_allowed :: bool
  lr_limit :: int
  lr_remaining :: int
  lr_retry_after :: int
  lr_degraded :: bool

text \<open>What a call to the server can end in: the reply arrives, the command never ran, or it
  ran and the reply was lost. The last two raise \<open>RedisError\<close> in the client.\<close>

datatype delivery = Delivered | Not_Executed | Reply_Lost

datatype redis_error = ConnectionError | ResponseError

section \<open>The arithmetic of the script\<close>

record lua_outcome =
  lua_allowed :: int
  lua_remaining :: int
  lua_retry_after :: int
  lua_tokens :: rat

definition lua_bucket :: "rat \<Rightarrow> rat \<Rightarrow> rat \<Rightarrow> rat \<Rightarrow> rat \<Rightarrow> lua_outcome" where
  "lua_bucket capacity refill_rate now toks refilled_at =
     (let elapsed = max 0 (fl64 (now - refilled_at));
          refilled = fl64 (toks + fl64 (elapsed * refill_rate));
          current = min refilled capacity
      in if 1 \<le> current then
           \<lparr>lua_allowed = 1, lua_remaining = \<lfloor>fl64 (current - 1)\<rfloor>, lua_retry_after = 0,
            lua_tokens = fl64 (current - 1)\<rparr>
         else
           let deficit = fl64 (1 - current)
           in \<lparr>lua_allowed = 0, lua_remaining = 0,
               lua_retry_after = \<lceil>fl64 (deficit / refill_rate)\<rceil>,
               lua_tokens = current\<rparr>)"

definition lua_ttl :: "rat \<Rightarrow> rat \<Rightarrow> int" where
  "lua_ttl capacity refill_rate = \<lceil>fl64 (capacity / refill_rate)\<rceil> + 60"

section \<open>The script\<close>

text \<open>
  \<open>Inl\<close> is an error reply. \<open>tonumber\<close> of a missing \<open>last_refill\<close> gives \<open>nil\<close> and the
  subtraction fails before anything is written; a refill rate of 0 makes the TTL infinite
  or not a number, and EXPIRE fails after the two HSETs.
\<close>

definition token_bucket_lua ::
  "'r redis_api \<Rightarrow> string \<Rightarrow> rat \<Rightarrow> rat \<Rightarrow> rat \<Rightarrow> 'r \<Rightarrow> (redis_error + int \<times> int \<times> int) \<times> 'r" where
  "token_bucket_lua R key capacity refill_rate now r =
     (let tokens_str = hget R r key ''tokens'';
          last_refill_str = hget R r key ''last_refill'';
          state = (case tokens_str of
                     None \<Rightarrow> Some (capacity, now)
                   | Some t \<Rightarrow> (case last_refill_str of
                                  None \<Rightarrow> None
                                | Some l \<Rightarrow> Some (fl64 t, fl64 l)))
      in case state of
           None \<Rightarrow> (Inl ResponseError, r)
         | Some (toks, refilled_at) \<Rightarrow>
             let out = lua_bucket capacity refill_rate now toks refilled_at;
                 r = hset R key ''tokens'' (g14 (lua_tokens out)) r;
                 r = hset R key ''last_refill'' (g14 now) r
             in if refill_rate = 0 then (Inl ResponseError, r)
                else (Inr (lua_allowed out, lua_remaining out, lua_retry_after out),
                      expire R key (lua_ttl capacity refill_rate) r))"

section \<open>\<open>RedisRateLimiter.check\<close>\<close>

definition fail_open :: "int \<Rightarrow> LimitResult" where
  "fail_open limit =
     \<lparr>lr_allowed = True, lr_limit = limit, lr_remaining = -1, lr_retry_after = 0, lr_degraded = True\<rparr>"

definition run_script ::
  "'r redis_api \<Rightarrow> delivery \<Rightarrow> string \<Rightarrow> rat \<Rightarrow> rat \<Rightarrow> rat \<Rightarrow> 'r \<Rightarrow> (redis_error + int \<times> int \<times> int) \<times> 'r" where
  "run_script R dlv key capacity refill_rate now r =
     (case dlv of
        Delivered \<Rightarrow> token_bucket_lua R key capacity refill_rate now r
      | Not_Executed \<Rightarrow> (Inl ConnectionError, r)
      | Reply_Lost \<Rightarrow> (Inl ConnectionError, snd (token_bucket_lua R key capacity refill_rate now r)))"

definition redis_check ::
  "'r redis_api \<Rightarrow> delivery \<Rightarrow> int \<Rightarrow> string \<Rightarrow> int \<Rightarrow> int \<Rightarrow> 'r \<Rightarrow> (py_exc + LimitResult) \<times> 'r" where
  "redis_check R dlv epoch_now key limit window_seconds r =
     (if window_seconds = 0 then (Inl ZeroDivisionError, r)
      else
        let refill_rate = fl64 (of_int limit / of_int window_seconds)
        in case run_script R dlv key (fl64 (of_int limit)) refill_rate (of_int epoch_now) r of
             (Inl e, r) \<Rightarrow> (Inr (fail_open limit), r)
           | (Inr (ok, left, wait), r) \<Rightarrow>
               (Inr \<lparr>lr_allowed = (ok \<noteq> 0), lr_limit = limit, lr_remaining = left,
                     lr_retry_after = wait, lr_degraded = False\<rparr>, r))"

section \<open>The script against the reference algorithm\<close>

lemma lua_bucket_phase:
  assumes "capacity_ok capacity" "sane_clock now" "sane_clock (last_refill s)"
  shows "lua_bucket (of_int capacity) rate (of_int now) (tokens s) (of_int (last_refill s)) =
    (if 1 \<le> refill_phase s now capacity rate then
       \<lparr>lua_allowed = 1, lua_remaining = \<lfloor>fl64 (refill_phase s now capacity rate - 1)\<rfloor>,
        lua_retry_after = 0, lua_tokens = fl64 (refill_phase s now capacity rate - 1)\<rparr>
     else
       \<lparr>lua_allowed = 0, lua_remaining = 0,
        lua_retry_after = \<lceil>fl64 (fl64 (1 - refill_phase s now capacity rate) / rate)\<rceil>,
        lua_tokens = refill_phase s now capacity rate\<rparr>)"
proof -
  have "max 0 (fl64 (of_int now - of_int (last_refill s))) = of_int (max 0 (now - last_refill s))"
    using assms(2,3) by (subst fl64_int_diff) (auto simp: sane_clock_def)
  then show ?thesis
    using assms(2,3)
    by (simp add: lua_bucket_def Let_def refill_phase_def sane_elapsed capacity_exact [OF assms(1)])
qed

lemma lua_bucket_reference:
  assumes "check_token_bucket (Some s) now capacity rate = Inr r"
    and "capacity_ok capacity" "0 \<le> tokens s" "0 < rate"
    and "sane_clock now" "sane_clock (last_refill s)"
  shows "lua_allowed (lua_bucket (of_int capacity) rate (of_int now) (tokens s) (of_int (last_refill s)))
           = (if allowed r then 1 else 0)"
    and "lua_remaining (lua_bucket (of_int capacity) rate (of_int now) (tokens s) (of_int (last_refill s)))
           = remaining r"
    and "lua_tokens (lua_bucket (of_int capacity) rate (of_int now) (tokens s) (of_int (last_refill s)))
           = tokens (new_state r)"
    and "lua_retry_after (lua_bucket (of_int capacity) rate (of_int now) (tokens s) (of_int (last_refill s)))
           \<in> {retry_after r - 1, retry_after r}"
proof -
  let ?o = "lua_bucket (of_int capacity) rate (of_int now) (tokens s) (of_int (last_refill s))"
  let ?c = "refill_phase s now capacity rate"
  note o = lua_bucket_phase [OF assms(2,5,6), of rate]
  have "lua_allowed ?o = (if allowed r then 1 else 0) \<and> lua_remaining ?o = remaining r
      \<and> lua_tokens ?o = tokens (new_state r) \<and> lua_retry_after ?o \<in> {retry_after r - 1, retry_after r}"
    using assms(1)
  proof (cases rule: check_cases)
    case allow
    then show ?thesis by (simp add: o py_int_nonneg fl.rd_nonneg)
  next
    case deny
    let ?q = "fl64 (fl64 (1 - ?c) / rate)"
    have "0 \<le> ?q" using deny(1) assms(4) by (simp add: fl.rd_nonneg)
    then have "\<lceil>?q\<rceil> \<in> {py_int ?q, py_int ?q + 1}"
      by (simp add: py_int_nonneg) linarith
    then show ?thesis using deny by (auto simp: o)
  qed
  then show "lua_allowed ?o = (if allowed r then 1 else 0)" "lua_remaining ?o = remaining r"
    "lua_tokens ?o = tokens (new_state r)" "lua_retry_after ?o \<in> {retry_after r - 1, retry_after r}"
    by auto
qed

section \<open>The stored bucket\<close>

text \<open>What the hash under a key stands for, and when it is one the script wrote.\<close>

definition stored_bucket :: "'r redis_api \<Rightarrow> string \<Rightarrow> 'r \<Rightarrow> TokenBucketState option" where
  "stored_bucket R key r =
     (case hget R r key ''tokens'' of
        None \<Rightarrow> None
      | Some t \<Rightarrow> (case hget R r key ''last_refill'' of
                     None \<Rightarrow> None
                   | Some l \<Rightarrow> Some \<lparr>tokens = fl64 t, last_refill = \<lfloor>l\<rfloor>\<rparr>))"

definition key_wf :: "'r redis_api \<Rightarrow> string \<Rightarrow> 'r \<Rightarrow> bool" where
  "key_wf R key r \<longleftrightarrow>
     (case hget R r key ''tokens'' of
        None \<Rightarrow> True
      | Some t \<Rightarrow> 0 \<le> t \<and> (case hget R r key ''last_refill'' of
                                None \<Rightarrow> False
                              | Some l \<Rightarrow> l = of_int \<lfloor>l\<rfloor> \<and> sane_clock \<lfloor>l\<rfloor>))"

lemma key_wf_cases:
  assumes "key_wf R key r"
  obtains (missing) "hget R r key ''tokens'' = None" "stored_bucket R key r = None"
    | (stored) t n where "hget R r key ''tokens'' = Some t" "0 \<le> t"
        "hget R r key ''last_refill'' = Some (of_int n)" "sane_clock n"
        "stored_bucket R key r = Some \<lparr>tokens = fl64 t, last_refill = n\<rparr>"
proof (cases "hget R r key ''tokens''")
  case None
  then show thesis by (intro missing) (simp_all add: stored_bucket_def)
next
  case (Some t)
  with assms obtain l where l: "hget R r key ''last_refill'' = Some l" "0 \<le> t"
    "l = of_int \<lfloor>l\<rfloor>" "sane_clock \<lfloor>l\<rfloor>"
    by (auto simp: key_wf_def split: option.splits)
  show thesis
  proof (rule stored [of t "\<lfloor>l\<rfloor>"])
    show "hget R r key ''last_refill'' = Some (of_int \<lfloor>l\<rfloor>)" using l(1,3) by simp
  qed (use Some l in \<open>simp_all add: stored_bucket_def\<close>)
qed

definition limit_ok :: "int \<Rightarrow> bool" where
  "limit_ok limit \<longleftrightarrow> 1 \<le> limit \<and> limit \<le> 10 ^ 14"

lemma limit_capacity: "limit_ok limit \<Longrightarrow> capacity_ok limit"
  by (simp add: limit_ok_def capacity_ok_def)

text \<open>The state after the script, on the key's fields and on the others.\<close>

lemma script_writes:
  assumes "hash_laws R" "rate \<noteq> 0" "0 < lua_ttl cap rate"
    and "(case hget R r key ''tokens'' of
            None \<Rightarrow> Some (cap, now)
          | Some t \<Rightarrow> (case hget R r key ''last_refill'' of
                         None \<Rightarrow> None | Some l \<Rightarrow> Some (fl64 t, fl64 l))) = Some (t, l)"
  shows "fst (token_bucket_lua R key cap rate now r) =
      Inr (lua_allowed (lua_bucket cap rate now t l), lua_remaining (lua_bucket cap rate now t l),
           lua_retry_after (lua_bucket cap rate now t l))"
    and "hget R (snd (token_bucket_lua R key cap rate now r)) key ''tokens'' =
      Some (g14 (lua_tokens (lua_bucket cap rate now t l)))"
    and "hget R (snd (token_bucket_lua R key cap rate now r)) key ''last_refill'' = Some (g14 now)"
  using assms by (simp_all add: token_bucket_lua_def Let_def hash_lawsD)

lemma script_other_keys:
  assumes "hash_laws R" "0 < lua_ttl cap rate" "key' \<noteq> key"
  shows "hget R (snd (token_bucket_lua R key cap rate now r)) key' f = hget R r key' f"
  using assms
  by (simp add: token_bucket_lua_def Let_def hash_lawsD split: option.splits)

lemma ttl_pos:
  assumes "0 < rate" "0 \<le> cap"
  shows "0 < lua_ttl cap rate"
proof -
  have "0 \<le> fl64 (cap / rate)" using assms by (simp add: fl.rd_nonneg)
  then show ?thesis unfolding lua_ttl_def by linarith
qed

text \<open>One run of the script on a well-formed key is one call of the reference algorithm on the
  stored bucket; what it stores is the new bucket with its tokens printed and read back.\<close>

lemma script_start:
  assumes "key_wf R key r" "capacity_ok capacity" "sane_clock now"
  obtains s where "0 \<le> tokens s" "sane_clock (last_refill s)"
    "check_token_bucket (stored_bucket R key r) now capacity rate =
     check_token_bucket (Some s) now capacity rate"
    "(case hget R r key ''tokens'' of
            None \<Rightarrow> Some (of_int capacity, of_int now)
          | Some t \<Rightarrow> (case hget R r key ''last_refill'' of
                         None \<Rightarrow> None | Some l \<Rightarrow> Some (fl64 t, fl64 l)))
        = Some (tokens s, of_int (last_refill s))"
  using assms(1)
proof (cases rule: key_wf_cases)
  case missing
  then show thesis
    using assms(2,3)
    by (intro that [of "full_bucket capacity now"])
       (simp_all add: full_bucket_def capacity_exact check_None, simp add: capacity_ok_def)
next
  case (stored t n)
  then show thesis
    by (intro that [of "\<lparr>tokens = fl64 t, last_refill = n\<rparr>"])
       (simp_all add: fl.rd_nonneg fl64_int sane_clock_def)
qed

lemma script_refines:
  assumes laws: "hash_laws R" and wf: "key_wf R key r"
    and ok: "limit_ok capacity" "0 < rate" and clk: "sane_clock now"
  obtains res w where
    "check_token_bucket (stored_bucket R key r) now capacity rate = Inr res"
    "fst (token_bucket_lua R key (of_int capacity) rate (of_int now) r) =
       Inr (if allowed res then 1 else 0, remaining res, w)"
    "w \<in> {retry_after res - 1, retry_after res}" "allowed res \<longrightarrow> w = 0"
    "hget R (snd (token_bucket_lua R key (of_int capacity) rate (of_int now) r)) key ''tokens'' =
       Some (g14 (tokens (new_state res)))"
    "hget R (snd (token_bucket_lua R key (of_int capacity) rate (of_int now) r)) key ''last_refill'' =
       Some (of_int now)"
proof -
  have cap: "capacity_ok capacity" using ok(1) by (rule limit_capacity)
  obtain s where s: "0 \<le> tokens s" "sane_clock (last_refill s)"
    "check_token_bucket (stored_bucket R key r) now capacity rate =
     check_token_bucket (Some s) now capacity rate"
    and st: "(case hget R r key ''tokens'' of
            None \<Rightarrow> Some (of_int capacity, of_int now)
          | Some t \<Rightarrow> (case hget R r key ''last_refill'' of
                         None \<Rightarrow> None | Some l \<Rightarrow> Some (fl64 t, fl64 l)))
        = Some (tokens s, of_int (last_refill s))"
    by (rule script_start [OF wf cap clk])
  obtain res where res: "check_token_bucket (Some s) now capacity rate = Inr res"
    using check_returns ok(2) by fastforce
  let ?o = "lua_bucket (of_int capacity) rate (of_int now) (tokens s) (of_int (last_refill s))"
  have "0 < lua_ttl (of_int capacity) rate"
    using ok by (intro ttl_pos) (auto simp: limit_ok_def)
  note wr = script_writes [OF laws _ this st]
  note ref = lua_bucket_reference [OF res cap s(1) ok(2) clk s(2)]
  have now: "g14 (of_int now) = of_int now" using clk by (simp add: g14_int sane_clock_def)
  have "allowed res \<longrightarrow> lua_retry_after ?o = 0"
    using ref(1) by (auto simp: lua_bucket_def Let_def split: if_splits)
  then show thesis
    using wr ref s(3) res ok(2) now by (intro that [of res "lua_retry_after ?o"]) auto
qed

section \<open>One check\<close>

definition window_ok :: "int \<Rightarrow> bool" where
  "window_ok window \<longleftrightarrow> 1 \<le> window \<and> window \<le> 2 ^ 50"

definition refill_rate :: "int \<Rightarrow> int \<Rightarrow> rat" where
  "refill_rate limit window = fl64 (of_int limit / of_int window)"

lemma refill_rate_pos:
  assumes "limit_ok limit" "window_ok window"
  shows "0 < refill_rate limit window"
proof -
  have "(1 :: rat) \<le> of_int limit" "(1 :: rat) \<le> of_int window"
    using assms by (simp_all add: limit_ok_def window_ok_def)
  moreover have "(of_int window :: rat) \<le> of_int (2 ^ 50)"
    using assms(2) unfolding window_ok_def of_int_le_iff by simp
  ultimately have "1 / 2 ^ 50 \<le> (of_int limit / of_int window :: rat)"
    by (intro frac_le) simp_all
  then have "fl64 (1 / 2 ^ 50) \<le> refill_rate limit window"
    unfolding refill_rate_def by (rule fl.rd_mono)
  moreover have "fl64 (1 / 2 ^ 50) = of_int (2 ^ 52) / 2 ^ 102"
    by (rule fl64_evalI) simp_all
  ultimately show ?thesis by simp
qed

lemma redis_check_delivered:
  assumes "limit_ok limit" "window_ok window"
  shows "redis_check R Delivered now key limit window r =
    (case token_bucket_lua R key (of_int limit) (refill_rate limit window) (of_int now) r of
       (Inl e, r) \<Rightarrow> (Inr (fail_open limit), r)
     | (Inr (ok, left, wait), r) \<Rightarrow>
         (Inr \<lparr>lr_allowed = (ok \<noteq> 0), lr_limit = limit, lr_remaining = left,
               lr_retry_after = wait, lr_degraded = False\<rparr>, r))"
  using assms
  by (simp add: redis_check_def run_script_def refill_rate_def window_ok_def
      capacity_exact limit_capacity)

lemma redis_check_reply:
  assumes "limit_ok limit" "window_ok window"
  shows "fst (redis_check R Delivered now key limit window r) =
    (case fst (token_bucket_lua R key (of_int limit) (refill_rate limit window) (of_int now) r) of
       Inl e \<Rightarrow> Inr (fail_open limit)
     | Inr (ok, left, wait) \<Rightarrow>
         Inr \<lparr>lr_allowed = (ok \<noteq> 0), lr_limit = limit, lr_remaining = left,
              lr_retry_after = wait, lr_degraded = False\<rparr>)"
  by (auto simp: redis_check_delivered [OF assms] split: prod.splits sum.splits)

lemma redis_check_state:
  assumes "limit_ok limit" "window_ok window"
  shows "snd (redis_check R Delivered now key limit window r) =
    snd (token_bucket_lua R key (of_int limit) (refill_rate limit window) (of_int now) r)"
  by (auto simp: redis_check_delivered [OF assms] split: prod.splits sum.splits)

lemma check_refines:
  assumes "hash_laws R" "key_wf R key r" "limit_ok limit" "window_ok window" "sane_clock now"
  obtains res w r' where
    "check_token_bucket (stored_bucket R key r) now limit (refill_rate limit window) = Inr res"
    "redis_check R Delivered now key limit window r =
       (Inr \<lparr>lr_allowed = allowed res, lr_limit = limit, lr_remaining = remaining res,
             lr_retry_after = w, lr_degraded = False\<rparr>, r')"
    "w \<in> {retry_after res - 1, retry_after res}" "allowed res \<longrightarrow> w = 0"
    "hget R r' key ''tokens'' = Some (g14 (tokens (new_state res)))"
    "hget R r' key ''last_refill'' = Some (of_int now)"
proof -
  note pos = refill_rate_pos [OF assms(3,4)]
  show thesis
    by (rule script_refines [OF assms(1-3) pos assms(5)])
       (rule that, auto simp: redis_check_delivered [OF assms(3,4)] split: prod.splits)
qed

lemma new_tokens_bounds:
  assumes "check_token_bucket (Some s) now limit rate = Inr res"
    and "limit_ok limit" "0 \<le> tokens s" "0 < rate"
  shows "0 \<le> g14 (tokens (new_state res))" "g14 (tokens (new_state res)) \<le> of_int limit"
    and "fl64 (g14 (tokens (new_state res))) \<le> of_int limit"
    and "fl64 (g14 (tokens (new_state res))) \<le>
           tokens (new_state res) + (5 / 10 ^ 14 + 1 / 2 ^ 53) * of_int limit"
proof -
  let ?t = "tokens (new_state res)" and ?l = "of_int limit :: rat"
  have t: "0 \<le> ?t" "?t \<le> ?l"
    using check_bucket_ok [OF assms(1) limit_capacity [OF assms(2)] assms(3)] assms(4)
    by (auto simp: bucket_ok_def)
  have l: "1 \<le> ?l" using assms(2) by (simp add: limit_ok_def)
  show g: "0 \<le> g14 ?t" "g14 ?t \<le> ?l"
    using t assms(2) by (auto simp: dec.rd_nonneg limit_ok_def intro!: dec.rd_le_int)
  show "fl64 (g14 ?t) \<le> ?l"
    using g(2) capacity_exact [OF limit_capacity [OF assms(2)]] by (rule fl.rd_le_fixed)
  have "g14 ?t \<le> ?t + 5 / 10 ^ 14 * ?l" using t l by (intro dec.rd_upper)
  moreover have "fl64 (g14 ?t) \<le> g14 ?t + 1 / 2 ^ 53 * ?l" using g l by (intro fl.rd_upper)
  ultimately show "fl64 (g14 ?t) \<le> ?t + (5 / 10 ^ 14 + 1 / 2 ^ 53) * ?l"
    by (simp add: algebra_simps)
qed

lemma check_key_wf:
  assumes "hash_laws R" "key_wf R key r" "limit_ok limit" "window_ok window" "sane_clock now"
  shows "key_wf R key (snd (redis_check R Delivered now key limit window r))"
proof -
  obtain res w r' where res: "check_token_bucket (stored_bucket R key r) now limit
      (refill_rate limit window) = Inr res"
    and c: "redis_check R Delivered now key limit window r =
       (Inr \<lparr>lr_allowed = allowed res, lr_limit = limit, lr_remaining = remaining res,
             lr_retry_after = w, lr_degraded = False\<rparr>, r')"
    and h: "hget R r' key ''tokens'' = Some (g14 (tokens (new_state res)))"
    "hget R r' key ''last_refill'' = Some (of_int now)"
    using check_refines [OF assms] by metis
  obtain s where s: "0 \<le> tokens s" "check_token_bucket (Some s) now limit (refill_rate limit window) = Inr res"
    using script_start [OF assms(2) limit_capacity [OF assms(3)] assms(5)] res by metis
  show ?thesis
    using new_tokens_bounds(1) [OF s(2) assms(3) s(1) refill_rate_pos [OF assms(3,4)]] h assms(5)
    by (simp add: c key_wf_def)
qed

lemma check_other_key:
  assumes "hash_laws R" "limit_ok limit" "window_ok window" "key' \<noteq> key"
  shows "hget R (snd (redis_check R Delivered now key limit window r)) key' f = hget R r key' f"
proof -
  have "0 < lua_ttl (of_int limit) (refill_rate limit window)"
    using assms(2,3) by (intro ttl_pos refill_rate_pos) (auto simp: limit_ok_def)
  from script_other_keys [OF assms(1) this assms(4)] show ?thesis
    by (simp add: redis_check_state [OF assms(2,3)])
qed

section \<open>Any interleaving of gateway processes\<close>

text \<open>
  The script runs atomically, so whatever the gateway processes do concurrently, the server
  sees one sequence of script runs, each with the key, the limit, the window and the clock of
  the process that sent it. \<open>script_call R user\<close> is one of them, with the decision if it was
  for \<open>user\<close>'s key.
\<close>

fun script_call ::
  "'r redis_api \<Rightarrow> string \<Rightarrow> string \<times> int \<times> int \<times> int \<Rightarrow> 'r \<Rightarrow> bool \<times> 'r" where
  "script_call R user (key, limit, window, now) r =
     (case redis_check R Delivered now key limit window r of
        (Inl e, r') \<Rightarrow> (False, r')
      | (Inr lr, r') \<Rightarrow> (lr_allowed lr \<and> key = user, r'))"

text \<open>What a call may be credited: the refill for the elapsed time, and the rounding errors of
  the call (the prints of the token count, five parts in \<open>10 ^ 14\<close>, dominate).\<close>

definition clock_income :: "'r redis_api \<Rightarrow> string \<Rightarrow> int \<Rightarrow> int \<Rightarrow> int \<Rightarrow> 'r \<Rightarrow> rat" where
  "clock_income R user limit window now r =
     (case stored_bucket R user r of
        None \<Rightarrow> 0
      | Some s \<Rightarrow> of_int (max 0 (now - last_refill s)) * refill_rate limit window)"

fun script_income ::
  "'r redis_api \<Rightarrow> string \<Rightarrow> int \<Rightarrow> string \<times> int \<times> int \<times> int \<Rightarrow> 'r \<Rightarrow> rat" where
  "script_income R user lmax (key, limit, window, now) r =
     (if key = user then clock_income R user limit window now r + 6 / 10 ^ 14 * of_int lmax else 0)"

fun script_valid :: "int \<Rightarrow> string \<times> int \<times> int \<times> int \<Rightarrow> bool" where
  "script_valid lmax (key, limit, window, now) \<longleftrightarrow>
     limit_ok limit \<and> limit \<le> lmax \<and> window_ok window \<and> sane_clock now"

definition script_stock :: "'r redis_api \<Rightarrow> string \<Rightarrow> int \<Rightarrow> 'r \<Rightarrow> rat" where
  "script_stock R user lmax r =
     (case stored_bucket R user r of None \<Rightarrow> of_int lmax | Some s \<Rightarrow> tokens s)"

definition script_good :: "'r redis_api \<Rightarrow> string \<Rightarrow> int \<Rightarrow> 'r \<Rightarrow> bool" where
  "script_good R user lmax r \<longleftrightarrow> hash_laws R \<and> key_wf R user r \<and> 1 \<le> lmax"

lemma stored_bucket_cong:
  "(\<And>f. hget R r' key f = hget R r key f) \<Longrightarrow> stored_bucket R key r' = stored_bucket R key r"
  "(\<And>f. hget R r' key f = hget R r key f) \<Longrightarrow> key_wf R key r' = key_wf R key r"
  by (simp_all add: stored_bucket_def key_wf_def cong: option.case_cong)

lemma script_call_other:
  assumes "hash_laws R" "script_valid lmax (key, limit, window, now)" "key \<noteq> user"
  shows "\<not> fst (script_call R user (key, limit, window, now) r)"
    and "hget R (snd (script_call R user (key, limit, window, now) r)) user f = hget R r user f"
  using check_other_key [OF assms(1), of limit window user key now r f] assms
  by (auto split: prod.splits sum.splits)

lemma script_call_same:
  assumes "script_good R user lmax r" "script_valid lmax (user, limit, window, now)"
  shows "(if fst (script_call R user (user, limit, window, now) r) then 1 else 0)
      + script_stock R user lmax (snd (script_call R user (user, limit, window, now) r))
    \<le> script_stock R user lmax r + script_income R user lmax (user, limit, window, now) r"
proof -
  have g: "hash_laws R" "key_wf R user r" and v: "limit_ok limit" "limit \<le> lmax" "window_ok window"
    "sane_clock now"
    using assms by (auto simp: script_good_def)
  let ?rate = "refill_rate limit window" and ?l = "of_int limit :: rat"
  have pos: "0 < ?rate" by (rule refill_rate_pos [OF v(1,3)])
  have cap: "capacity_ok limit" by (rule limit_capacity [OF v(1)])
  obtain res w r' where res: "check_token_bucket (stored_bucket R user r) now limit ?rate = Inr res"
    and c: "redis_check R Delivered now user limit window r =
       (Inr \<lparr>lr_allowed = allowed res, lr_limit = limit, lr_remaining = remaining res,
             lr_retry_after = w, lr_degraded = False\<rparr>, r')"
    and h: "hget R r' user ''tokens'' = Some (g14 (tokens (new_state res)))"
    "hget R r' user ''last_refill'' = Some (of_int now)"
    using check_refines [OF g v(1,3,4)] by metis
  define s where "s = (case stored_bucket R user r of None \<Rightarrow> full_bucket limit now | Some s \<Rightarrow> s)"
  have s: "check_token_bucket (Some s) now limit ?rate = Inr res" "0 \<le> tokens s" "sane_clock (last_refill s)"
    and st: "tokens s \<le> script_stock R user lmax r"
    and inc: "of_int (max 0 (now - last_refill s)) * ?rate = clock_income R user limit window now r"
    using g(2) res cap v
    by (cases rule: key_wf_cases; force simp: s_def script_stock_def clock_income_def check_None full_bucket_def
        capacity_exact capacity_ok_def fl.rd_nonneg)+
  have "(if allowed res then 1 else 0) + tokens (new_state res) \<le>
      tokens s + of_int (max 0 (now - last_refill s)) * ?rate + 3 / 2 ^ 53 * ?l"
    using pos by (intro check_potential [OF s(1) cap s(2) _ v(4) s(3)]) simp
  moreover have "fl64 (g14 (tokens (new_state res))) \<le>
      tokens (new_state res) + (5 / 10 ^ 14 + 1 / 2 ^ 53) * ?l"
    by (rule new_tokens_bounds(4) [OF s(1) v(1) s(2) pos])
  moreover have "?l \<le> of_int lmax" "0 \<le> ?l" using v(1,2) by (simp_all add: limit_ok_def)
  moreover have "script_stock R user lmax r' = fl64 (g14 (tokens (new_state res)))"
    using h by (simp add: script_stock_def stored_bucket_def)
  ultimately show ?thesis using st inc by (simp add: c)
qed

interpretation scripts: metered "script_call R user" "script_stock R user lmax" "script_income R user lmax"
    0 "script_good R user lmax" "script_valid lmax"
  for R user lmax
proof unfold_locales
  fix r and c :: "string \<times> int \<times> int \<times> int"
  assume g: "script_good R user lmax r" and v: "script_valid lmax c"
  obtain key limit window now where c: "c = (key, limit, window, now)" by (cases c)
  have laws: "hash_laws R" "key_wf R user r" and lmax: "1 \<le> lmax" using g by (simp_all add: script_good_def)
  show "script_good R user lmax (snd (script_call R user c r))"
  proof (cases "key = user")
    case True
    with v c have "key_wf R user (snd (redis_check R Delivered now user limit window r))"
      by (intro check_key_wf laws) auto
    then show ?thesis using True c laws lmax
      by (auto simp: script_good_def split: prod.splits sum.splits)
  next
    case False
    have "key_wf R user (snd (script_call R user c r)) = key_wf R user r"
      using script_call_other(2) [OF laws(1) v [unfolded c] False, of r]
      unfolding c by (rule stored_bucket_cong(2))
    then show ?thesis using laws lmax by (simp add: script_good_def)
  qed
  show "(if fst (script_call R user c r) then 1 else 0)
      + script_stock R user lmax (snd (script_call R user c r))
    \<le> script_stock R user lmax r + script_income R user lmax c r + 0"
  proof (cases "key = user")
    case True
    then show ?thesis using script_call_same [OF g, of limit window now] v unfolding c by simp
  next
    case False
    note other = script_call_other [OF laws(1) v [unfolded c] False, of r]
    have "script_stock R user lmax (snd (script_call R user c r)) = script_stock R user lmax r"
      using stored_bucket_cong(1) [OF other(2)] by (simp add: script_stock_def c)
    then show ?thesis using False other(1) lmax by (simp add: c)
  qed
next
  fix r assume "script_good R user lmax r"
  then have "key_wf R user r" "1 \<le> lmax" by (auto simp: script_good_def)
  then show "0 \<le> script_stock R user lmax r"
    by (cases rule: key_wf_cases) (simp_all add: script_stock_def fl.rd_nonneg)
qed

text \<open>The clock readings of the user's own calls, and the time they span (forward movement
  only).\<close>

definition user_clocks :: "string \<Rightarrow> (string \<times> int \<times> int \<times> int) list \<Rightarrow> int list" where
  "user_clocks user cs = map (\<lambda>(key, limit, window, now). now) (filter (\<lambda>c. fst c = user) cs)"

fun clock_span :: "int list \<Rightarrow> int" where
  "clock_span [] = 0"
| "clock_span (t # ts) = refill_time t ts"

lemma refill_time_nonneg: "0 \<le> refill_time t ts"
  by (induction ts arbitrary: t) auto

lemma clock_income_bound:
  assumes "script_good R user lmax r" "script_valid lmax (user, limit, window, now)"
  shows "clock_income R user limit window now r \<le>
    of_int (case stored_bucket R user r of None \<Rightarrow> 0 | Some s \<Rightarrow> max 0 (now - last_refill s))
      * refill_rate lmax window"
proof -
  have "refill_rate limit window \<le> refill_rate lmax window"
    unfolding refill_rate_def using assms(2)
    by (intro fl.rd_mono divide_right_mono) (auto simp: window_ok_def)
  then show ?thesis
    by (auto simp: clock_income_def split: option.splits intro: mult_left_mono)
qed

lemma script_call_clock:
  assumes "script_good R user lmax r" "script_valid lmax (user, limit, window, now)"
  obtains s where "stored_bucket R user (snd (script_call R user (user, limit, window, now) r)) = Some s"
    "last_refill s = now"
proof -
  have v: "hash_laws R" "key_wf R user r" "limit_ok limit" "window_ok window" "sane_clock now"
    using assms by (auto simp: script_good_def)
  obtain lr r' where c: "redis_check R Delivered now user limit window r = (Inr lr, r')"
    and h: "\<exists>t. hget R r' user ''tokens'' = Some t" "hget R r' user ''last_refill'' = Some (of_int now)"
    using check_refines [OF v] by metis
  show thesis using that c h by (auto simp: stored_bucket_def)
qed

lemma total_income_bound:
  assumes "script_good R user lmax r"
    and "\<forall>c\<in>set cs. script_valid lmax c \<and> fst (snd (snd c)) = window"
  shows "total_income (script_call R user) (script_income R user lmax) cs r \<le>
    of_int (case stored_bucket R user r of
              None \<Rightarrow> clock_span (user_clocks user cs)
            | Some s \<Rightarrow> refill_time (last_refill s) (user_clocks user cs)) * refill_rate lmax window
      + of_nat (length (user_clocks user cs)) * (6 / 10 ^ 14 * of_int lmax)"
  using assms
proof (induction cs arbitrary: r)
  case Nil
  then show ?case by (simp add: user_clocks_def split: option.splits)
next
  case (Cons c cs)
  obtain key limit now where c: "c = (key, limit, window, now)"
    using Cons.prems(2) by (cases c) auto
  let ?r = "snd (script_call R user c r)"
  have v: "script_valid lmax c" using Cons.prems(2) by simp
  have good: "script_good R user lmax ?r" by (rule scripts.step_good [OF Cons.prems(1) v])
  note IH = Cons.IH [OF good] and P = Cons.prems
  show ?case
  proof (cases "key = user")
    case False
    have "stored_bucket R user ?r = stored_bucket R user r"
      using script_call_other(2) [OF _ v [unfolded c] False] P(1)
      unfolding c by (intro stored_bucket_cong(1)) (auto simp: script_good_def)
    moreover have "user_clocks user (c # cs) = user_clocks user cs"
      using False by (simp add: c user_clocks_def)
    ultimately show ?thesis using IH P(2) False
      by (simp add: c del: script_call.simps cong: option.case_cong)
  next
    case True
    let ?c = "refill_rate lmax window" and ?e = "6 / 10 ^ 14 * (of_int lmax :: rat)"
    obtain s where s: "stored_bucket R user ?r = Some s" "last_refill s = now"
      using script_call_clock [OF P(1)] v True unfolding c by metis
    have tail: "total_income (script_call R user) (script_income R user lmax) cs ?r \<le>
        of_int (refill_time now (user_clocks user cs)) * ?c
        + of_nat (length (user_clocks user cs)) * ?e"
      using IH P(2) s by simp
    have "clock_income R user limit window now r \<le>
        of_int (case stored_bucket R user r of None \<Rightarrow> 0 | Some s \<Rightarrow> max 0 (now - last_refill s)) * ?c"
      using clock_income_bound [OF P(1)] v True unfolding c by blast
    moreover have clocks: "user_clocks user (c # cs) = now # user_clocks user cs"
      using True by (simp add: c user_clocks_def)
    moreover have "of_nat (length (user_clocks user (c # cs))) * ?e =
        ?e + of_nat (length (user_clocks user cs)) * ?e" by (simp add: clocks algebra_simps)
    moreover have "total_income (script_call R user) (script_income R user lmax) (c # cs) r =
        clock_income R user limit window now r + ?e
        + total_income (script_call R user) (script_income R user lmax) cs ?r"
      using True by (simp add: c)
    moreover have "of_int (case stored_bucket R user r of
              None \<Rightarrow> clock_span (user_clocks user (c # cs))
            | Some s \<Rightarrow> refill_time (last_refill s) (user_clocks user (c # cs))) * ?c =
        of_int (case stored_bucket R user r of None \<Rightarrow> 0 | Some s \<Rightarrow> max 0 (now - last_refill s)) * ?c
        + of_int (refill_time now (user_clocks user cs)) * ?c"
      by (simp add: clocks distrib_right split: option.split)
    ultimately show ?thesis using tail by linarith
  qed
qed

lemma script_quota:
  assumes laws: "hash_laws R" and new: "hget R r user ''tokens'' = None"
    and valid: "\<forall>c\<in>set cs. script_valid lmax c \<and> fst (snd (snd c)) = window" and lmax: "1 \<le> lmax"
  shows "of_nat (allowed_count (fst (run_calls (script_call R user) cs r))) \<le>
    of_int lmax + of_int (clock_span (user_clocks user cs)) * refill_rate lmax window
      + of_nat (length (user_clocks user cs)) * (6 / 10 ^ 14 * of_int lmax)"
proof -
  have good: "script_good R user lmax r" and none: "stored_bucket R user r = None"
    using laws new lmax by (simp_all add: script_good_def key_wf_def stored_bucket_def)
  have "of_nat (allowed_count (fst (run_calls (script_call R user) cs r))) \<le>
      script_stock R user lmax r + total_income (script_call R user) (script_income R user lmax) cs r
      + of_nat (length cs) * 0"
    using valid by (intro scripts.grants_bounded good) auto
  with total_income_bound [OF good valid] none show ?thesis by (simp add: script_stock_def)
qed

text \<open>C4. Global quota of the Redis limiter under any interleaving: take any sequence of script
  runs from any number of gateway processes, for any keys, with limits up to \<open>lmax\<close>
  over one window, each run with the clock of its own process, on a server where \<open>user\<close>'s
  bucket does not exist yet. The requests allowed to \<open>user\<close> are at most \<open>lmax\<close>, plus the
  refill rate of \<open>lmax\<close> times the time by which the clocks on \<open>user\<close>'s requests moved
  forward, plus \<open>6 * lmax / 10 ^ 14\<close> for each of \<open>user\<close>'s requests (float rounding and
  the 14 printed digits).\<close>

theorem redis_quota_bound:
  assumes laws: "hash_laws R" and new: "hget R r user ''tokens'' = None"
    and valid: "\<forall>c\<in>set cs. script_valid lmax c \<and> fst (snd (snd c)) = window" and lmax: "1 \<le> lmax"
  shows "of_nat (allowed_count (fst (run_calls (script_call R user) cs r))) \<le>
    of_int lmax + of_int (clock_span (user_clocks user cs)) * refill_rate lmax window
      + of_nat (length (user_clocks user cs)) * (6 / 10 ^ 14 * of_int lmax)"
  by (rule script_quota [OF assms])

theorem redis_quota_bound_witness:
  "(let cs = [(''user:a'', 1, 60, 1000), (''user:b'', 2, 60, 5), (''user:a'', 1, 60, 1000), (''user:a'', 1, 60, 1060)]
    in of_nat (allowed_count (fst (run_calls (script_call demo_api ''user:a'') cs demo_empty)))
       \<le> 2 + 60 * fl64 (2 / 60) + 3 * (6 / 10 ^ 14 * 2))"
  using redis_quota_bound [of demo_api demo_empty "''user:a''"
      "[(''user:a'', 1, 60, 1000), (''user:b'', 2, 60, 5), (''user:a'', 1, 60, 1000), (''user:a'', 1, 60, 1060)]" 2 60]
  by (simp add: demo_hash_laws limit_ok_def window_ok_def sane_clock_def user_clocks_def refill_rate_def
      del: run_calls_Cons)

text \<open>A call sees of the server only the fields of hashes.\<close>

definition hash_eq :: "'r redis_api \<Rightarrow> 'r \<Rightarrow> 'r \<Rightarrow> bool" where
  "hash_eq R r r' \<longleftrightarrow> (\<forall>k f. hget R r k f = hget R r' k f)"

lemma redis_check_cong:
  assumes "hash_laws R" "hash_eq R r r'" "limit_ok limit" "window_ok window"
  shows "fst (redis_check R Delivered now key limit window r) = fst (redis_check R Delivered now key limit window r')"
    and "hash_eq R (snd (redis_check R Delivered now key limit window r))
           (snd (redis_check R Delivered now key limit window r'))"
proof -
  have ttl: "0 < lua_ttl (of_int limit) (refill_rate limit window)"
    using assms(3,4) by (intro ttl_pos refill_rate_pos) (auto simp: limit_ok_def)
  have eq: "hget R r k f = hget R r' k f" for k f using assms(2) by (simp add: hash_eq_def)
  show "fst (redis_check R Delivered now key limit window r) = fst (redis_check R Delivered now key limit window r')"
    unfolding redis_check_reply [OF assms(3,4)]
    by (simp add: token_bucket_lua_def Let_def eq split: option.split)
  show "hash_eq R (snd (redis_check R Delivered now key limit window r))
           (snd (redis_check R Delivered now key limit window r'))"
    unfolding redis_check_state [OF assms(3,4)]
    using ttl by (simp add: hash_eq_def token_bucket_lua_def Let_def eq hash_lawsD [OF assms(1)] split: option.split)
qed

section \<open>Concurrent requests at one instant\<close>

definition whole_tokens :: "'r redis_api \<Rightarrow> string \<Rightarrow> int \<Rightarrow> nat \<Rightarrow> int \<Rightarrow> 'r \<Rightarrow> bool" where
  "whole_tokens R user limit k now r \<longleftrightarrow>
     (hget R r user ''tokens'' = None \<and> int k = limit)
   \<or> (hget R r user ''tokens'' = Some (of_nat k) \<and> hget R r user ''last_refill'' = Some (of_int now)
      \<and> int k \<le> limit)"

lemma whole_tokens_check:
  assumes "hash_laws R" "limit_ok limit" "window_ok window" "sane_clock now"
    and "whole_tokens R user limit k now r"
  obtains w r' where "redis_check R Delivered now user limit window r =
      (Inr \<lparr>lr_allowed = (1 \<le> k), lr_limit = limit, lr_remaining = int (k - 1), lr_retry_after = w, lr_degraded = False\<rparr>, r')"
    "whole_tokens R user limit (k - 1) now r'"
proof -
  let ?rate = "refill_rate limit window"
  have k: "int k \<le> limit" using assms(5) by (auto simp: whole_tokens_def)
  then have k': "int k \<le> 10 ^ 14" "k \<le> 2 ^ 53" using assms(2) by (simp_all add: limit_ok_def)
  have wf: "key_wf R user r" and
    sb: "stored_bucket R user r = None \<and> int k = limit \<or>
         stored_bucket R user r = Some \<lparr>tokens = of_nat k, last_refill = now\<rparr>"
    using assms(4,5) k' by (auto simp: whole_tokens_def key_wf_def stored_bucket_def fl64_nat)
  have cap: "capacity_ok limit" by (rule limit_capacity [OF assms(2)])
  have rate: "?rate \<noteq> 0" using refill_rate_pos [OF assms(2,3)] by simp
  have "(of_int limit :: rat) = of_nat k" if "int k = limit"
    using that by (metis of_int_of_nat_eq)
  then have start: "check_token_bucket (stored_bucket R user r) now limit ?rate =
      check_token_bucket (Some \<lparr>tokens = of_nat k, last_refill = now\<rparr>) now limit ?rate"
    using sb cap k'(2) by (auto simp: check_None full_bucket_def fl64_nat)
  obtain res w r' where res: "check_token_bucket (stored_bucket R user r) now limit ?rate = Inr res"
    and c: "redis_check R Delivered now user limit window r =
       (Inr \<lparr>lr_allowed = allowed res, lr_limit = limit, lr_remaining = remaining res,
             lr_retry_after = w, lr_degraded = False\<rparr>, r')"
    and h: "hget R r' user ''tokens'' = Some (g14 (tokens (new_state res)))"
    "hget R r' user ''last_refill'' = Some (of_int now)"
    using check_refines [OF assms(1) wf assms(2-4)] by metis
  have out: "run_bucket (Some \<lparr>tokens = of_nat k, last_refill = now\<rparr>) (replicate 1 now) limit ?rate =
      Inr (replicate (min 1 k) True @ replicate (1 - k) False,
           Some \<lparr>tokens = of_nat (k - 1), last_refill = now\<rparr>)"
    by (rule burst_from [OF cap k rate])
  then have a: "allowed res = (1 \<le> k)" and t: "tokens (new_state res) = of_nat (k - 1)"
    using res start by (cases k; simp split: sum.splits)+
  have left: "remaining res = int (k - 1)"
    using res a t unfolding start by (cases rule: check_cases) (auto simp: py_int_nonneg)
  have "g14 (of_nat (k - 1)) = of_nat (k - 1)" using g14_int [of "int (k - 1)"] k' by simp
  then have "whole_tokens R user limit (k - 1) now r'" using h t k by (simp add: whole_tokens_def)
  then show thesis by (rule that [OF c [unfolded a left]])
qed

lemma whole_tokens_step:
  assumes "hash_laws R" "limit_ok limit" "window_ok window" "sane_clock now"
    and "whole_tokens R user limit k now r"
  shows "fst (script_call R user (user, limit, window, now) r) = (1 \<le> k)"
    and "whole_tokens R user limit (k - 1) now (snd (script_call R user (user, limit, window, now) r))"
  by (rule whole_tokens_check [OF assms], simp)+

lemma whole_tokens_run:
  assumes "hash_laws R" "limit_ok limit" "window_ok window" "sane_clock now"
    and "\<forall>c\<in>set cs. if fst c = user then c = (user, limit, window, now) else script_valid lmax c"
    and "whole_tokens R user limit k now r"
  shows "allowed_count (fst (run_calls (script_call R user) cs r)) = min (length (user_clocks user cs)) k"
  using assms(5,6)
proof (induction cs arbitrary: r k)
  case Nil
  then show ?case by (simp add: user_clocks_def)
next
  case (Cons c cs)
  let ?r = "snd (script_call R user c r)"
  show ?case
  proof (cases "fst c = user")
    case True
    then have c: "c = (user, limit, window, now)" using Cons.prems(1) by auto
    note step = whole_tokens_step [OF assms(1-4) Cons.prems(2), folded c]
    have "allowed_count (fst (run_calls (script_call R user) cs ?r)) =
        min (length (user_clocks user cs)) (k - 1)"
      using Cons step(2) by simp
    then show ?thesis using step(1) True by (cases k) (simp_all add: user_clocks_def)
  next
    case False
    then have v: "script_valid lmax c" using Cons.prems(1) by simp
    obtain key l w t where c: "c = (key, l, w, t)" by (cases c)
    note other = script_call_other [OF assms(1) v [unfolded c], of user r, folded c]
    have "whole_tokens R user limit k now ?r"
      using Cons.prems(2) other(2) False by (simp add: whole_tokens_def c)
    then show ?thesis using Cons other(1) False by (simp add: c user_clocks_def)
  qed
qed

text \<open>C11. Atomicity contract of the limiter (base.py): of any number of concurrent requests of
  one user at one instant, interleaved in any way with requests of other users, exactly as
  many are allowed as the bucket has whole tokens, never more; a new user has \<open>limit\<close> of them.
  With one token left, exactly one of two concurrent requests succeeds.\<close>

theorem redis_concurrent_burst:
  assumes "hash_laws R" and "limit_ok limit" "window_ok window" "sane_clock now"
    and "whole_tokens R user limit k now r"
    and "\<forall>c\<in>set cs. if fst c = user then c = (user, limit, window, now) else script_valid lmax c"
  shows "allowed_count (fst (run_calls (script_call R user) cs r)) =
    min (length (filter (\<lambda>c. fst c = user) cs)) k"
  using whole_tokens_run [OF assms(1-4,6,5)] by (simp add: user_clocks_def)

theorem redis_concurrent_burst_witness:
  "allowed_count (fst (run_calls (script_call demo_api ''user:a'')
     [(''user:a'', 1, 60, 1000), (''user:b'', 5, 60, 3), (''user:a'', 1, 60, 1000)] demo_empty)) = 1"
  using redis_concurrent_burst [of demo_api 1 60 1000 "''user:a''" 1 demo_empty
      "[(''user:a'', 1, 60, 1000), (''user:b'', 5, 60, 3), (''user:a'', 1, 60, 1000)]" 5]
  by (simp add: demo_hash_laws limit_ok_def window_ok_def sane_clock_def whole_tokens_def
      del: run_calls_Cons)

section \<open>Refinement of the reference, failures, isolation\<close>

text \<open>C10. Refinement: on a bucket the script itself wrote (or none), \<open>RedisRateLimiter.check\<close>
  decides exactly as the reference \<open>check_token_bucket\<close> does on the stored bucket: same
  \<open>allowed\<close>, same \<open>remaining\<close>; \<open>retry_after\<close> is 0 when allowed and otherwise the reference
  value or one second less; the bucket left behind is the reference's new state with its
  tokens printed to 14 digits and read back; and the key stays well-formed.\<close>

theorem redis_check_refines_reference:
  assumes "hash_laws R" "key_wf R key r" "limit_ok limit" "window_ok window" "sane_clock now"
  shows "\<exists>res lr r'.
      check_token_bucket (stored_bucket R key r) now limit (refill_rate limit window) = Inr res
    \<and> redis_check R Delivered now key limit window r = (Inr lr, r')
    \<and> lr_allowed lr = allowed res \<and> lr_remaining lr = remaining res
    \<and> lr_limit lr = limit \<and> \<not> lr_degraded lr
    \<and> (if allowed res then lr_retry_after lr = 0
        else lr_retry_after lr \<in> {retry_after res - 1, retry_after res})
    \<and> stored_bucket R key r' =
        Some \<lparr>tokens = fl64 (g14 (tokens (new_state res))), last_refill = now\<rparr>
    \<and> key_wf R key r'"
proof -
  obtain res w r' where c:
    "check_token_bucket (stored_bucket R key r) now limit (refill_rate limit window) = Inr res"
    "redis_check R Delivered now key limit window r =
       (Inr \<lparr>lr_allowed = allowed res, lr_limit = limit, lr_remaining = remaining res,
             lr_retry_after = w, lr_degraded = False\<rparr>, r')"
    "w \<in> {retry_after res - 1, retry_after res}" "allowed res \<longrightarrow> w = 0"
    and h: "hget R r' key ''tokens'' = Some (g14 (tokens (new_state res)))"
    "hget R r' key ''last_refill'' = Some (of_int now)"
    using check_refines [OF assms] by metis
  have "key_wf R key r'" using check_key_wf [OF assms] c(2) by simp
  then show ?thesis using c h by (auto simp: stored_bucket_def)
qed

theorem redis_check_refines_reference_witness:
  "\<exists>res lr r'. check_token_bucket None 1000 3 (refill_rate 3 60) = Inr res
     \<and> redis_check demo_api Delivered 1000 ''user:a'' 3 60 demo_empty = (Inr lr, r')
     \<and> lr_allowed lr = allowed res"
  using redis_check_refines_reference [of demo_api "''user:a''" demo_empty 3 60 1000]
  by (auto simp: demo_hash_laws limit_ok_def window_ok_def sane_clock_def key_wf_def stored_bucket_def)

text \<open>Failing open: when the server cannot be reached, or its reply is lost, the request is
  allowed with the limit echoed, \<open>remaining = -1\<close>, \<open>retry_after = 0\<close> and the \<open>degraded\<close>
  flag; a command that was not executed leaves the server's state alone. A reply that did
  arrive for a well-formed key is never marked degraded.\<close>

lemma redis_check_fails_open:
  assumes "window_ok window" "dlv \<noteq> Delivered"
  shows "fst (redis_check R dlv now key limit window r) = Inr (fail_open limit)
    \<and> snd (redis_check R Not_Executed now key limit window r) = r"
  using assms
  by (cases dlv) (simp_all add: redis_check_def run_script_def window_ok_def Let_def)

lemma redis_check_fails_open_witness:
  "fst (redis_check demo_api Reply_Lost 1000 ''user:a'' 3 60 demo_empty) = Inr (fail_open 3)
   \<and> snd (redis_check demo_api Not_Executed 1000 ''user:a'' 3 60 demo_empty) = demo_empty"
  using redis_check_fails_open [of 60 Reply_Lost demo_api 1000 "''user:a''" 3 demo_empty]
  by (simp add: window_ok_def)

section \<open>The TTL\<close>

text \<open>With a 60-second window the script's TTL is 120 or 121 seconds for every limit.\<close>

lemma refill_rate_60:
  assumes "limit_ok limit"
  shows "of_int limit * (1 / 60 - 1 / 2 ^ 53) \<le> refill_rate limit 60"
    and "refill_rate limit 60 \<le> of_int limit * (1 / 60 + 1 / 2 ^ 53)"
proof -
  have l: "1 \<le> (of_int limit :: rat)" using assms by (simp add: limit_ok_def)
  have "\<bar>fl64 (of_int limit / 60) - of_int limit / 60\<bar> \<le> 1 / 2 ^ 53 * of_int limit"
    using l by (intro fl.rd_err) auto
  then have "fl64 (of_int limit / 60) - of_int limit / 60 \<le> 1 / 2 ^ 53 * of_int limit"
    "of_int limit / 60 - fl64 (of_int limit / 60) \<le> 1 / 2 ^ 53 * of_int limit"
    by linarith+
  then show "of_int limit * (1 / 60 - 1 / 2 ^ 53) \<le> refill_rate limit 60"
    "refill_rate limit 60 \<le> of_int limit * (1 / 60 + 1 / 2 ^ 53)"
    by (simp_all add: refill_rate_def algebra_simps)
qed

text \<open>The TTL the script sets is 120 or 121 seconds whatever the limit is: one window to
  refill an empty bucket, plus the 60 seconds of slack, plus at most one second of rounding.\<close>

lemma lua_ttl_two_minutes:
  assumes "limit_ok limit"
  shows "lua_ttl (of_int limit) (refill_rate limit 60) \<in> {120, 121}"
proof -
  let ?l = "of_int limit :: rat" and ?r = "refill_rate limit 60"
  have l: "1 \<le> ?l" using assms by (simp add: limit_ok_def)
  have r: "0 < ?r" using assms by (intro refill_rate_pos) (simp_all add: window_ok_def)
  have "?l * (1 / 60 + 1 / 2 ^ 53) * (119 / 2) \<le> ?l" using l by simp
  then have "119 / 2 \<le> ?l / ?r"
    using refill_rate_60(2) [OF assms] r by (simp add: le_divide_eq algebra_simps)
  then have "fl64 (119 / 2) \<le> fl64 (?l / ?r)" by (rule fl.rd_mono)
  moreover have "fl64 (119 / 2) = of_int (119 * 2 ^ 46) / 2 ^ 47"
    by (rule fl64_evalI) simp_all
  ultimately have lo: "119 / 2 \<le> fl64 (?l / ?r)" by simp
  have "?l \<le> 61 * (?l * (1 / 60 - 1 / 2 ^ 53))" using l by simp
  then have "?l / ?r \<le> of_int 61"
    using refill_rate_60(1) [OF assms] r by (simp add: divide_le_eq algebra_simps)
  then have "fl64 (?l / ?r) \<le> of_int 61" by (rule fl.rd_le_int) simp
  with lo have "\<lceil>fl64 (?l / ?r)\<rceil> \<in> {60, 61}" by simp linarith
  then show ?thesis by (auto simp: lua_ttl_def)
qed

lemma lua_ttl_two_minutes_witness:
  "lua_ttl 1000 (refill_rate 1000 60) \<in> {120, 121}"
  using lua_ttl_two_minutes [of 1000] by (simp add: limit_ok_def)

lemma refilled_after_ttl:
  assumes "limit_ok limit" "0 \<le> tokens s" "sane_clock now" "sane_clock (last_refill s)"
    and "last_refill s + 61 \<le> now"
  shows "refill_phase s now limit (refill_rate limit 60) = of_int limit"
proof -
  let ?l = "of_int limit :: rat" and ?d = "max 0 (now - last_refill s)"
  have l: "1 \<le> ?l" using assms by (simp add: limit_ok_def)
  have r: "0 \<le> refill_rate limit 60"
    using refill_rate_pos [OF assms(1)] by (simp add: window_ok_def less_imp_le)
  have cap: "fl64 ?l = ?l" by (rule capacity_exact [OF limit_capacity [OF assms(1)]])
  have "?l \<le> 61 * (?l * (1 / 60 - 1 / 2 ^ 53))" using l by simp
  also have "\<dots> \<le> 61 * refill_rate limit 60" using refill_rate_60(1) [OF assms(1)] by simp
  also have "\<dots> \<le> of_int ?d * refill_rate limit 60"
  proof (rule mult_right_mono [OF _ r])
    have "(of_int 61 :: rat) \<le> of_int ?d" using assms(5) unfolding of_int_le_iff by simp
    then show "(61 :: rat) \<le> of_int ?d" by simp
  qed
  finally have "?l \<le> fl64 (of_int ?d * refill_rate limit 60)"
    using cap by (rule fl.fixed_le_rd)
  then have "?l \<le> tokens s + fl64 (of_int ?d * refill_rate limit 60)"
    using assms(2) by linarith
  then have "?l \<le> fl64 (tokens s + fl64 (of_int ?d * refill_rate limit 60))"
    using cap by (rule fl.fixed_le_rd)
  then show ?thesis
    using assms(3,4) by (simp add: refill_phase_def Let_def sane_elapsed cap)
qed

text \<open>Expiry is unobservable: if the last call on a key is at least 61 seconds old by the
  gateway's clock (the TTL is at least 120), then running the script on the stored bucket and
  running it on a key Redis has dropped give the same reply and leave the same fields.\<close>

lemma expiry_unobservable:
  assumes "hash_laws R" "key_wf R key r" "limit_ok limit" "sane_clock now"
    and "stored_bucket R key r = Some s" "last_refill s + 61 \<le> now"
    and gone: "hget R r' key ''tokens'' = None"
  shows "fst (redis_check R Delivered now key limit 60 r) = fst (redis_check R Delivered now key limit 60 r')
    \<and> stored_bucket R key (snd (redis_check R Delivered now key limit 60 r)) =
      stored_bucket R key (snd (redis_check R Delivered now key limit 60 r'))"
proof -
  let ?rate = "refill_rate limit 60"
  have w: "window_ok 60" by (simp add: window_ok_def)
  have rate: "0 < ?rate" by (rule refill_rate_pos [OF assms(3) w])
  note cap = capacity_exact [OF limit_capacity [OF assms(3)]]
  have s: "0 \<le> tokens s" "sane_clock (last_refill s)"
    using assms(2,5) by (cases rule: key_wf_cases; auto simp: fl.rd_nonneg)+
  let ?f = "full_bucket limit now"
  have "refill_phase ?f now limit ?rate = of_int limit"
    using refill_phase_same_instant [of ?f now limit ?rate] limit_capacity [OF assms(3)]
    by (simp add: full_bucket_def cap)
  moreover have "refill_phase s now limit ?rate = of_int limit"
    by (rule refilled_after_ttl [OF assms(3) s(1) assms(4) s(2) assms(6)])
  moreover have "sane_clock (last_refill ?f)" using assms(4) by (simp add: full_bucket_def)
  ultimately have full: "lua_bucket (of_int limit) ?rate (of_int now) (tokens s) (of_int (last_refill s)) =
      lua_bucket (of_int limit) ?rate (of_int now) (of_int limit) (of_int now)"
    using lua_bucket_phase [OF limit_capacity [OF assms(3)] assms(4) s(2), of ?rate]
      lua_bucket_phase [OF limit_capacity [OF assms(3)] assms(4), of ?f ?rate]
    by (simp add: full_bucket_def cap)
  have ttl: "0 < lua_ttl (of_int limit) ?rate"
    using rate assms(3) by (intro ttl_pos) (auto simp: limit_ok_def)
  have start: "(case hget R r key ''tokens'' of None \<Rightarrow> Some (of_int limit, of_int now)
      | Some t \<Rightarrow> (case hget R r key ''last_refill'' of
            None \<Rightarrow> None | Some l \<Rightarrow> Some (fl64 t, fl64 l)))
      = Some (tokens s, of_int (last_refill s))"
    using assms(2,5) s(2) by (cases rule: key_wf_cases) (auto simp: fl64_int sane_clock_def)
  note w1 = script_writes [OF assms(1) _ ttl start]
  note w2 = script_writes [OF assms(1) _ ttl, where r = r' and key = key
      and now = "of_int now" and t = "of_int limit" and l = "of_int now"]
  show ?thesis
    using w1 w2 rate gone
    by (simp add: redis_check_reply [OF assms(3) w] redis_check_state [OF assms(3) w]
        stored_bucket_def full)
qed

lemma expiry_unobservable_witness:
  "\<exists>r. key_wf demo_api ''user:a'' r
     \<and> stored_bucket demo_api ''user:a'' r = Some \<lparr>tokens = 0, last_refill = 1000\<rparr>
     \<and> fst (redis_check demo_api Delivered 1200 ''user:a'' 3 60 r)
       = fst (redis_check demo_api Delivered 1200 ''user:a'' 3 60 demo_empty)"
proof -
  let ?r = "hset demo_api ''user:a'' ''last_refill'' 1000 (hset demo_api ''user:a'' ''tokens'' 0 demo_empty)"
  have h: "key_wf demo_api ''user:a'' ?r"
    "stored_bucket demo_api ''user:a'' ?r = Some \<lparr>tokens = 0, last_refill = 1000\<rparr>"
    by (simp_all add: key_wf_def stored_bucket_def hash_lawsD(1) [OF demo_hash_laws] sane_clock_def)
  show ?thesis
    using h expiry_unobservable [OF demo_hash_laws h(1) _ _ h(2), of 3 1200 demo_empty]
    by (intro exI [of _ ?r]) (simp add: limit_ok_def sane_clock_def)
qed

section \<open>A Retry-After that is too short\<close>

text \<open>The numbers of one run, with a limit of one request per minute.\<close>

lemma rate_1_60: "refill_rate 1 60 = 4803839602528529 / 288230376151711744"
  using fl64_evalI [of 58 "1 / 60" 4803839602528529] by (simp add: refill_rate_def)

lemma run_1_first: "lua_bucket 1 (refill_rate 1 60) 1000 1 1000 =
    \<lparr>lua_allowed = 1, lua_remaining = 0, lua_retry_after = 0, lua_tokens = 0\<rparr>"
  by (simp add: lua_bucket_def)

lemma run_1_denied: "lua_bucket 1 (refill_rate 1 60) 1002 0 1000 =
    \<lparr>lua_allowed = 0, lua_remaining = 0, lua_retry_after = 58,
     lua_tokens = 4803839602528529 / 144115188075855872\<rparr>"
proof -
  have c: "fl64 (4803839602528529 / 144115188075855872) = 4803839602528529 / 144115188075855872"
    using fl64_evalI [of 57 "4803839602528529 / 144115188075855872" 4803839602528529] by simp
  have d: "fl64 (139311348473327343 / 144115188075855872) = 8706959279582959 / 9007199254740992"
    using fl64_evalI [of 53 "139311348473327343 / 144115188075855872" 8706959279582959] by simp
  have q: "fl64 (278622696946654688 / 4803839602528529) = 58"
    using fl64_evalI [of 47 "278622696946654688 / 4803839602528529" 8162774324609024] by simp
  show ?thesis by (simp add: lua_bucket_def Let_def rate_1_60 c d q)
qed

lemma run_1_printed: "fl64 (g14 (4803839602528529 / 144115188075855872)) = 4803839602528481 / 144115188075855872"
proof -
  have "g14 (4803839602528529 / 144115188075855872) = 33333333333333 / 1000000000000000"
    using g14_evalI [of 15 "4803839602528529 / 144115188075855872" 33333333333333] by simp
  moreover have "fl64 (33333333333333 / 1000000000000000) = 4803839602528481 / 144115188075855872"
    using fl64_evalI [of 57 "33333333333333 / 1000000000000000" 4803839602528481] by simp
  ultimately show ?thesis by (simp only:)
qed

lemma run_1_again: "lua_allowed (lua_bucket 1 (refill_rate 1 60) 1060
    (4803839602528481 / 144115188075855872) 1002) = 0"
proof -
  have d: "fl64 (139311348473327341 / 144115188075855872) = 8706959279582959 / 9007199254740992"
    using fl64_evalI [of 53 "139311348473327341 / 144115188075855872" 8706959279582959] by simp
  have s: "fl64 (144115188075855825 / 144115188075855872) = 9007199254740989 / 9007199254740992"
    using fl64_evalI [of 53 "144115188075855825 / 144115188075855872" 9007199254740989] by simp
  show ?thesis by (simp add: lua_bucket_def Let_def rate_1_60 d s)
qed

text \<open>The Redis limiter's \<open>retry_after\<close> can be too short, unlike the reference's. With a
  limit of 1 per minute: the first request at second 1000 is allowed, the second at 1002 is
  denied with \<open>retry_after = 58\<close>, and the client that waits exactly these 58 seconds is denied
  again at 1060, because the token count was printed with 14 digits in between
  (0.033333333333333) and 58 seconds of refill leave 0.9999999999999997 tokens.\<close>

lemma lua_retry_after_too_short:
  assumes "hash_laws R" "hget R r key ''tokens'' = None"
  shows "\<exists>lr1 r1 lr2 r2 lr3 r3.
      redis_check R Delivered 1000 key 1 60 r = (Inr lr1, r1) \<and> lr_allowed lr1
    \<and> redis_check R Delivered 1002 key 1 60 r1 = (Inr lr2, r2) \<and> \<not> lr_allowed lr2
    \<and> lr_retry_after lr2 = 58
    \<and> redis_check R Delivered (1002 + 58) key 1 60 r2 = (Inr lr3, r3) \<and> \<not> lr_allowed lr3"
proof -
  let ?rate = "refill_rate 1 60"
  have l: "limit_ok 1" and w: "window_ok 60" by (simp_all add: limit_ok_def window_ok_def)
  have rate: "?rate \<noteq> 0" using refill_rate_pos [OF l w] by simp
  have ttl: "0 < lua_ttl 1 ?rate" by (rule ttl_pos) (simp_all add: refill_rate_pos [OF l w])
  define r1 where "r1 = snd (token_bucket_lua R key 1 ?rate 1000 r)"
  define r2 where "r2 = snd (token_bucket_lua R key 1 ?rate 1002 r1)"
  note sw = script_writes [OF assms(1) rate ttl, where key = key]
  have s1: "fst (token_bucket_lua R key 1 ?rate 1000 r) = Inr (1, 0, 0)"
    "hget R r1 key ''tokens'' = Some 0" "hget R r1 key ''last_refill'' = Some 1000"
    using sw [where r = r and now = 1000 and t = 1 and l = 1000] assms(2)
    by (simp_all add: run_1_first r1_def)
  have s2: "fst (token_bucket_lua R key 1 ?rate 1002 r1) = Inr (0, 0, 58)"
    "hget R r2 key ''tokens'' = Some (g14 (4803839602528529 / 144115188075855872))"
    "hget R r2 key ''last_refill'' = Some 1002"
    using sw [where r = r1 and now = 1002 and t = 0 and l = 1000] s1
    by (simp_all add: run_1_denied r2_def)
  have s3: "\<exists>left wait. fst (token_bucket_lua R key 1 ?rate 1060 r2) = Inr (0, left, wait)"
    using sw(1) [where r = r2 and now = 1060 and l = 1002
        and t = "4803839602528481 / 144115188075855872"] s2
    by (simp add: run_1_printed run_1_again)
  have c: "redis_check R Delivered n key 1 60 q =
      (fst (redis_check R Delivered n key 1 60 q), snd (redis_check R Delivered n key 1 60 q))" for n q
    by simp
  show ?thesis
    using s1(1) s2(1) s3
    by (subst (1 2 3) c)
       (auto simp: redis_check_reply [OF l w] redis_check_state [OF l w] simp flip: r1_def r2_def)
qed

lemma lua_retry_after_too_short_witness:
  "\<exists>lr1 r1 lr2 r2 lr3 r3.
      redis_check demo_api Delivered 1000 ''user:a'' 1 60 demo_empty = (Inr lr1, r1) \<and> lr_allowed lr1
    \<and> redis_check demo_api Delivered 1002 ''user:a'' 1 60 r1 = (Inr lr2, r2) \<and> \<not> lr_allowed lr2
    \<and> lr_retry_after lr2 = 58
    \<and> redis_check demo_api Delivered (1002 + 58) ''user:a'' 1 60 r2 = (Inr lr3, r3) \<and> \<not> lr_allowed lr3"
  by (rule lua_retry_after_too_short [OF demo_hash_laws demo_missing(1)])

end
