(* ===== verification/Http.thy ===== *)
theory Http
  imports Prelude
begin

text \<open>
  What the gateway sees of HTTP: requests, responses with case-insensitive headers, JSON
  values, and Python's \<open>str\<close> of an integer. The \<open>content-length\<close> a response gets on the wire is
  not modelled.
\<close>

section \<open>Text\<close>

fun nat_str :: "nat \<Rightarrow> string" where
  "nat_str n = (if n < 10 then [char_of (48 + n)] else nat_str (n div 10) @ [char_of (48 + n mod 10)])"

declare nat_str.simps [simp del]

definition int_str :: "int \<Rightarrow> string" where
  "int_str i = (if i < 0 then CHR ''-'' # nat_str (nat (- i)) else nat_str (nat i))"

definition lower_char :: "char \<Rightarrow> char" where
  "lower_char c = (let n = of_char c :: nat in if 65 \<le> n \<and> n \<le> 90 then char_of (n + 32) else c)"

definition lower :: "string \<Rightarrow> string" where
  "lower s = map lower_char s"

text \<open>Reading the digits back.\<close>

definition digits_val :: "string \<Rightarrow> nat" where
  "digits_val s = foldl (\<lambda>a c. 10 * a + (of_char c - 48)) 0 s"

lemma digits_val_snoc: "digits_val (s @ [c]) = 10 * digits_val s + (of_char c - 48)"
  by (simp add: digits_val_def)

lemma of_char_digit: "(d :: nat) < 10 \<Longrightarrow> of_char (char_of (48 + d) :: char) = 48 + d"
  by (simp add: of_char_of)

lemma digits_val_nat_str: "digits_val (nat_str n) = n"
proof (induction n rule: nat_str.induct)
  case (1 n)
  show ?case
  proof (cases "n < 10")
    case True
    then show ?thesis by (simp add: nat_str.simps [of n] digits_val_def of_char_digit)
  next
    case False
    have "n mod 10 < 10" by simp
    with False 1 show ?thesis
      by (simp add: nat_str.simps [of n] digits_val_snoc of_char_digit)
  qed
qed

lemma nat_str_inj: "nat_str m = nat_str n \<Longrightarrow> m = n"
  by (metis digits_val_nat_str)

lemma nat_str_no_minus: "\<exists>c cs. nat_str n = c # cs \<and> c \<noteq> CHR ''-''"
proof (induction n rule: nat_str.induct)
  case (1 n)
  show ?case
  proof (cases "n < 10")
    case True
    have "char_of (48 + n) \<noteq> CHR ''-''"
    proof
      assume "char_of (48 + n) = CHR ''-''"
      then have "of_char (char_of (48 + n) :: char) = (of_char (CHR ''-'') :: nat)" by simp
      with True show False by (simp add: of_char_digit)
    qed
    with True show ?thesis by (simp add: nat_str.simps [of n])
  next
    case False
    with 1 show ?thesis by (auto simp: nat_str.simps [of n])
  qed
qed

lemma int_str_inj: "int_str i = int_str j \<Longrightarrow> i = j"
proof -
  assume eq: "int_str i = int_str j"
  obtain c cs where i: "nat_str (nat i) = c # cs" "c \<noteq> CHR ''-''" using nat_str_no_minus by blast
  obtain d ds where j: "nat_str (nat j) = d # ds" "d \<noteq> CHR ''-''" using nat_str_no_minus by blast
  show "i = j"
  proof (cases "i < 0"; cases "j < 0")
    assume "i < 0" "j < 0"
    with eq have "nat (- i) = nat (- j)" by (intro nat_str_inj) (simp add: int_str_def)
    with \<open>i < 0\<close> \<open>j < 0\<close> show "i = j" by simp
  next
    assume "\<not> i < 0" "\<not> j < 0"
    with eq have "nat i = nat j" by (intro nat_str_inj) (simp add: int_str_def)
    with \<open>\<not> i < 0\<close> \<open>\<not> j < 0\<close> show "i = j" by simp
  qed (use eq i j in \<open>simp_all add: int_str_def\<close>)
qed

section \<open>JSON\<close>

datatype json =
    JNull
  | JBool bool
  | JInt int
  | JFloat rat
  | JStr string
  | JArr "json list"
  | JObj "(string \<times> json) list"

fun json_get :: "json \<Rightarrow> string \<Rightarrow> json option" where
  "json_get (JObj kvs) k = map_of kvs k"
| "json_get _ k = None"

section \<open>Requests and responses\<close>

text \<open>Header names of a request arrive in lower case.\<close>

record request =
  rq_method :: string
  rq_path :: string
  rq_query :: string
  rq_headers :: "(string \<times> string) list"
  rq_client :: "string option"
  rq_body :: string

definition get_header :: "request \<Rightarrow> string \<Rightarrow> string option" where
  "get_header rq name = map_of (rq_headers rq) (lower name)"

datatype body = JsonBody json | RawBody string

record response =
  rs_status :: int
  rs_headers :: "string \<rightharpoonup> string"
  rs_body :: body

definition set_header :: "string \<Rightarrow> string \<Rightarrow> response \<Rightarrow> response" where
  "set_header name v rs = rs\<lparr>rs_headers := (rs_headers rs)(lower name \<mapsto> v)\<rparr>"

definition header :: "response \<Rightarrow> string \<Rightarrow> string option" where
  "header rs name = rs_headers rs (lower name)"

definition json_response :: "int \<Rightarrow> json \<Rightarrow> (string \<times> string) list \<Rightarrow> response" where
  "json_response status content headers =
     \<lparr>rs_status = status,
      rs_headers = map_of (map (\<lambda>(k, v). (lower k, v)) (rev headers)) ++ [''content-type'' \<mapsto> ''application/json''],
      rs_body = JsonBody content\<rparr>"

text \<open>
  Reading typed values out of a request is pydantic's and FastAPI's work, a parameter: the
  conversions of a JSON value to the field types, the body of a request (\<open>Malformed\<close> when it is
  not JSON), its query parameters, and how an instant is printed.
\<close>

datatype body_in = Malformed | No_Body | Body json

record codec =
  as_int :: "json \<Rightarrow> int option"
  as_str :: "json \<Rightarrow> string option"
  as_datetime :: "json \<Rightarrow> int option"
  iso :: "int \<Rightarrow> string"
  read_body :: "request \<Rightarrow> body_in"
  query_param :: "request \<Rightarrow> string \<Rightarrow> string option"

lemma set_header_fields [simp]:
  "rs_status (set_header k v rs) = rs_status rs" "rs_body (set_header k v rs) = rs_body rs"
  by (simp_all add: set_header_def)

lemma header_set [hdr_simps]:
  "header (set_header k v rs) k' = (if lower k' = lower k then Some v else header rs k')"
  by (simp add: header_def set_header_def)

lemma header_json_response [hdr_simps]:
  "header (json_response status content headers) k =
     (if lower k = ''content-type'' then Some ''application/json''
      else map_of (map (\<lambda>(k, v). (lower k, v)) (rev headers)) (lower k))"
  by (simp add: header_def json_response_def map_add_def)

lemma json_response_fields [simp]:
  "rs_status (json_response status content headers) = status"
  "rs_body (json_response status content headers) = JsonBody content"
  by (simp_all add: json_response_def)

end
