(* ===== verification/Upstream_Health.thy ===== *)
theory Upstream_Health
  imports Redis_Limiter Http
begin

text \<open>
  \<open>app/services/upstream_health.py\<close>: upstream results recorded in two sorted sets, and the
  error rate of the last minute read back by the rate limiter (\<open>get_health_factor\<close>) and by
  \<open>/admin/upstream-health\<close> (\<open>get_health_status\<close>). The member \<open>str(now)\<close> of a result is
  represented by the number it denotes. Each pipeline is one transaction.
\<close>

section \<open>Recording and reading\<close>

definition KEY_SUCCESS :: string where "KEY_SUCCESS = ''upstream:window:success''"
definition KEY_ERROR :: string where "KEY_ERROR = ''upstream:window:error''"

definition ERROR_THRESHOLD :: rat where "ERROR_THRESHOLD = fl64 (1 / 5)"
definition DEGRADED_FACTOR :: rat where "DEGRADED_FACTOR = 1 / 2"

definition record_pipeline :: "'r redis_api \<Rightarrow> rat \<Rightarrow> bool \<Rightarrow> 'r \<Rightarrow> 'r" where
  "record_pipeline R now success r =
     (let key = (if success then KEY_SUCCESS else KEY_ERROR);
          cutoff = fl64 (now - 60);
          r = zadd R key now now r;
          r = zremrangebyscore R key cutoff r
      in expire R key 180 r)"

definition record_upstream_result :: "'r redis_api \<Rightarrow> delivery \<Rightarrow> rat \<Rightarrow> bool \<Rightarrow> 'r \<Rightarrow> 'r" where
  "record_upstream_result R dlv now success r =
     (if dlv = Not_Executed then r else record_pipeline R now success r)"

definition window_counts :: "'r redis_api \<Rightarrow> rat \<Rightarrow> 'r \<Rightarrow> nat \<times> nat" where
  "window_counts R now r =
     (let since = fl64 (now - 60) in (zcount R r KEY_SUCCESS since, zcount R r KEY_ERROR since))"

definition get_health_factor :: "'r redis_api \<Rightarrow> delivery \<Rightarrow> rat \<Rightarrow> 'r \<Rightarrow> rat" where
  "get_health_factor R dlv now r =
     (if dlv \<noteq> Delivered then 1
      else
        let (successes, errors) = window_counts R now r;
            total = successes + errors
        in if total < 10 then 1
           else if ERROR_THRESHOLD < fl64 (of_nat errors / of_nat total) then DEGRADED_FACTOR
           else 1)"

text \<open>\<open>round(x, 4)\<close>: the nearest multiple of \<open>10 ^ -4\<close>, ties to even, as a float.\<close>

definition round4 :: "rat \<Rightarrow> rat" where
  "round4 x = fl64 (of_int (rne (x * 10 ^ 4)) / 10 ^ 4)"

text \<open>\<open>message\<close> is \<open>str(exc)\<close> of the Redis error.\<close>

definition get_health_status :: "'r redis_api \<Rightarrow> delivery \<Rightarrow> string \<Rightarrow> rat \<Rightarrow> 'r \<Rightarrow> json" where
  "get_health_status R dlv message now r =
     (if dlv \<noteq> Delivered then
        JObj [(''status'', JStr ''unknown''), (''error'', JStr message), (''factor'', JFloat 1),
              (''window_seconds'', JInt 60)]
      else
        let (successes, errors) = window_counts R now r;
            total = successes + errors;
            error_rate = (if 0 < total then round4 (fl64 (of_nat errors / of_nat total)) else 0);
            factor = (if 10 \<le> total \<and> ERROR_THRESHOLD < error_rate then DEGRADED_FACTOR else 1)
        in JObj [(''status'', JStr (if factor < 1 then ''degraded'' else ''healthy'')),
                 (''error_rate'', JFloat error_rate),
                 (''factor'', JFloat factor),
                 (''requests_in_window'', JInt (int total)),
                 (''window_seconds'', JInt 60),
                 (''threshold'', JFloat ERROR_THRESHOLD)])"

lemma health_factor_values: "get_health_factor R dlv now r = 1 \<or> get_health_factor R dlv now r = 1 / 2"
  by (simp add: get_health_factor_def DEGRADED_FACTOR_def Let_def split_beta)

section \<open>The threshold in integers\<close>

lemma threshold_value: "ERROR_THRESHOLD = 7205759403792794 / 36028797018963968"
proof -
  have "fl64 (1 / 5) = of_int 7205759403792794 / 2 ^ 55" by (rule fl64_evalI) simp_all
  then show ?thesis by (simp add: ERROR_THRESHOLD_def)
qed

text \<open>The float quotient exceeds the float 0.2 exactly when the fraction exceeds one fifth.\<close>

lemma above_threshold_iff:
  assumes "0 < t" "t \<le> 2 ^ 52"
  shows "ERROR_THRESHOLD < fl64 (of_nat e / of_nat t) \<longleftrightarrow> t < 5 * e"
proof
  assume less: "ERROR_THRESHOLD < fl64 (of_nat e / of_nat t)"
  show "t < 5 * e"
  proof (rule ccontr)
    assume "\<not> t < 5 * e"
    then have "(of_nat (5 * e) :: rat) \<le> of_nat t" unfolding of_nat_le_iff by simp
    then have "(of_nat e / of_nat t :: rat) \<le> 1 / 5" using assms(1) by (simp add: field_simps)
    then have "fl64 (of_nat e / of_nat t) \<le> ERROR_THRESHOLD"
      unfolding ERROR_THRESHOLD_def by (rule fl.rd_mono)
    with less show False by simp
  qed
next
  let ?y = "of_int 7205759403792795 / 2 ^ 55 :: rat"
  assume "t < 5 * e"
  then have "(of_nat t + 1 :: rat) \<le> of_nat (5 * e)"
    by (metis Suc_eq_plus1 Suc_leI of_nat_1 of_nat_add of_nat_le_iff)
  moreover have "(of_nat t :: rat) \<le> 2 ^ 52"
    using assms(2) by (metis of_nat_le_iff of_nat_numeral of_nat_power)
  ultimately have "?y \<le> of_nat e / of_nat t" using assms(1) by (simp add: field_simps)
  moreover have "fl64 ?y = ?y" by (rule fl64_dyadic) simp_all
  ultimately have "?y \<le> fl64 (of_nat e / of_nat t)" by (metis fl.rd_mono)
  then show "ERROR_THRESHOLD < fl64 (of_nat e / of_nat t)" by (simp add: threshold_value)
qed

text \<open>C24. The adaptive factor is one half exactly when Redis answers, the window holds at least ten
  results and more than a fifth of them are errors; in every other case, an unreachable Redis
  included, limits are not reduced. The float comparison with 0.2 decides this exactly for every
  window of up to \<open>2 ^ 52\<close> results.\<close>

theorem health_factor_exact:
  assumes "window_counts R now r = (successes, errors)" "successes + errors \<le> 2 ^ 52"
  shows "get_health_factor R dlv now r =
    (if dlv = Delivered \<and> 10 \<le> successes + errors \<and> successes + errors < 5 * errors then 1 / 2 else 1)"
proof (cases "10 \<le> successes + errors")
  case True
  then have "ERROR_THRESHOLD < fl64 (of_nat errors / of_nat (successes + errors)) \<longleftrightarrow>
      successes + errors < 5 * errors"
    using assms(2) by (intro above_threshold_iff) linarith+
  then show ?thesis
    using True assms(1) by (simp add: get_health_factor_def DEGRADED_FACTOR_def)
qed (simp add: get_health_factor_def assms(1))

text \<open>A server whose windows hold given numbers of results.\<close>

definition counts_api :: "nat \<Rightarrow> nat \<Rightarrow> demo_redis redis_api" where
  "counts_api successes errors =
     demo_api\<lparr>zcount := (\<lambda>r k lo. if k = KEY_SUCCESS then successes else errors)\<rparr>"

lemma counts_api_window: "window_counts (counts_api s e) now r = (s, e)"
  by (simp add: window_counts_def counts_api_def Let_def KEY_SUCCESS_def KEY_ERROR_def)

theorem health_factor_exact_witness:
  "get_health_factor (counts_api 8 2) Delivered 100 demo_empty = 1
    \<and> get_health_factor (counts_api 7 3) Delivered 100 demo_empty = 1 / 2
    \<and> get_health_factor (counts_api 7 3) Reply_Lost 100 demo_empty = 1"
  using health_factor_exact [OF counts_api_window, of 8 2 Delivered 100 demo_empty]
    health_factor_exact [OF counts_api_window, of 7 3 Delivered 100 demo_empty]
    health_factor_exact [OF counts_api_window, of 7 3 Reply_Lost 100 demo_empty]
  by simp

section \<open>The status page against the factor\<close>

lemma round4_mono: "x \<le> y \<Longrightarrow> round4 x \<le> round4 y"
  unfolding round4_def
  by (intro fl.rd_mono divide_right_mono) (simp_all add: rne_mono)

lemma round4_threshold: "round4 ERROR_THRESHOLD = ERROR_THRESHOLD"
proof -
  have "rne (ERROR_THRESHOLD * 10 ^ 4) = 2000"
    by (rule rne_eqI) (simp add: threshold_value)
  then show ?thesis by (simp add: round4_def ERROR_THRESHOLD_def)
qed

lemma rounded_above_threshold:
  assumes "2001 \<le> rne (x * 10 ^ 4)"
  shows "ERROR_THRESHOLD < round4 x"
proof -
  have "fl64 (2001 / 10 ^ 4) \<le> round4 x"
    unfolding round4_def using assms by (intro fl.rd_mono divide_right_mono) simp_all
  moreover have "of_int 7205759403792795 / 2 ^ 55 \<le> fl64 (2001 / 10 ^ 4)"
    by (rule fl.fixed_le_rd) (simp_all add: fl64_dyadic [of 7205759403792795 55, simplified])
  ultimately show ?thesis by (simp add: threshold_value)
qed

lemma rounded_rate_iff:
  assumes "0 < t" "t < 4000"
  shows "ERROR_THRESHOLD < round4 (fl64 (of_nat e / of_nat t)) \<longleftrightarrow> t < 5 * e"
proof
  assume "ERROR_THRESHOLD < round4 (fl64 (of_nat e / of_nat t))"
  then have "\<not> fl64 (of_nat e / of_nat t) \<le> ERROR_THRESHOLD"
    using round4_mono round4_threshold by (metis leD)
  then show "t < 5 * e" using above_threshold_iff [of t e] assms by simp
next
  assume "t < 5 * e"
  let ?y = "of_int 7207561000000000 / 2 ^ 55 :: rat"
  have "(of_nat t + 1 :: rat) \<le> of_nat (5 * e)"
    using \<open>t < 5 * e\<close> by (metis Suc_eq_plus1 Suc_leI of_nat_1 of_nat_add of_nat_le_iff)
  moreover have "(of_nat t :: rat) \<le> 3999"
  proof -
    have "(of_nat t :: rat) \<le> of_nat 3999" unfolding of_nat_le_iff using assms(2) by simp
    then show ?thesis by simp
  qed
  ultimately have "?y \<le> of_nat e / of_nat t" using assms(1) by (simp add: field_simps)
  moreover have "fl64 ?y = ?y" by (rule fl64_dyadic) simp_all
  ultimately have "?y \<le> fl64 (of_nat e / of_nat t)" by (metis fl.rd_mono)
  then have "rne (?y * 10 ^ 4) \<le> rne (fl64 (of_nat e / of_nat t) * 10 ^ 4)"
    by (intro rne_mono) simp
  moreover have "rne (?y * 10 ^ 4) = 2001" by (rule rne_eqI) simp
  ultimately show "ERROR_THRESHOLD < round4 (fl64 (of_nat e / of_nat t))"
    by (intro rounded_above_threshold) simp
qed

text \<open>Below 4000 results in the window the admin page shows what is enforced: its \<open>factor\<close> is
  the one the rate limiter applies, and it says \<open>degraded\<close> exactly when limits are halved.\<close>

lemma status_matches_enforcement:
  assumes "window_counts R now r = (successes, errors)" "successes + errors < 4000"
  shows "json_get (get_health_status R Delivered message now r) ''factor'' =
           Some (JFloat (get_health_factor R Delivered now r))
    \<and> json_get (get_health_status R Delivered message now r) ''status'' =
           Some (JStr (if get_health_factor R Delivered now r = 1 / 2 then ''degraded'' else ''healthy''))"
proof (cases "10 \<le> successes + errors")
  case True
  then have "0 < successes + errors" by linarith
  from rounded_rate_iff [OF this assms(2), of errors] above_threshold_iff [OF this, of errors] assms
  show ?thesis
    by (simp add: get_health_status_def get_health_factor_def Let_def DEGRADED_FACTOR_def)
qed (simp add: get_health_status_def get_health_factor_def Let_def assms(1))

lemma status_matches_enforcement_witness:
  "json_get (get_health_status (counts_api 7 3) Delivered [] 100 demo_empty) ''factor'' =
     Some (JFloat (get_health_factor (counts_api 7 3) Delivered 100 demo_empty))"
  using status_matches_enforcement [OF counts_api_window, where message = "[]"] by simp

text \<open>Beyond that the two disagree, because the page rounds the rate to four digits before it
  compares: with 801 errors among 4004 results the limits are halved while the page reports a
  healthy upstream and factor 1.\<close>

lemma status_disagrees_with_enforcement:
  assumes "window_counts R now r = (3203, 801)"
  shows "get_health_factor R Delivered now r = 1 / 2
    \<and> json_get (get_health_status R Delivered message now r) ''factor'' = Some (JFloat 1)
    \<and> json_get (get_health_status R Delivered message now r) ''status'' = Some (JStr ''healthy'')"
proof -
  have rate: "fl64 (801 / 4004) = of_int 7207559044003531 / 2 ^ 55"
    by (rule fl64_evalI) simp_all
  have "rne (fl64 (801 / 4004) * 10 ^ 4) = 2000"
    unfolding rate by (rule rne_eqI) simp
  then have "round4 (fl64 (801 / 4004)) = ERROR_THRESHOLD"
    by (simp add: round4_def ERROR_THRESHOLD_def)
  moreover have "ERROR_THRESHOLD < fl64 (801 / 4004)" by (simp add: rate threshold_value)
  ultimately show ?thesis
    by (simp add: get_health_factor_def get_health_status_def assms DEGRADED_FACTOR_def)
qed

lemma status_disagrees_with_enforcement_witness:
  "get_health_factor (counts_api 3203 801) Delivered 100 demo_empty = 1 / 2
    \<and> json_get (get_health_status (counts_api 3203 801) Delivered [] 100 demo_empty) ''status''
        = Some (JStr ''healthy'')"
  using status_disagrees_with_enforcement [OF counts_api_window, where message = "[]"] by simp

section \<open>What the window holds\<close>

text \<open>A run of results, recorded in this order.\<close>

definition record_all :: "'r redis_api \<Rightarrow> (rat \<times> bool) list \<Rightarrow> 'r \<Rightarrow> 'r" where
  "record_all R h r = foldl (\<lambda>r (now, success). record_upstream_result R Delivered now success r) r h"

definition key_of :: "bool \<Rightarrow> string" where
  "key_of success = (if success then KEY_SUCCESS else KEY_ERROR)"

definition recorded :: "'r redis_api \<Rightarrow> (rat \<times> bool) list \<Rightarrow> rat \<Rightarrow> 'r \<Rightarrow> bool" where
  "recorded R h now r \<longleftrightarrow>
     (\<forall>b m s. zscore R r (key_of b) m = Some s \<longrightarrow> s = m \<and> (m, b) \<in> set h)
   \<and> (\<forall>b m. (m, b) \<in> set h \<and> fl64 (now - 60) < m \<longrightarrow> zscore R r (key_of b) m = Some m)"

lemma key_of_inj [simp]: "key_of b = key_of c \<longleftrightarrow> b = c"
  by (simp add: key_of_def KEY_SUCCESS_def KEY_ERROR_def)

lemma record_pipeline_score:
  assumes "zset_laws R"
  shows "zscore R (record_pipeline R now success r) (key_of b) m =
    (case if b = success \<and> m = now then Some now else zscore R r (key_of b) m of
       None \<Rightarrow> None
     | Some s \<Rightarrow> if b = success \<and> s \<le> fl64 (now - 60) then None else Some s)"
  using assms
  by (simp add: record_pipeline_def Let_def zset_lawsD key_of_def [of success, symmetric]
        cong: option.case_cong)

lemma recorded_later: "recorded R h t r \<Longrightarrow> t \<le> now \<Longrightarrow> recorded R h now r"
  unfolding recorded_def by (meson diff_right_mono fl.rd_mono order_le_less_trans)

lemma recorded_step:
  assumes "zset_laws R" "recorded R h now r"
  shows "recorded R (h @ [(now, success)]) now (record_upstream_result R Delivered now success r)"
  using assms(2)
  by (auto simp: recorded_def record_upstream_result_def record_pipeline_score [OF assms(1)]
      split: if_splits option.splits)

lemma recorded_run:
  assumes "zset_laws R" "\<forall>b m. zscore R r (key_of b) m = None"
  shows "sorted (map fst h) \<Longrightarrow> \<forall>t\<in>set (map fst h). t \<le> now \<Longrightarrow> recorded R h now (record_all R h r)"
proof (induction h arbitrary: now rule: rev_induct)
  case Nil
  then show ?case using assms(2) by (simp add: recorded_def record_all_def)
next
  case (snoc x h)
  obtain t b where x: "x = (t, b)" by fastforce
  have "recorded R h t (record_all R h r)"
    using snoc.prems by (intro snoc.IH) (auto simp: sorted_append x)
  then have "recorded R (h @ [x]) t (record_all R (h @ [x]) r)"
    using recorded_step [OF assms(1)] by (simp add: record_all_def x)
  then show ?case by (rule recorded_later) (use snoc.prems in \<open>simp add: x\<close>)
qed

lemma recorded_count:
  assumes "zset_laws R" "recorded R h now r"
  shows "card {t. (t, b) \<in> set h \<and> fl64 (now - 60) < t} \<le> zcount R r (key_of b) (fl64 (now - 60))"
    and "zcount R r (key_of b) (fl64 (now - 60)) \<le> card {t. (t, b) \<in> set h \<and> fl64 (now - 60) \<le> t}"
proof -
  let ?M = "{m. \<exists>s. zscore R r (key_of b) m = Some s \<and> fl64 (now - 60) \<le> s}"
  have "finite ?M"
    by (rule finite_subset [OF _ zset_lawsD(4) [OF assms(1), of r "key_of b"]]) auto
  then show "card {t. (t, b) \<in> set h \<and> fl64 (now - 60) < t} \<le> zcount R r (key_of b) (fl64 (now - 60))"
    using assms(2) unfolding zset_lawsD(5) [OF assms(1)]
    by (intro card_mono) (auto simp: recorded_def)
  have "finite {t. (t, b) \<in> set h \<and> fl64 (now - 60) \<le> t}"
    by (rule finite_subset [of _ "fst ` set h"]) (force, simp)
  then show "zcount R r (key_of b) (fl64 (now - 60)) \<le> card {t. (t, b) \<in> set h \<and> fl64 (now - 60) \<le> t}"
    using assms(2) unfolding zset_lawsD(5) [OF assms(1)]
    by (intro card_mono) (auto simp: recorded_def)
qed

text \<open>The sliding window: after any run of results recorded in clock order from empty sets,
  the two counts a reader gets at \<open>now\<close> are the numbers of distinct clock readings of successes
  and of errors since \<open>now - 60\<close>; an entry exactly at that instant may be in or out. Older
  results never count, and pruning never loses one inside the window.\<close>

lemma window_counts_history:
  assumes "zset_laws R" "\<forall>b m. zscore R r (key_of b) m = None"
    and "sorted (map fst h)" "\<forall>t\<in>set (map fst h). t \<le> now"
    and "window_counts R now (record_all R h r) = (successes, errors)"
  shows "card {t. (t, True) \<in> set h \<and> fl64 (now - 60) < t} \<le> successes
    \<and> successes \<le> card {t. (t, True) \<in> set h \<and> fl64 (now - 60) \<le> t}
    \<and> card {t. (t, False) \<in> set h \<and> fl64 (now - 60) < t} \<le> errors
    \<and> errors \<le> card {t. (t, False) \<in> set h \<and> fl64 (now - 60) \<le> t}"
  using recorded_count [OF assms(1) recorded_run [OF assms(1-4)], of True]
    recorded_count [OF assms(1) recorded_run [OF assms(1-4)], of False] assms(5)
  by (auto simp: window_counts_def key_of_def Let_def)

lemma window_counts_history_witness:
  "\<exists>successes errors.
     window_counts demo_api 100 (record_all demo_api [(30, False), (50, True), (60, False), (99, False)] demo_empty)
       = (successes, errors)
     \<and> successes = 1 \<and> errors = 2"
proof -
  let ?h = "[(30, False), (50, True), (60, False), (99, False)] :: (rat \<times> bool) list"
  obtain s e where c: "window_counts demo_api 100 (record_all demo_api ?h demo_empty) = (s, e)" by fastforce
  have "fl64 (100 - 60) = 40" by simp
  note * = window_counts_history [OF demo_zset_laws _ _ _ c, unfolded this]
  have sets: "{t. (t, True) \<in> set ?h \<and> 40 < t} = {50}" "{t. (t, True) \<in> set ?h \<and> 40 \<le> t} = {50}"
    "{t. (t, False) \<in> set ?h \<and> 40 < t} = {60, 99}" "{t. (t, False) \<in> set ?h \<and> 40 \<le> t} = {60, 99}"
    by auto
  have "s = 1 \<and> e = 2" using * unfolding sets by simp
  then show ?thesis using c by blast
qed

end
