(* ===== verification/Database.thy ===== *)
theory Database
  imports Floats "HOL-Library.Multiset"
begin

text \<open>
  The two tables of \<open>app/models/db.py\<close>, and the log store on them:
  \<open>app/infra/log_store/base.py\<close> and \<open>postgres_log_store.py\<close>. A table is its content; the
  primary key of \<open>user_quota_overrides\<close> makes that one a map. Instants are microseconds since
  the epoch. What SQL leaves to the server, the order of rows with equal timestamps and the
  decimal average, is a parameter (\<open>sql\<close>) with the documented laws \<open>sql_laws\<close>.
\<close>

section \<open>Tables\<close>

record UserQuotaOverride =
  q_user_id :: string
  q_custom_limit :: int
  q_reason :: "string option"
  q_created_at :: int
  q_expires_at :: "int option"

record RequestLog =
  rl_id :: int
  rl_request_id :: string
  rl_user_id :: string
  rl_endpoint :: string
  rl_method :: string
  rl_status_code :: int
  rl_latency_ms :: int
  rl_rate_limited :: bool
  rl_ip :: "string option"
  rl_created_at :: int

record db =
  db_quotas :: "string \<rightharpoonup> UserQuotaOverride"
  db_logs :: "RequestLog list"

record sql =
  order_newest :: "RequestLog list \<Rightarrow> RequestLog list"
  sql_avg :: "int list \<Rightarrow> rat"

definition newest_first :: "RequestLog list \<Rightarrow> bool" where
  "newest_first rows \<longleftrightarrow> sorted_wrt (\<lambda>a b. rl_created_at b \<le> rl_created_at a) rows"

definition sql_laws :: "sql \<Rightarrow> bool" where
  "sql_laws Q \<longleftrightarrow>
     (\<forall>rows. mset (order_newest Q rows) = mset rows \<and> newest_first (order_newest Q rows))
   \<and> (\<forall>xs a b. xs \<noteq> [] \<and> (\<forall>x\<in>set xs. a \<le> x \<and> x \<le> b) \<longrightarrow>
        of_int a \<le> sql_avg Q xs \<and> sql_avg Q xs \<le> of_int b)"

section \<open>The log store\<close>

record LogEntry =
  le_request_id :: string
  le_user_id :: string
  le_endpoint :: string
  le_method :: string
  le_status_code :: int
  le_latency_ms :: int
  le_rate_limited :: bool
  le_ip :: "string option"

record LogStats =
  total_requests :: nat
  total_rate_limited :: nat
  avg_latency_ms :: rat
  period_start :: int
  period_end :: int

text \<open>The row the ORM builds; \<open>id\<close> and \<open>created_at\<close> come from the server.\<close>

definition row_of_entry :: "int \<Rightarrow> int \<Rightarrow> LogEntry \<Rightarrow> RequestLog" where
  "row_of_entry row_id created_at e =
     \<lparr>rl_id = row_id, rl_request_id = le_request_id e, rl_user_id = le_user_id e,
      rl_endpoint = le_endpoint e, rl_method = le_method e, rl_status_code = le_status_code e,
      rl_latency_ms = le_latency_ms e, rl_rate_limited = le_rate_limited e, rl_ip = le_ip e,
      rl_created_at = created_at\<rparr>"

definition entry_of_row :: "RequestLog \<Rightarrow> LogEntry" where
  "entry_of_row r =
     \<lparr>le_request_id = rl_request_id r, le_user_id = rl_user_id r, le_endpoint = rl_endpoint r,
      le_method = rl_method r, le_status_code = rl_status_code r, le_latency_ms = rl_latency_ms r,
      le_rate_limited = rl_rate_limited r, le_ip = rl_ip r\<rparr>"

text \<open>The column types: \<open>String(n)\<close> is \<open>varchar(n)\<close>, which refuses longer values, \<open>Integer\<close> has
  32 bits.\<close>

definition row_fits :: "RequestLog \<Rightarrow> bool" where
  "row_fits r \<longleftrightarrow>
     length (rl_request_id r) \<le> 64 \<and> length (rl_user_id r) \<le> 128
   \<and> length (rl_endpoint r) \<le> 512 \<and> length (rl_method r) \<le> 16
   \<and> - (2 ^ 31) \<le> rl_status_code r \<and> rl_status_code r < 2 ^ 31
   \<and> - (2 ^ 31) \<le> rl_latency_ms r \<and> rl_latency_ms r < 2 ^ 31
   \<and> (case rl_ip r of None \<Rightarrow> True | Some ip \<Rightarrow> length ip \<le> 64)"

text \<open>Whether an entry fits does not depend on what the server adds.\<close>

definition entry_fits :: "LogEntry \<Rightarrow> bool" where
  "entry_fits e \<longleftrightarrow> row_fits (row_of_entry 0 0 e)"

lemma row_fits_entry: "row_fits (row_of_entry i t e) \<longleftrightarrow> entry_fits e"
  by (simp add: entry_fits_def row_fits_def row_of_entry_def)

text \<open>\<open>write\<close> swallows every exception: the server down, or a value the columns refuse.\<close>

definition store_write :: "bool \<Rightarrow> int \<Rightarrow> int \<Rightarrow> LogEntry \<Rightarrow> db \<Rightarrow> db" where
  "store_write db_up row_id created_at e d =
     (let row = row_of_entry row_id created_at e
      in if db_up \<and> row_fits row then d\<lparr>db_logs := db_logs d @ [row]\<rparr> else d)"

definition for_user :: "string option \<Rightarrow> RequestLog \<Rightarrow> bool" where
  "for_user user_id r \<longleftrightarrow> (case user_id of None \<Rightarrow> True | Some u \<Rightarrow> rl_user_id r = u)"

definition store_query :: "sql \<Rightarrow> string option \<Rightarrow> nat \<Rightarrow> db \<Rightarrow> LogEntry list" where
  "store_query Q user_id limit d =
     map entry_of_row (take limit (order_newest Q (filter (for_user user_id) (db_logs d))))"

definition day_us :: int where "day_us = 24 * 60 * 60 * 10 ^ 6"

definition day_rows :: "int \<Rightarrow> string option \<Rightarrow> db \<Rightarrow> RequestLog list" where
  "day_rows now user_id d = filter (\<lambda>r. now - day_us \<le> rl_created_at r \<and> for_user user_id r) (db_logs d)"

text \<open>Three statements, each of which sees what is committed when it runs: \<open>d1\<close>, \<open>d2\<close> and \<open>d3\<close>.\<close>

definition store_stats :: "sql \<Rightarrow> int \<Rightarrow> string option \<Rightarrow> db \<Rightarrow> db \<Rightarrow> db \<Rightarrow> LogStats" where
  "store_stats Q now user_id d1 d2 d3 =
     \<lparr>total_requests = length (day_rows now user_id d1),
      total_rate_limited = length (filter rl_rate_limited (day_rows now user_id d2)),
      avg_latency_ms = (if day_rows now user_id d3 = [] then 0
                        else fl64 (sql_avg Q (map rl_latency_ms (day_rows now user_id d3)))),
      period_start = now - day_us,
      period_end = now\<rparr>"

section \<open>An instance, for concrete runs\<close>

definition demo_sql :: sql where
  "demo_sql = \<lparr>order_newest = sort_key (\<lambda>r. - rl_created_at r),
               sql_avg = (\<lambda>xs. of_int (sum_list xs) / of_nat (length xs))\<rparr>"

lemma sum_list_bounds:
  "\<forall>x\<in>set xs. a \<le> x \<and> x \<le> b \<Longrightarrow> int (length xs) * a \<le> sum_list xs \<and> sum_list xs \<le> int (length xs) * b"
  by (induction xs) (auto simp: algebra_simps)

lemma demo_sql_laws: "sql_laws demo_sql"
proof -
  have "newest_first (sort_key (\<lambda>r. - rl_created_at r) rows)" for rows :: "RequestLog list"
    using sorted_sort_key [of "\<lambda>r. - rl_created_at r" rows]
    by (simp add: newest_first_def sorted_wrt_map)
  moreover have "of_int a \<le> (of_int (sum_list xs) / of_nat (length xs) :: rat)
      \<and> of_int (sum_list xs) / of_nat (length xs) \<le> (of_int b :: rat)"
    if "xs \<noteq> []" "\<forall>x\<in>set xs. a \<le> x \<and> x \<le> b" for xs a b
  proof -
    have "(of_int (int (length xs) * a) :: rat) \<le> of_int (sum_list xs)"
      "(of_int (sum_list xs) :: rat) \<le> of_int (int (length xs) * b)"
      using sum_list_bounds [OF that(2)] unfolding of_int_le_iff by simp_all
    then show ?thesis using that(1) by (simp add: field_simps)
  qed
  ultimately show ?thesis unfolding sql_laws_def demo_sql_def by simp blast
qed

section \<open>Properties\<close>

lemma entry_of_row_of_entry [simp]: "entry_of_row (row_of_entry i t e) = e"
  by (simp add: entry_of_row_def row_of_entry_def)

text \<open>\<open>query\<close> returns the newest matching rows: at most \<open>limit\<close> of them, as many as there
  are up to \<open>limit\<close>, only of the requested user, newest first, and every matching row left out
  is no newer than any row returned.\<close>

lemma query_returns_newest:
  assumes "sql_laws Q"
  shows "\<exists>rows omitted. store_query Q user_id limit d = map entry_of_row rows
    \<and> mset rows + mset omitted = mset (filter (for_user user_id) (db_logs d))
    \<and> length rows = min limit (length (filter (for_user user_id) (db_logs d)))
    \<and> newest_first rows
    \<and> (\<forall>r\<in>set rows. \<forall>x\<in>set omitted. rl_created_at x \<le> rl_created_at r)"
proof (intro exI conjI)
  let ?o = "order_newest Q (filter (for_user user_id) (db_logs d))"
  have o: "mset ?o = mset (filter (for_user user_id) (db_logs d))" "newest_first ?o"
    using assms by (simp_all add: sql_laws_def)
  show "store_query Q user_id limit d = map entry_of_row (take limit ?o)"
    by (simp add: store_query_def)
  show "mset (take limit ?o) + mset (drop limit ?o) = mset (filter (for_user user_id) (db_logs d))"
    using o(1) by (simp flip: mset_append)
  show "length (take limit ?o) = min limit (length (filter (for_user user_id) (db_logs d)))"
    using mset_eq_length [OF o(1)] by simp
  have "newest_first (take limit ?o @ drop limit ?o)" using o(2) by simp
  then show "newest_first (take limit ?o)"
    "\<forall>r\<in>set (take limit ?o). \<forall>x\<in>set (drop limit ?o). rl_created_at x \<le> rl_created_at r"
    unfolding newest_first_def sorted_wrt_append by blast+
qed

lemma query_returns_newest_witness:
  "let e = \<lparr>le_request_id = ''r'', le_user_id = ''a'', le_endpoint = ''/x'', le_method = ''GET'',
            le_status_code = 200, le_latency_ms = 3, le_rate_limited = False, le_ip = None\<rparr>;
       d = \<lparr>db_quotas = Map.empty, db_logs = [row_of_entry 1 10 e, row_of_entry 2 30 e, row_of_entry 3 20 e]\<rparr>
   in \<exists>rows. store_query demo_sql (Some ''a'') 2 d = map entry_of_row rows
        \<and> length rows = 2 \<and> newest_first rows"
  unfolding Let_def
  using query_returns_newest [OF demo_sql_laws, of "Some ''a''" 2]
  by (fastforce simp: for_user_def row_of_entry_def)

text \<open>\<open>stats\<close> counts exactly the last 24 hours: the totals are the numbers of matching rows and
  of rate-limited ones among them, the average lies between any bounds on the latencies (and is
  0 for no rows), each at the time of its statement, and the reported period is the day that ends
  now.\<close>

lemma day_rows_count:
  "length (day_rows now user_id d) =
     card {i. i < length (db_logs d) \<and> now - day_us \<le> rl_created_at (db_logs d ! i) \<and> for_user user_id (db_logs d ! i)}"
  "length (filter rl_rate_limited (day_rows now user_id d)) =
     card {i. i < length (db_logs d) \<and> now - day_us \<le> rl_created_at (db_logs d ! i)
              \<and> for_user user_id (db_logs d ! i) \<and> rl_rate_limited (db_logs d ! i)}"
proof -
  show "length (day_rows now user_id d) =
     card {i. i < length (db_logs d) \<and> now - day_us \<le> rl_created_at (db_logs d ! i) \<and> for_user user_id (db_logs d ! i)}"
    unfolding day_rows_def by (rule length_filter_conv_card)
  have "filter rl_rate_limited (day_rows now user_id d) =
      filter (\<lambda>r. now - day_us \<le> rl_created_at r \<and> for_user user_id r \<and> rl_rate_limited r) (db_logs d)"
    by (simp add: day_rows_def conj_assoc)
  then show "length (filter rl_rate_limited (day_rows now user_id d)) =
     card {i. i < length (db_logs d) \<and> now - day_us \<le> rl_created_at (db_logs d ! i)
              \<and> for_user user_id (db_logs d ! i) \<and> rl_rate_limited (db_logs d ! i)}"
    by (simp only: length_filter_conv_card)
qed

lemma stats_last_day:
  assumes "sql_laws Q"
    and "\<forall>r\<in>set (db_logs d3). lo \<le> rl_latency_ms r \<and> rl_latency_ms r \<le> hi"
    and "\<bar>lo\<bar> \<le> 2 ^ 31" "\<bar>hi\<bar> \<le> 2 ^ 31" and "s = store_stats Q now user_id d1 d2 d3"
  shows "total_requests s =
      card {i. i < length (db_logs d1) \<and> now - day_us \<le> rl_created_at (db_logs d1 ! i)
               \<and> for_user user_id (db_logs d1 ! i)}
    \<and> total_rate_limited s =
      card {i. i < length (db_logs d2) \<and> now - day_us \<le> rl_created_at (db_logs d2 ! i)
               \<and> for_user user_id (db_logs d2 ! i) \<and> rl_rate_limited (db_logs d2 ! i)}
    \<and> (if day_rows now user_id d3 = [] then avg_latency_ms s = 0
       else of_int lo \<le> avg_latency_ms s \<and> avg_latency_ms s \<le> of_int hi)
    \<and> period_end s = now \<and> period_end s - period_start s = day_us"
proof -
  let ?rows = "day_rows now user_id d3"
  have avg: "of_int lo \<le> fl64 (sql_avg Q (map rl_latency_ms ?rows))
      \<and> fl64 (sql_avg Q (map rl_latency_ms ?rows)) \<le> of_int hi" if "?rows \<noteq> []"
  proof -
    have "\<forall>x\<in>set (map rl_latency_ms ?rows). lo \<le> x \<and> x \<le> hi" using assms(2) by (auto simp: day_rows_def)
    moreover have "map rl_latency_ms ?rows \<noteq> []" using that by simp
    ultimately have "of_int lo \<le> sql_avg Q (map rl_latency_ms ?rows)
        \<and> sql_avg Q (map rl_latency_ms ?rows) \<le> of_int hi"
      using assms(1) unfolding sql_laws_def by blast
    then show ?thesis using assms(3,4) by (auto intro!: fl.int_le_rd fl.rd_le_int)
  qed
  then show ?thesis by (simp add: assms(5) store_stats_def day_rows_count)
qed

lemma stats_last_day_witness:
  "\<exists>d. length (db_logs d) = 2 \<and> total_requests (store_stats demo_sql (day_us + 15) None d d d) =
      card {i. i < length (db_logs d) \<and> (day_us + 15) - day_us \<le> rl_created_at (db_logs d ! i)
               \<and> for_user None (db_logs d ! i)}"
proof -
  let ?e = "\<lparr>le_request_id = ''r'', le_user_id = ''a'', le_endpoint = ''/x'', le_method = ''GET'',
           le_status_code = 200, le_latency_ms = 3, le_rate_limited = False, le_ip = None\<rparr>"
  let ?d = "\<lparr>db_quotas = Map.empty, db_logs = [row_of_entry 1 10 ?e, row_of_entry 2 30 ?e]\<rparr>"
  have "\<forall>r\<in>set (db_logs ?d). 3 \<le> rl_latency_ms r \<and> rl_latency_ms r \<le> 3"
    by (simp add: row_of_entry_def)
  from stats_last_day [OF demo_sql_laws this _ _ refl, of "day_us + 15" None ?d ?d]
  show ?thesis by (intro exI [of _ ?d]) simp
qed

text \<open>The two counts agree when nothing is written between the statements; a rate-limited request that
  is logged in between is counted by the second only.\<close>

lemma day_rows_append:
  "db_logs d2 = db_logs d1 @ new \<Longrightarrow>
     length (filter rl_rate_limited (day_rows now user_id d2)) \<le>
       length (day_rows now user_id d1) + length (filter rl_rate_limited new)"
proof -
  assume new: "db_logs d2 = db_logs d1 @ new"
  let ?p = "\<lambda>r. now - day_us \<le> rl_created_at r \<and> for_user user_id r"
  have "length (filter rl_rate_limited (filter ?p new)) \<le> length (filter rl_rate_limited new)"
    by (induction new) auto
  moreover have "length (filter rl_rate_limited (filter ?p (db_logs d1))) \<le> length (filter ?p (db_logs d1))"
    by (rule length_filter_le)
  ultimately show ?thesis unfolding day_rows_def new filter_append length_append by linarith
qed

lemma stats_torn:
  "\<exists>d d'. (\<exists>r. db_logs d' = db_logs d @ [r])
     \<and> total_requests (store_stats demo_sql day_us None d d' d') < total_rate_limited (store_stats demo_sql day_us None d d' d')"
proof -
  let ?e = "\<lparr>le_request_id = ''r'', le_user_id = ''a'', le_endpoint = ''/x'', le_method = ''GET'',
           le_status_code = 429, le_latency_ms = 3, le_rate_limited = True, le_ip = None\<rparr>"
  show ?thesis
    by (rule exI [of _ "\<lparr>db_quotas = Map.empty, db_logs = []\<rparr>"],
        rule exI [of _ "\<lparr>db_quotas = Map.empty, db_logs = [row_of_entry 1 10 ?e]\<rparr>"])
       (simp add: store_stats_def day_rows_def row_of_entry_def for_user_def)
qed

text \<open>A written entry is what the admin then reads: with the database up and every value
  within its column, writing an entry later than all stored rows makes it the first entry of the
  user's log, unchanged; if the database is down, or a value is too long for its column, the
  write is dropped and nothing else changes.\<close>

lemma write_then_query:
  assumes "sql_laws Q" "\<forall>r\<in>set (db_logs d). rl_created_at r < t" "0 < limit"
    and "user_id = None \<or> user_id = Some (le_user_id e)"
  shows "(if db_up \<and> row_fits (row_of_entry i t e)
          then \<exists>rest. store_query Q user_id limit (store_write db_up i t e d) = e # rest
          else store_write db_up i t e d = d)
    \<and> db_quotas (store_write db_up i t e d) = db_quotas d"
proof -
  let ?row = "row_of_entry i t e"
  let ?rows = "filter (for_user user_id) (db_logs d @ [?row])"
  let ?o = "order_newest Q ?rows"
  have o: "mset ?o = mset ?rows" "newest_first ?o" using assms(1) by (simp_all add: sql_laws_def)
  have mem: "?row \<in> set ?rows" using assms(4) by (auto simp: for_user_def row_of_entry_def)
  have "\<exists>rest. ?o = ?row # rest"
  proof (cases ?o)
    case Nil
    then show ?thesis using o(1) mem by (metis empty_iff mset_zero_iff_right list.set(1))
  next
    case (Cons x rest)
    have set: "set ?o = set ?rows" using o(1) by (metis set_mset_mset)
    have "x = ?row"
    proof (rule ccontr)
      assume ne: "x \<noteq> ?row"
      have "x \<in> set ?rows" using set Cons by (metis list.set_intros(1))
      with ne have "x \<in> set (db_logs d)" by (simp split: if_splits)
      then have "rl_created_at x < t" using assms(2) by blast
      moreover have "?row \<in> set ?o" using mem set by (simp only:)
      then have "?row \<in> set rest" using ne Cons by simp
      then have "rl_created_at ?row \<le> rl_created_at x"
        using o(2) Cons by (auto simp: newest_first_def)
      ultimately show False by (simp add: row_of_entry_def)
    qed
    with Cons show ?thesis by blast
  qed
  then show ?thesis
    using assms(3) by (cases limit) (auto simp: store_query_def store_write_def Let_def)
qed

lemma write_then_query_witness:
  "\<exists>e rest. store_query demo_sql None 5 (store_write True 1 7 e \<lparr>db_quotas = Map.empty, db_logs = []\<rparr>) = e # rest
    \<and> le_status_code e = 429"
proof -
  let ?e = "\<lparr>le_request_id = ''r'', le_user_id = ''a'', le_endpoint = ''/x'', le_method = ''GET'',
           le_status_code = 429, le_latency_ms = 3, le_rate_limited = True, le_ip = None\<rparr>"
  have "row_fits (row_of_entry 1 7 ?e)" by (simp add: row_fits_def row_of_entry_def)
  then show ?thesis
    using write_then_query [OF demo_sql_laws, of "\<lparr>db_quotas = Map.empty, db_logs = []\<rparr>" 7 5 None ?e True 1]
    by (intro exI [of _ ?e]) simp
qed

end
