(* ===== verification/Diagnostics.thy ===== *)
theory Diagnostics
  imports Circuit_Breaker Upstream_Health Database
begin

text \<open>
  What the components write to the log while they serve, as the level and the message of each line:
  the breaker's transitions (\<open>infra/circuit_breaker.py\<close>), the limiter that fails open
  (\<open>infra/rate_limiter/redis_limiter.py\<close>), the degraded upstream (\<open>services/upstream_health.py\<close>) and
  the log write that failed (\<open>infra/log_store/postgres_log_store.py\<close>), and the representations of the
  rows (\<open>models/db.py\<close>). The lines are functions of what the operation sees, beside the operations
  of the other theories. Text is in UTF-8.
\<close>

section \<open>Messages\<close>

text \<open>\<open>msg % args\<close>, with the conversions the code uses: \<open>%s\<close>, \<open>%d\<close>, \<open>%.Nf\<close> of one digit N, \<open>%%\<close>. Anything
  else, and a wrong number of arguments, is an error (\<open>None\<close>), for which \<open>logging\<close> writes no line.\<close>

datatype py_arg = Arg_Str string | Arg_Int int | Arg_Float rat

definition fixed_point :: "nat \<Rightarrow> rat \<Rightarrow> string" where
  "fixed_point d x =
     (let n = rne (\<bar>x\<bar> * 10 ^ d); frac = int_str (n mod 10 ^ d)
      in (if x < 0 then ''-'' else []) @ int_str (n div 10 ^ d)
         @ (if d = 0 then [] else ''.'' @ replicate (d - length frac) (CHR ''0'') @ frac))"

definition convert_s :: "py_arg \<Rightarrow> string option" where
  "convert_s a = (case a of Arg_Str s \<Rightarrow> Some s | Arg_Int n \<Rightarrow> Some (int_str n) | Arg_Float x \<Rightarrow> None)"

definition convert_d :: "py_arg \<Rightarrow> string option" where
  "convert_d a = (case a of Arg_Int n \<Rightarrow> Some (int_str n) | _ \<Rightarrow> None)"

definition convert_f :: "nat \<Rightarrow> py_arg \<Rightarrow> string option" where
  "convert_f d a = (case a of Arg_Float x \<Rightarrow> Some (fixed_point d x) | _ \<Rightarrow> None)"

definition digit :: "char \<Rightarrow> nat option" where
  "digit c = (let n = of_char c :: nat in if 48 \<le> n \<and> n \<le> 57 then Some (n - 48) else None)"

text \<open>One conversion, after the percent sign: what it puts, and what is left of the format and of
  the arguments.\<close>

definition conversion :: "string \<Rightarrow> py_arg list \<Rightarrow> (string \<times> string \<times> py_arg list) option" where
  "conversion s args =
     (case s of
        [] \<Rightarrow> None
      | c # s \<Rightarrow>
          if c = CHR ''%'' then Some (''%'', s, args)
          else case args of
            [] \<Rightarrow> None
          | a # args \<Rightarrow>
              if c = CHR ''s'' then map_option (\<lambda>t. (t, s, args)) (convert_s a)
              else if c = CHR ''d'' then map_option (\<lambda>t. (t, s, args)) (convert_d a)
              else if c = CHR ''.'' then
                (case s of
                   p # f # s \<Rightarrow>
                     (case digit p of
                        Some d \<Rightarrow> if f = CHR ''f'' then map_option (\<lambda>t. (t, s, args)) (convert_f d a) else None
                      | None \<Rightarrow> None)
                 | _ \<Rightarrow> None)
              else None)"

lemma conversion_shorter: "conversion s args = Some (t, s', args') \<Longrightarrow> length s' < length s"
  by (auto simp: conversion_def split: list.splits if_splits option.splits)

function percent :: "string \<Rightarrow> py_arg list \<Rightarrow> string option" where
  "percent [] args = (if args = [] then Some [] else None)"
| "percent (c # s) args =
     (if c \<noteq> CHR ''%'' then map_option ((#) c) (percent s args)
      else case conversion s args of
        None \<Rightarrow> None
      | Some (t, s', args') \<Rightarrow> map_option ((@) t) (percent s' args'))"
  by pat_completeness auto
termination
  by (relation "measure (\<lambda>(s, args). length s)") (auto dest: conversion_shorter)

lemma percent_text [simp]: "CHR ''%'' \<notin> set t \<Longrightarrow> percent (t @ s) args = map_option ((@) t) (percent s args)"
proof (induction t)
  case Nil
  then show ?case by (cases "percent s args") simp_all
next
  case (Cons c t)
  then show ?case by (cases "percent s args") auto
qed

type_synonym log_line = "string \<times> string"

definition log_line :: "string \<Rightarrow> string \<Rightarrow> py_arg list \<Rightarrow> log_line list" where
  "log_line levelname fmt args = (case percent fmt args of None \<Rightarrow> [] | Some m \<Rightarrow> [(levelname, m)])"

section \<open>The breaker\<close>

definition arrow :: string where
  "arrow = [CHR 0xE2, CHR 0x86, CHR 0x92]"

definition half_open_format :: string where
  "half_open_format = ''Circuit %s '' @ arrow @ '' half_open (probing after %.0fs)''"

definition open_format :: string where
  "open_format = ''Circuit %s '' @ arrow @ '' open (failures=%d)''"

definition closed_format :: string where
  "closed_format = ''Circuit %s '' @ arrow @ '' closed (recovered)''"

definition cb_admit_lines :: "string \<Rightarrow> rat \<Rightarrow> CircuitBreaker \<Rightarrow> log_line list" where
  "cb_admit_lines name now b =
     (if cb_state b = OPEN then
        if cb_recovery_timeout b \<le> fl64 (now - cb_opened_at b)
        then log_line ''WARNING'' half_open_format
               [Arg_Str name, Arg_Float (cb_recovery_timeout b)]
        else []
      else [])"

definition cb_failure_lines :: "string \<Rightarrow> CircuitBreaker \<Rightarrow> log_line list" where
  "cb_failure_lines name b =
     (let b = b\<lparr>cb_failures := cb_failures b + 1\<rparr>
      in if cb_state b = HALF_OPEN \<or> cb_threshold b \<le> cb_failures b
         then log_line ''WARNING'' open_format [Arg_Str name, Arg_Int (cb_failures b)]
         else [])"

definition cb_success_lines :: "string \<Rightarrow> CircuitBreaker \<Rightarrow> log_line list" where
  "cb_success_lines name b =
     (if cb_state b = HALF_OPEN then log_line ''INFO'' closed_format [Arg_Str name]
      else [])"

fun cb_event_lines :: "string \<Rightarrow> cb_event \<Rightarrow> CircuitBreaker \<Rightarrow> log_line list" where
  "cb_event_lines name (Admit t) b = cb_admit_lines name t b"
| "cb_event_lines name (Reject t) b = cb_admit_lines name t b"
| "cb_event_lines name (Fail t) b = cb_failure_lines name b"
| "cb_event_lines name Succeed b = cb_success_lines name b"
| "cb_event_lines name Cancel b = []"

inductive cb_logged_run :: "string \<Rightarrow> cb_sys \<Rightarrow> cb_event list \<Rightarrow> cb_sys \<Rightarrow> log_line list \<Rightarrow> bool" where
  logged_nil: "cb_logged_run name s [] s []"
| logged_cons: "cb_step s e s' \<Longrightarrow> cb_logged_run name s' es s'' lines \<Longrightarrow>
    cb_logged_run name s (e # es) s'' (cb_event_lines name e (brk s) @ lines)"

inductive_simps cb_logged_run_Nil: "cb_logged_run name s [] s' lines"
inductive_simps cb_logged_run_Cons: "cb_logged_run name s (e # es) s' lines"

text \<open>The state a line of the breaker names: the word after the arrow.\<close>

definition named_state :: "string \<Rightarrow> log_line \<Rightarrow> string" where
  "named_state name line =
     takeWhile (\<lambda>c. c \<noteq> CHR '' '') (drop (length (''Circuit '' @ name @ '' '' @ arrow @ '' '')) (snd line))"

text \<open>Exactly the changes of state are logged, a late failure of an open breaker again as open.\<close>

lemma cb_line_texts:
  "log_line l half_open_format [Arg_Str name, Arg_Float x] =
     [(l, ''Circuit '' @ name @ '' '' @ arrow @ '' half_open (probing after '' @ fixed_point 0 x @ ''s)'')]"
  "log_line l open_format [Arg_Str name, Arg_Int n] =
     [(l, ''Circuit '' @ name @ '' '' @ arrow @ '' open (failures='' @ int_str n @ '')'')]"
  "log_line l closed_format [Arg_Str name] =
     [(l, ''Circuit '' @ name @ '' '' @ arrow @ '' closed (recovered)'')]"
  by (simp_all add: log_line_def half_open_format_def open_format_def closed_format_def arrow_def conversion_def convert_s_def convert_d_def convert_f_def digit_def)

lemma cb_event_lines_state:
  assumes "cb_step s e s'"
  shows "cb_event_lines name e (brk s) = [] \<and> cb_state (brk s') = cb_state (brk s)
    \<or> (\<exists>line. cb_event_lines name e (brk s) = [line] \<and> named_state name line = state_value (cb_state (brk s')))"
  using assms
  by cases (auto simp: cb_admit_lines_def cb_failure_lines_def cb_success_lines_def cb_line_texts named_state_def cb_defs)

lemma logged_run_state:
  assumes "cb_logged_run name s es s' lines"
  shows "if lines = [] then cb_state (brk s') = cb_state (brk s)
    else named_state name (last lines) = state_value (cb_state (brk s'))"
  using assms
proof (induction rule: cb_logged_run.induct)
  case (logged_cons s e s' name es s'' lines)
  from cb_event_lines_state [OF logged_cons.hyps(1), of name] logged_cons.IH show ?case by auto
qed simp

definition told_state :: "string \<Rightarrow> log_line list \<Rightarrow> string" where
  "told_state name lines = (if lines = [] then state_value CLOSED else named_state name (last lines))"

text \<open>Every run is logged, in one way.\<close>

lemma run_has_log: "cb_run s es s' \<Longrightarrow> \<exists>lines. cb_logged_run name s es s' lines"
  by (induction rule: cb_run.induct) (auto intro: cb_logged_run.intros)

text \<open>C9. The log tells the state: whatever calls of the breaker come and go, overlap and are cancelled,
  in whatever order their results arrive, the last line that the breaker has logged names the
  state it is in, and a breaker that has logged nothing is closed. (The line that the circuit closed
  is at level \<open>INFO\<close>, so the printed log tells this at that level or below.)\<close>

theorem breaker_log_tells_state:
  assumes "cb_logged_run name (start_sys threshold timeout) es s lines"
  shows "told_state name lines = state_value (cb_state (brk s))"
  using logged_run_state [OF assms] by (auto simp: told_state_def start_sys_def new_breaker_def split: if_splits)

theorem breaker_log_tells_state_witness:
  "\<exists>s lines. cb_logged_run ''upstream'' (start_sys 1 60) [Admit 10, Fail 11, Admit 72] s lines
     \<and> told_state ''upstream'' lines = ''half_open''"
proof -
  have "\<exists>s lines. cb_logged_run ''upstream'' (start_sys 1 60) [Admit 10, Fail 11, Admit 72] s lines
      \<and> cb_state (brk s) = HALF_OPEN"
    by (auto simp: cb_logged_run_Cons cb_logged_run_Nil cb_step_simps start_sys_def new_breaker_def cb_defs)
  then show ?thesis using breaker_log_tells_state by fastforce
qed

section \<open>Degradations\<close>

text \<open>\<open>exc\<close> is \<open>str(exc)\<close>.\<close>

definition fail_open_format :: string where
  "fail_open_format = ''Redis unreachable '' @ [CHR 0xE2, CHR 0x80, CHR 0x94] @ '' failing open for key=%s: %s''"

definition redis_check_lines ::
  "'r redis_api \<Rightarrow> delivery \<Rightarrow> int \<Rightarrow> string \<Rightarrow> int \<Rightarrow> int \<Rightarrow> string \<Rightarrow> 'r \<Rightarrow> log_line list" where
  "redis_check_lines R dlv epoch_now key limit window_seconds exc r =
     (if window_seconds = 0 then []
      else
        let refill_rate = fl64 (of_int limit / of_int window_seconds)
        in case fst (run_script R dlv key (fl64 (of_int limit)) refill_rate (of_int epoch_now) r) of
             Inl e \<Rightarrow> log_line ''WARNING'' fail_open_format [Arg_Str key, Arg_Str exc]
           | Inr reply \<Rightarrow> [])"

definition health_factor_lines :: "'r redis_api \<Rightarrow> delivery \<Rightarrow> rat \<Rightarrow> 'r \<Rightarrow> log_line list" where
  "health_factor_lines R dlv now r =
     (if dlv \<noteq> Delivered then []
      else
        let (successes, errors) = window_counts R now r;
            total = successes + errors
        in if total < 10 then []
           else
             let error_rate = fl64 (of_nat errors / of_nat total)
             in if ERROR_THRESHOLD < error_rate
                then log_line ''WARNING'' ''Upstream degraded: error_rate=%.1f%% (%d/%d in last %ds)''
                       [Arg_Float (fl64 (error_rate * 100)), Arg_Int (int errors), Arg_Int (int total), Arg_Int 60]
                else [])"

definition store_write_lines :: "bool \<Rightarrow> int \<Rightarrow> int \<Rightarrow> string \<Rightarrow> LogEntry \<Rightarrow> log_line list" where
  "store_write_lines db_up row_id created_at exc e =
     (if db_up \<and> row_fits (row_of_entry row_id created_at e) then []
      else log_line ''WARNING'' ''Log write failed: %s'' [Arg_Str exc])"

lemma degradation_texts:
  "log_line l fail_open_format [Arg_Str key, Arg_Str exc] =
     [(l, ''Redis unreachable '' @ [CHR 0xE2, CHR 0x80, CHR 0x94] @ '' failing open for key='' @ key @ '': '' @ exc)]"
  "log_line l ''Upstream degraded: error_rate=%.1f%% (%d/%d in last %ds)''
     [Arg_Float x, Arg_Int m, Arg_Int n, Arg_Int 60] =
     [(l, ''Upstream degraded: error_rate='' @ fixed_point 1 x @ ''% ('' @ int_str m @ ''/'' @ int_str n @ '' in last 60s)'')]"
  "log_line l ''Log write failed: %s'' [Arg_Str exc] = [(l, ''Log write failed: '' @ exc)]"
proof -
  have "int_str 60 = ''60''" by code_simp
  then show "log_line l ''Upstream degraded: error_rate=%.1f%% (%d/%d in last %ds)''
     [Arg_Float x, Arg_Int m, Arg_Int n, Arg_Int 60] =
     [(l, ''Upstream degraded: error_rate='' @ fixed_point 1 x @ ''% ('' @ int_str m @ ''/'' @ int_str n @ '' in last 60s)'')]"
    by (simp add: log_line_def conversion_def convert_d_def convert_f_def digit_def)
qed (simp_all add: log_line_def fail_open_format_def conversion_def convert_s_def)

text \<open>Nothing degrades without a warning: the limiter warns exactly when it fails open, the health
  factor exactly when it halves the limits, the log store exactly when an entry is lost, one line
  each, which names the key, the counts, or the error.\<close>

lemma degradations_logged:
  shows "fst (redis_check R dlv now key limit window r) = Inr result \<Longrightarrow>
      redis_check_lines R dlv now key limit window exc r =
        (if lr_degraded result
         then [(''WARNING'', ''Redis unreachable '' @ [CHR 0xE2, CHR 0x80, CHR 0x94] @ '' failing open for key='' @ key @ '': '' @ exc)]
         else [])"
    and "window_counts R t r = (successes, errors) \<Longrightarrow>
      health_factor_lines R dlv t r =
        (if get_health_factor R dlv t r < 1
         then [(''WARNING'', ''Upstream degraded: error_rate='' @ fixed_point 1 (fl64 (fl64 (of_nat errors / of_nat (successes + errors)) * 100))
                 @ ''% ('' @ int_str (int errors) @ ''/'' @ int_str (int (successes + errors)) @ '' in last 60s)'')]
         else [])"
    and "store_write_lines db_up i c exc e =
        (if db_logs (store_write db_up i c e d) = db_logs d then [(''WARNING'', ''Log write failed: '' @ exc)] else [])"
proof -
  show "redis_check_lines R dlv now key limit window exc r =
        (if lr_degraded result
         then [(''WARNING'', ''Redis unreachable '' @ [CHR 0xE2, CHR 0x80, CHR 0x94] @ '' failing open for key='' @ key @ '': '' @ exc)]
         else [])" if "fst (redis_check R dlv now key limit window r) = Inr result"
    using that by (auto simp: redis_check_def redis_check_lines_def fail_open_def Let_def degradation_texts
        split: if_splits prod.splits sum.splits)
  show "health_factor_lines R dlv t r =
        (if get_health_factor R dlv t r < 1
         then [(''WARNING'', ''Upstream degraded: error_rate='' @ fixed_point 1 (fl64 (fl64 (of_nat errors / of_nat (successes + errors)) * 100))
                 @ ''% ('' @ int_str (int errors) @ ''/'' @ int_str (int (successes + errors)) @ '' in last 60s)'')]
         else [])" if "window_counts R t r = (successes, errors)"
    using that by (simp add: health_factor_lines_def get_health_factor_def Let_def DEGRADED_FACTOR_def degradation_texts)
  show "store_write_lines db_up i c exc e =
        (if db_logs (store_write db_up i c e d) = db_logs d then [(''WARNING'', ''Log write failed: '' @ exc)] else [])"
    by (simp add: store_write_lines_def store_write_def Let_def degradation_texts)
qed

section \<open>Rows\<close>

definition RequestLog_repr :: "RequestLog \<Rightarrow> string" where
  "RequestLog_repr r =
     ''<RequestLog id='' @ int_str (rl_id r) @ '' user='' @ rl_user_id r @ '' ''
     @ ''endpoint='' @ rl_endpoint r @ '' status='' @ int_str (rl_status_code r) @ ''>''"

definition UserQuotaOverride_repr :: "UserQuotaOverride \<Rightarrow> string" where
  "UserQuotaOverride_repr q =
     ''<UserQuotaOverride user='' @ q_user_id q @ '' '' @ ''limit='' @ int_str (q_custom_limit q) @ ''/min>''"

text \<open>Two users of the kind the gateway's tokens name, without blanks, have different representations,
  and so do two limits of one user.\<close>

lemma UserQuotaOverride_repr_inj:
  assumes "UserQuotaOverride_repr q = UserQuotaOverride_repr q'" "CHR '' '' \<notin> set (q_user_id q) \<union> set (q_user_id q')"
  shows "q_user_id q = q_user_id q' \<and> q_custom_limit q = q_custom_limit q'"
proof -
  have eq: "q_user_id q @ CHR '' '' # ''limit='' @ int_str (q_custom_limit q) @ ''/min>'' =
      q_user_id q' @ CHR '' '' # ''limit='' @ int_str (q_custom_limit q') @ ''/min>''"
    using assms(1) by (simp add: UserQuotaOverride_repr_def)
  have cut: "split_on (CHR '' '') (u @ CHR '' '' # r) = u # split_on (CHR '' '') r" if "CHR '' '' \<notin> set u" for u r
    using that by (rule split_on_append)
  have "q_user_id q = q_user_id q'" using arg_cong [OF eq, of "\<lambda>s. hd (split_on (CHR '' '') s)"] assms(2) by (simp add: cut)
  moreover from this have "int_str (q_custom_limit q) = int_str (q_custom_limit q')" using eq by simp
  ultimately show ?thesis using int_str_inj by blast
qed

end
