(* ===== verification/Errors.thy ===== *)
theory Errors
  imports Http
begin

text \<open>
  The exception hierarchy of \<open>app/core/errors.py\<close>, its class attributes with Python's
  attribute inheritance, \<open>build_error_response\<close>, and the global handler of \<open>app/main.py\<close> that
  turns a \<open>GatewayError\<close> raised by a route into a response.
\<close>

section \<open>The classes\<close>

datatype error_class =
    GatewayError
  | AuthError
  | TokenExpiredError
  | InvalidTokenError
  | ForbiddenError
  | RateLimitExceeded
  | UpstreamError
  | UpstreamTimeout
  | NotFoundError

text \<open>The method resolution order, up to \<open>GatewayError\<close>.\<close>

primrec mro :: "error_class \<Rightarrow> error_class list" where
  "mro GatewayError = [GatewayError]"
| "mro AuthError = [AuthError, GatewayError]"
| "mro TokenExpiredError = [TokenExpiredError, AuthError, GatewayError]"
| "mro InvalidTokenError = [InvalidTokenError, AuthError, GatewayError]"
| "mro ForbiddenError = [ForbiddenError, GatewayError]"
| "mro RateLimitExceeded = [RateLimitExceeded, GatewayError]"
| "mro UpstreamError = [UpstreamError, GatewayError]"
| "mro UpstreamTimeout = [UpstreamTimeout, UpstreamError, GatewayError]"
| "mro NotFoundError = [NotFoundError, GatewayError]"

text \<open>The attributes a class body sets itself.\<close>

fun own_status_code :: "error_class \<Rightarrow> int option" where
  "own_status_code GatewayError = Some 500"
| "own_status_code AuthError = Some 401"
| "own_status_code ForbiddenError = Some 403"
| "own_status_code RateLimitExceeded = Some 429"
| "own_status_code UpstreamError = Some 502"
| "own_status_code UpstreamTimeout = Some 504"
| "own_status_code NotFoundError = Some 404"
| "own_status_code _ = None"

primrec own_code :: "error_class \<Rightarrow> string" where
  "own_code GatewayError = ''INTERNAL_ERROR''"
| "own_code AuthError = ''UNAUTHORIZED''"
| "own_code TokenExpiredError = ''TOKEN_EXPIRED''"
| "own_code InvalidTokenError = ''INVALID_TOKEN''"
| "own_code ForbiddenError = ''FORBIDDEN''"
| "own_code RateLimitExceeded = ''RATE_LIMITED''"
| "own_code UpstreamError = ''UPSTREAM_ERROR''"
| "own_code UpstreamTimeout = ''UPSTREAM_TIMEOUT''"
| "own_code NotFoundError = ''NOT_FOUND''"

definition status_code :: "error_class \<Rightarrow> int" where
  "status_code c = hd (List.map_filter own_status_code (mro c))"

definition isinstance :: "error_class \<Rightarrow> error_class \<Rightarrow> bool" where
  "isinstance c k \<longleftrightarrow> k \<in> set (mro c)"

record gateway_error =
  exc_class :: error_class
  exc_message :: string
  exc_details :: "(string \<times> json) list"

definition new_error :: "error_class \<Rightarrow> string \<Rightarrow> (string \<times> json) list option \<Rightarrow> gateway_error" where
  "new_error c message details =
     \<lparr>exc_class = c, exc_message = message,
      exc_details = (case details of None \<Rightarrow> [] | Some d \<Rightarrow> d)\<rparr>"

section \<open>The error body and the global handler\<close>

definition build_error_response :: "gateway_error \<Rightarrow> string option \<Rightarrow> json" where
  "build_error_response exc request_id =
     JObj ([(''error'', JObj ([(''code'', JStr (own_code (exc_class exc))),
                               (''message'', JStr (exc_message exc))]
                @ (if exc_details exc \<noteq> [] then [(''details'', JObj (exc_details exc))] else [])))]
           @ (case request_id of
                None \<Rightarrow> []
              | Some r \<Rightarrow> if r \<noteq> [] then [(''request_id'', JStr r)] else []))"

text \<open>\<open>str\<close> of the details value the handler prints; the code only ever puts integers there.\<close>

fun retry_header :: "json option \<Rightarrow> (string \<times> string) list" where
  "retry_header (Some (JInt n)) = [(''Retry-After'', int_str n)]"
| "retry_header _ = []"

definition handle_gateway_error :: "string option \<Rightarrow> gateway_error \<Rightarrow> response" where
  "handle_gateway_error request_id exc =
     json_response (status_code (exc_class exc)) (build_error_response exc request_id)
       (if isinstance (exc_class exc) RateLimitExceeded
        then retry_header (map_of (exc_details exc) ''retry_after'') else [])"

lemma status_code_simps [simp]:
  "status_code GatewayError = 500" "status_code AuthError = 401"
  "status_code TokenExpiredError = 401" "status_code InvalidTokenError = 401"
  "status_code ForbiddenError = 403" "status_code RateLimitExceeded = 429"
  "status_code UpstreamError = 502" "status_code UpstreamTimeout = 504"
  "status_code NotFoundError = 404"
  by (simp_all add: status_code_def List.map_filter_simps)

text \<open>The standard error envelope: whatever error a route raises, the response carries the
  class's own or inherited status, its code and its message under \<open>error\<close>, \<open>details\<close> exactly
  when there are any, and the request id exactly when the request has a nonempty one; only a
  rate-limit error gets a \<open>Retry-After\<close> header.\<close>

lemma error_envelope:
  "\<exists>body err. rs_body (handle_gateway_error request_id exc) = JsonBody body
     \<and> rs_status (handle_gateway_error request_id exc) = status_code (exc_class exc)
     \<and> 400 \<le> status_code (exc_class exc) \<and> status_code (exc_class exc) < 600
     \<and> json_get body ''error'' = Some err
     \<and> json_get err ''code'' = Some (JStr (own_code (exc_class exc)))
     \<and> json_get err ''message'' = Some (JStr (exc_message exc))
     \<and> (json_get err ''details'' =
          (if exc_details exc = [] then None else Some (JObj (exc_details exc))))
     \<and> (json_get body ''request_id'' =
          (if request_id = None \<or> request_id = Some [] then None
           else map_option JStr request_id))
     \<and> (header (handle_gateway_error request_id exc) ''Retry-After'' \<noteq> None
          \<longleftrightarrow> exc_class exc = RateLimitExceeded
              \<and> (\<exists>n. map_of (exc_details exc) ''retry_after'' = Some (JInt n)))"
proof -
  have st: "400 \<le> status_code (exc_class exc) \<and> status_code (exc_class exc) < 600"
    by (cases "exc_class exc") simp_all
  have inst: "isinstance (exc_class exc) RateLimitExceeded \<longleftrightarrow> exc_class exc = RateLimitExceeded"
    by (cases "exc_class exc") (simp_all add: isinstance_def)
  have low: "lower ''Retry-After'' = ''retry-after''" by code_simp
  have hdr: "header (handle_gateway_error request_id exc) ''Retry-After'' \<noteq> None \<longleftrightarrow>
      exc_class exc = RateLimitExceeded \<and> (\<exists>n. map_of (exc_details exc) ''retry_after'' = Some (JInt n))"
    by (cases "map_of (exc_details exc) ''retry_after''" rule: retry_header.cases)
       (auto simp: handle_gateway_error_def hdr_simps inst low)
  show ?thesis
    using st hdr
    by (auto simp: handle_gateway_error_def build_error_response_def split: option.split)
qed

end
