(* ===== verification/Security.thy ===== *)
theory Security
  imports Config Floats Errors
begin

text \<open>
  Tokens: \<open>app/core/security.py\<close>, \<open>app/services/auth_service.py\<close> and the clock of
  \<open>app/utils/time.py\<close>. The JWT library (python-jose) is a parameter, a pair of functions;
  the properties that need it name what it documents (\<open>jose_laws\<close>). An instant is the number
  of microseconds since the epoch, a \<open>timedelta\<close> a number of microseconds.
\<close>

section \<open>Clock\<close>

definition datetime_ok :: "int \<Rightarrow> bool" where
  "datetime_ok us \<longleftrightarrow> - 62135596800000000 \<le> us \<and> us \<le> 253402300799999999"

definition timestamp :: "int \<Rightarrow> rat" where
  "timestamp us = fl64 (of_int us / 10 ^ 6)"

definition epoch_now :: "int \<Rightarrow> int" where
  "epoch_now now_us = py_int (timestamp now_us)"

text \<open>\<open>timedelta(minutes=m)\<close>, which overflows beyond 999999999 days.\<close>

definition timedelta_minutes :: "int \<Rightarrow> py_exc + int" where
  "timedelta_minutes m =
     (if \<bar>(m * 60) div 86400\<bar> \<le> 999999999 then Inr (m * 60 * 10 ^ 6) else Inl OverflowError)"

section \<open>The token library\<close>

record claims =
  cl_sub :: "string option"
  cl_tier :: "string option"
  cl_iat :: "int option"
  cl_exp :: "int option"

datatype jose_end = Payload claims | ExpiredSignatureError | JWTError

text \<open>\<open>jwt.encode\<close> of claims, secret and algorithm (\<open>None\<close>: it raises); \<open>jwt.decode\<close> at an
  epoch second, of token, secret and accepted algorithms.\<close>

record jose =
  jwt_encode :: "claims \<Rightarrow> string \<Rightarrow> string \<Rightarrow> string option"
  jwt_decode :: "int \<Rightarrow> string \<Rightarrow> string \<Rightarrow> string list \<Rightarrow> jose_end"

text \<open>A token it encoded decodes, under the same secret and algorithm, to its claims through the
  second of its \<open>exp\<close> and is refused as expired afterwards; HS256 is supported.\<close>

definition jose_laws :: "jose \<Rightarrow> bool" where
  "jose_laws J \<longleftrightarrow>
     (\<forall>c secret alg token now. jwt_encode J c secret alg = Some token \<longrightarrow>
        jwt_decode J now token secret [alg] =
          (case cl_exp c of
             None \<Rightarrow> Payload c
           | Some e \<Rightarrow> if e < now then ExpiredSignatureError else Payload c))
   \<and> (\<forall>c secret. \<exists>token. jwt_encode J c secret ''HS256'' = Some token)"

section \<open>Minting and decoding\<close>

datatype mint_error = Py_Error py_exc | Encode_Error

definition create_access_token ::
  "settings \<Rightarrow> jose \<Rightarrow> int \<Rightarrow> string \<Rightarrow> string \<Rightarrow> int option \<Rightarrow> mint_error + string" where
  "create_access_token S J now user_id tier expires_in =
     (case (case expires_in of
              None \<Rightarrow> timedelta_minutes (jwt_expire_minutes S)
            | Some d \<Rightarrow> if d = 0 then timedelta_minutes (jwt_expire_minutes S) else Inr d) of
        Inl e \<Rightarrow> Inl (Py_Error e)
      | Inr expire_delta \<Rightarrow>
          if \<not> datetime_ok (now + expire_delta) then Inl (Py_Error OverflowError)
          else
            let payload = \<lparr>cl_sub = Some user_id, cl_tier = Some tier,
                           cl_iat = Some (py_int (timestamp now)),
                           cl_exp = Some (py_int (timestamp (now + expire_delta)))\<rparr>
            in case jwt_encode J payload (jwt_secret S) (jwt_algorithm S) of
                 None \<Rightarrow> Inl Encode_Error
               | Some token \<Rightarrow> Inr token)"

definition decode_access_token :: "settings \<Rightarrow> jose \<Rightarrow> int \<Rightarrow> string \<Rightarrow> gateway_error + claims" where
  "decode_access_token S J now token =
     (case jwt_decode J now token (jwt_secret S) [jwt_algorithm S] of
        ExpiredSignatureError \<Rightarrow> Inl (new_error TokenExpiredError ''Token has expired.'' None)
      | JWTError \<Rightarrow> Inl (new_error InvalidTokenError ''Token is invalid.'' None)
      | Payload payload \<Rightarrow>
          if cl_sub payload = None \<or> cl_tier payload = None
          then Inl (new_error InvalidTokenError ''Token missing required claims.'' None)
          else Inr payload)"

definition issue_token ::
  "settings \<Rightarrow> jose \<Rightarrow> int \<Rightarrow> string \<Rightarrow> string \<Rightarrow> mint_error + string \<times> int" where
  "issue_token S J now user_id tier =
     (case create_access_token S J now user_id tier None of
        Inl e \<Rightarrow> Inl e
      | Inr token \<Rightarrow> Inr (token, jwt_expire_minutes S * 60))"

section \<open>Whole seconds\<close>

text \<open>Up to the year 2242 the float of a timestamp never rounds up to the next second.\<close>

lemma int_timestamp:
  assumes "0 \<le> us" "us < 2 ^ 33 * 10 ^ 6"
  shows "py_int (timestamp us) = us div 10 ^ 6"
proof -
  let ?k = "us div 10 ^ 6" let ?r = "us mod 10 ^ 6"
  let ?x = "of_int us / 10 ^ 6 :: rat"
  let ?y = "of_int ((?k + 1) * 2 ^ 20 - 1) / 2 ^ 20 :: rat"
  have k: "0 \<le> ?k" "?k < 2 ^ 33" using assms by (simp_all add: div_less_iff_less_mult)
  have us: "us = ?k * 10 ^ 6 + ?r" and r: "0 \<le> ?r" "?r \<le> 999999"
    using pos_mod_bound [of "10 ^ 6" us] by simp_all
  have x: "?x = of_int ?k + of_int ?r / 10 ^ 6"
    using arg_cong [OF us, of rat_of_int]
    by (simp only: of_int_add of_int_mult of_int_power of_int_numeral) (simp add: add_divide_distrib)
  have "(of_int ?r :: rat) \<le> 999999" using r(2) by (metis of_int_le_iff of_int_numeral)
  then have "?x \<le> ?y"
    unfolding x by (simp add: field_simps)
  moreover have "fl64 ?y = ?y"
    using k by (intro fl64_dyadic) auto
  ultimately have "fl64 ?x \<le> ?y" by (rule fl.rd_le_fixed)
  also have "?y < of_int ?k + 1" by (simp add: field_simps)
  finally have hi: "fl64 ?x < of_int ?k + 1" .
  have "(of_int ?k :: rat) \<le> ?x" unfolding x using r(1) by simp
  then have "of_int ?k \<le> fl64 ?x" using k by (intro fl.int_le_rd) auto
  then have "\<lfloor>fl64 ?x\<rfloor> = ?k" using hi by (simp add: floor_eq_iff)
  moreover have "0 \<le> fl64 ?x" using assms(1) by (simp add: fl.rd_nonneg)
  ultimately show ?thesis by (simp add: timestamp_def py_int_nonneg)
qed

text \<open>Instants the properties speak of: between 1970 and 2242.\<close>

definition sane_instant :: "int \<Rightarrow> bool" where
  "sane_instant us \<longleftrightarrow> 0 \<le> us \<and> us < 2 ^ 33 * 10 ^ 6"

lemma sane_instant_ok: "sane_instant us \<Longrightarrow> datetime_ok us"
  by (simp add: sane_instant_def datetime_ok_def)

lemma sane_instant_seconds: "sane_instant us \<Longrightarrow> py_int (timestamp us) = us div 10 ^ 6"
  by (simp add: sane_instant_def int_timestamp)

lemma create_access_token_sane:
  assumes "expires_in = Some d \<and> d \<noteq> 0
      \<or> expires_in = None \<and> timedelta_minutes (jwt_expire_minutes S) = Inr d"
    and "sane_instant now" "sane_instant (now + d)"
  shows "create_access_token S J now user_id tier expires_in =
    (case jwt_encode J \<lparr>cl_sub = Some user_id, cl_tier = Some tier, cl_iat = Some (now div 10 ^ 6),
                        cl_exp = Some ((now + d) div 10 ^ 6)\<rparr> (jwt_secret S) (jwt_algorithm S) of
       None \<Rightarrow> Inl Encode_Error
     | Some token \<Rightarrow> Inr token)"
  using assms
  by (auto simp: create_access_token_def sane_instant_ok sane_instant_seconds Let_def
        cong: option.case_cong)

lemma decode_minted:
  assumes "jose_laws J" "jwt_encode J c (jwt_secret S) (jwt_algorithm S) = Some token"
    and "cl_exp c = Some e" "cl_sub c \<noteq> None" "cl_tier c \<noteq> None"
  shows "decode_access_token S J now token =
    (if e < now then Inl (new_error TokenExpiredError ''Token has expired.'' None) else Inr c)"
  using assms by (auto simp: jose_laws_def decode_access_token_def)

section \<open>An instance, for concrete runs\<close>

text \<open>A token that spells out its claims, the secret and the algorithm as fields; no secrecy,
  which the laws do not speak of.\<close>

fun put_field :: "string \<Rightarrow> string" where
  "put_field [] = ''.''"
| "put_field (c # cs) = CHR ''x'' # c # put_field cs"

fun take_field :: "string \<Rightarrow> string \<times> string" where
  "take_field (m # c # cs) =
     (if m = CHR ''x'' then (c # fst (take_field cs), snd (take_field cs)) else ([], c # cs))"
| "take_field _ = ([], [])"

lemma take_put_field: "s \<noteq> [] \<Longrightarrow> take_field (put_field f @ s) = (f, s)"
proof (induction f rule: put_field.induct)
  case 1
  then show ?case by (cases s) simp_all
qed simp

definition opt_str :: "string option \<Rightarrow> string" where
  "opt_str v = (case v of None \<Rightarrow> [] | Some s \<Rightarrow> CHR ''='' # s)"

definition str_opt :: "string \<Rightarrow> string option" where
  "str_opt s = (if s = [] then None else Some (tl s))"

definition str_int :: "string \<Rightarrow> int" where
  "str_int s = (if take 1 s = ''-'' then - int (digits_val (tl s)) else int (digits_val s))"

lemma str_opt_str [simp]: "str_opt (opt_str v) = v"
  by (simp add: str_opt_def opt_str_def split: option.split)

lemma str_int_str [simp]: "str_int (int_str i) = i"
  using nat_str_no_minus [of "nat i"]
  by (auto simp: str_int_def int_str_def digits_val_nat_str)

lemma map_str_int_str [simp]: "map_option (str_int \<circ> int_str) v = v"
  by (cases v) simp_all

definition demo_encode :: "claims \<Rightarrow> string \<Rightarrow> string \<Rightarrow> string option" where
  "demo_encode c secret alg = Some
     (put_field (opt_str (cl_sub c)) @ put_field (opt_str (cl_tier c))
      @ put_field (opt_str (map_option int_str (cl_iat c)))
      @ put_field (opt_str (map_option int_str (cl_exp c)))
      @ put_field secret @ put_field alg @ ''.'')"

definition demo_decode :: "int \<Rightarrow> string \<Rightarrow> string \<Rightarrow> string list \<Rightarrow> jose_end" where
  "demo_decode now token secret algs =
     (let (sub, r) = take_field token; (tier, r) = take_field r; (iat, r) = take_field r;
          (ex, r) = take_field r; (signed, r) = take_field r; (alg, r) = take_field r
      in if signed \<noteq> secret \<or> alg \<notin> set algs then JWTError
         else case map_option str_int (str_opt ex) of
                None \<Rightarrow> Payload \<lparr>cl_sub = str_opt sub, cl_tier = str_opt tier,
                                cl_iat = map_option str_int (str_opt iat), cl_exp = None\<rparr>
              | Some e \<Rightarrow> if e < now then ExpiredSignatureError
                          else Payload \<lparr>cl_sub = str_opt sub, cl_tier = str_opt tier,
                                cl_iat = map_option str_int (str_opt iat), cl_exp = Some e\<rparr>)"

definition demo_jose :: jose where
  "demo_jose = \<lparr>jwt_encode = demo_encode, jwt_decode = demo_decode\<rparr>"

lemma put_field_nonempty [simp]: "put_field f \<noteq> []"
  by (cases f) simp_all

lemma demo_jose_laws: "jose_laws demo_jose"
proof -
  have "demo_decode now token secret [alg] =
      (case cl_exp c of None \<Rightarrow> Payload c
       | Some e \<Rightarrow> if e < now then ExpiredSignatureError else Payload c)"
    if "demo_encode c secret alg = Some token" for now c secret alg token
    using that
    by (cases c) (auto simp: demo_encode_def demo_decode_def take_put_field option.map_comp
        split: option.split)
  then show ?thesis by (simp add: jose_laws_def demo_jose_def demo_encode_def)
qed

section \<open>Properties\<close>

text \<open>A minted token's life: minting succeeds, and the token decodes to the user and the tier
  it was minted for, with the second it was minted in as \<open>iat\<close> and the lifetime asked for added
  in \<open>exp\<close>, through the second \<open>exp\<close>; from the next second on it is refused with
  \<open>TokenExpiredError\<close> (instants between 1970 and 2242).\<close>

lemma minted_token_lifetime:
  assumes "jose_laws J" "jwt_algorithm S = ''HS256''"
    and "lifetime \<noteq> 0" "sane_instant now" "sane_instant (now + lifetime)"
  shows "\<exists>token. create_access_token S J now user_id tier (Some lifetime) = Inr token
    \<and> (\<forall>later. decode_access_token S J later token =
         (if (now + lifetime) div 10 ^ 6 < later
          then Inl (new_error TokenExpiredError ''Token has expired.'' None)
          else Inr \<lparr>cl_sub = Some user_id, cl_tier = Some tier, cl_iat = Some (now div 10 ^ 6),
                    cl_exp = Some ((now + lifetime) div 10 ^ 6)\<rparr>))"
proof -
  let ?c = "\<lparr>cl_sub = Some user_id, cl_tier = Some tier, cl_iat = Some (now div 10 ^ 6),
             cl_exp = Some ((now + lifetime) div 10 ^ 6)\<rparr>"
  obtain token where "jwt_encode J ?c (jwt_secret S) (jwt_algorithm S) = Some token"
    using assms(1,2) unfolding jose_laws_def by metis
  then show ?thesis
    using create_access_token_sane [of "Some lifetime" lifetime S now J user_id tier] assms
      decode_minted [OF assms(1), of ?c S token]
    by (auto intro!: exI [of _ token])
qed

lemma minted_token_lifetime_witness:
  "\<exists>token. create_access_token test_settings demo_jose 1700000000999999 ''user_42'' ''pro'' (Some (- 1000000)) = Inr token
    \<and> decode_access_token test_settings demo_jose 1700000000 token =
        Inl (new_error TokenExpiredError ''Token has expired.'' None)"
proof -
  have "sane_instant 1700000000999999" "sane_instant (1700000000999999 + - 1000000)"
    by (simp_all add: sane_instant_def)
  then show ?thesis
    using minted_token_lifetime [of demo_jose test_settings "- 1000000" 1700000000999999 "''user_42''" "''pro''"]
    by (auto simp: demo_jose_laws test_settings_fields)
qed

text \<open>\<open>POST /auth/token\<close> tells the truth about the lifetime: the token the service issues is
  accepted until exactly \<open>expires_in\<close> seconds after the second it was minted in, and expired
  from then on.\<close>

lemma issued_token_expires_in:
  assumes "jose_laws J" "jwt_algorithm S = ''HS256''" "0 \<le> jwt_expire_minutes S"
    and "sane_instant now" "sane_instant (now + jwt_expire_minutes S * 60000000)"
  shows "\<exists>token. issue_token S J now user_id tier = Inr (token, jwt_expire_minutes S * 60)
    \<and> (\<forall>later. (\<exists>c. decode_access_token S J later token = Inr c
                    \<and> cl_sub c = Some user_id \<and> cl_tier c = Some tier)
          \<longleftrightarrow> later \<le> now div 10 ^ 6 + jwt_expire_minutes S * 60)"
proof -
  let ?d = "jwt_expire_minutes S * 60000000"
  let ?c = "\<lparr>cl_sub = Some user_id, cl_tier = Some tier, cl_iat = Some (now div 10 ^ 6),
             cl_exp = Some ((now + ?d) div 10 ^ 6)\<rparr>"
  have ex: "(now + ?d) div 10 ^ 6 = now div 10 ^ 6 + jwt_expire_minutes S * 60"
  proof -
    have "now + ?d = now + jwt_expire_minutes S * 60 * 10 ^ 6" by simp
    also have "\<dots> div 10 ^ 6 = now div 10 ^ 6 + jwt_expire_minutes S * 60"
      by (subst div_mult_self1) simp_all
    finally show ?thesis .
  qed
  have "?d < 2 ^ 33 * 10 ^ 6" using assms(4,5) by (simp add: sane_instant_def)
  then have "timedelta_minutes (jwt_expire_minutes S) = Inr ?d"
    using assms(3) by (simp add: timedelta_minutes_def)
  moreover obtain token where "jwt_encode J ?c (jwt_secret S) (jwt_algorithm S) = Some token"
    using assms(1,2) unfolding jose_laws_def by metis
  ultimately show ?thesis
    using create_access_token_sane [of None ?d S now J user_id tier] assms ex
      decode_minted [OF assms(1), of ?c S token]
    by (auto simp: issue_token_def intro!: exI [of _ token])
qed

lemma issued_token_expires_in_witness:
  "\<exists>token. issue_token test_settings demo_jose 1700000000123456 ''alice'' ''free'' = Inr (token, 3600)
    \<and> (\<exists>c. decode_access_token test_settings demo_jose 1700003600 token = Inr c)
    \<and> \<not> (\<exists>c. decode_access_token test_settings demo_jose 1700003601 token = Inr c
              \<and> cl_sub c = Some ''alice'' \<and> cl_tier c = Some ''free'')"
proof -
  have "sane_instant 1700000000123456" "sane_instant (1700000000123456 + jwt_expire_minutes test_settings * 60000000)"
    by (simp_all add: sane_instant_def test_settings_fields)
  then obtain token where "issue_token test_settings demo_jose 1700000000123456 ''alice'' ''free'' = Inr (token, 3600)"
    and dec: "\<And>later. (\<exists>c. decode_access_token test_settings demo_jose later token = Inr c
                    \<and> cl_sub c = Some ''alice'' \<and> cl_tier c = Some ''free'') \<longleftrightarrow> later \<le> 1700003600"
    using issued_token_expires_in [of demo_jose test_settings 1700000000123456 "''alice''" "''free''"]
    by (auto simp: demo_jose_laws test_settings_fields)
  then show ?thesis using dec [of 1700003600] dec [of 1700003601] by (intro exI [of _ token]) auto
qed

text \<open>Decoding never lets a token through without a user and a tier, and every refusal is an
  authentication error with status 401: an expired token is told apart from an invalid one.\<close>

lemma decode_refusals:
  "case decode_access_token S J now token of
     Inr c \<Rightarrow> jwt_decode J now token (jwt_secret S) [jwt_algorithm S] = Payload c
              \<and> cl_sub c \<noteq> None \<and> cl_tier c \<noteq> None
   | Inl e \<Rightarrow> isinstance (exc_class e) AuthError \<and> status_code (exc_class e) = 401
              \<and> (exc_class e = TokenExpiredError \<longleftrightarrow>
                   jwt_decode J now token (jwt_secret S) [jwt_algorithm S] = ExpiredSignatureError)"
  by (auto simp: decode_access_token_def new_error_def isinstance_def split: jose_end.split)

end
