(* ===== verification/Rate_Limit_Service.thy ===== *)
theory Rate_Limit_Service
  imports Redis_Limiter Config Database
begin

text \<open>
  \<open>app/services/rate_limit_service.py\<close>: which limit applies to a user (an active override of
  \<open>user_quota_overrides\<close>, else the tier's default), the adaptive factor, and the call of the
  limiter under the user's key.
\<close>

section \<open>Operations\<close>

definition tier_default :: "settings \<Rightarrow> string \<Rightarrow> int" where
  "tier_default S tier =
     (if tier = ''free'' then rate_limit_free S
      else if tier = ''pro'' then rate_limit_pro S
      else if tier = ''enterprise'' then rate_limit_enterprise S
      else rate_limit_free S)"

definition lookup_override :: "int \<Rightarrow> db \<Rightarrow> string \<Rightarrow> int option" where
  "lookup_override now d user_id =
     (case db_quotas d user_id of
        None \<Rightarrow> None
      | Some q \<Rightarrow>
          (case q_expires_at q of
             None \<Rightarrow> Some (q_custom_limit q)
           | Some e \<Rightarrow> if e < now then None else Some (q_custom_limit q)))"

definition resolve_limit :: "settings \<Rightarrow> int \<Rightarrow> db \<Rightarrow> string \<Rightarrow> string \<Rightarrow> int" where
  "resolve_limit S now d user_id tier =
     (case lookup_override now d user_id of
        Some limit \<Rightarrow> limit
      | None \<Rightarrow> tier_default S tier)"

text \<open>\<open>base_limit * health_factor\<close> converts the integer to a float first.\<close>

definition effective_limit :: "int \<Rightarrow> rat \<Rightarrow> int" where
  "effective_limit base_limit health_factor =
     max 1 (py_int (fl64 (fl64 (of_int base_limit) * health_factor)))"

definition user_key :: "string \<Rightarrow> string" where
  "user_key user_id = ''user:'' @ user_id"

text \<open>\<open>now\<close> is the instant of the override lookup, \<open>epoch\<close> the limiter's clock.\<close>

definition check_rate_limit ::
  "settings \<Rightarrow> 'r redis_api \<Rightarrow> delivery \<Rightarrow> int \<Rightarrow> int \<Rightarrow> db \<Rightarrow> string \<Rightarrow> string \<Rightarrow> rat \<Rightarrow> 'r \<Rightarrow>
   (py_exc + LimitResult) \<times> 'r" where
  "check_rate_limit S R dlv now epoch d user_id tier health_factor r =
     (let base_limit = resolve_limit S now d user_id tier
      in redis_check R dlv epoch (user_key user_id) (effective_limit base_limit health_factor) 60 r)"

section \<open>Lemmas\<close>

lemma user_key_inj [simp]: "user_key u = user_key v \<longleftrightarrow> u = v"
  by (simp add: user_key_def)

lemma effective_limit_full: "\<bar>base\<bar> \<le> 2 ^ 53 \<Longrightarrow> effective_limit base 1 = max 1 base"
  by (simp add: effective_limit_def fl64_int)

lemma effective_limit_half:
  assumes "\<bar>base\<bar> \<le> 2 ^ 52"
  shows "effective_limit base (1 / 2) = max 1 (base div 2)"
proof (cases "0 \<le> base")
  case True
  have "fl64 (of_int base / 2 ^ 1) = of_int base / 2 ^ 1"
    using assms True by (intro fl64_dyadic) auto
  then have half: "fl64 (fl64 (of_int base) * (1 / 2)) = of_int base / 2"
    using assms by (simp add: fl64_int)
  have "py_int (of_int base / 2) = base div 2"
    using True floor_divide_of_int_eq [of base 2, where 'a = rat] by (simp add: py_int_nonneg)
  then show ?thesis unfolding effective_limit_def half by simp
next
  case False
  have "fl64 (fl64 (of_int base) * (1 / 2)) \<le> of_int 0"
    using assms False by (intro fl.rd_le_int) (auto simp: fl64_int)
  then have "py_int (fl64 (fl64 (of_int base) * (1 / 2))) \<le> 0"
    by (simp add: py_int_def ceiling_le_zero)
  then show ?thesis using False by (simp add: effective_limit_def)
qed

lemma effective_limit_ok:
  assumes "\<bar>base\<bar> \<le> 10 ^ 14" "factor = 1 \<or> factor = 1 / 2"
  shows "limit_ok (effective_limit base factor)" "effective_limit base factor \<le> max 1 base"
proof -
  have "effective_limit base factor = max 1 base \<or> effective_limit base factor = max 1 (base div 2)"
    using assms(2)
  proof
    assume "factor = 1"
    then show ?thesis using assms(1) effective_limit_full [of base] by simp
  next
    assume "factor = 1 / 2"
    show ?thesis
      unfolding \<open>factor = 1 / 2\<close> using assms(1) effective_limit_half [of base] by simp
  qed
  then show "limit_ok (effective_limit base factor)" "effective_limit base factor \<le> max 1 base"
    using assms(1) by (auto simp: limit_ok_def)
qed

lemma redis_check_limit:
  "fst (redis_check R dlv epoch key limit 60 r) = Inr lr \<Longrightarrow> lr_limit lr = limit"
  "\<exists>lr. fst (redis_check R dlv epoch key limit 60 r) = Inr lr"
  by (auto simp: redis_check_def fail_open_def Let_def split: prod.splits sum.splits)

lemma redis_check_undelivered:
  "snd (redis_check R dlv epoch key limit 60 r) =
     (if dlv = Not_Executed then r else snd (redis_check R Delivered epoch key limit 60 r))"
proof (cases "token_bucket_lua R key (fl64 (of_int limit)) (fl64 (of_int limit / 60)) (of_int epoch) r")
  case (Pair res r')
  then show ?thesis
    by (cases dlv; cases res) (auto simp: redis_check_def run_script_def Let_def split: prod.split)
qed

lemma window_60 [simp]: "window_ok 60"
  by (simp add: window_ok_def)

text \<open>Limit resolution: an override of the user counts through the instant it expires at and a
  permanent one always; without an active override the tier decides, and an unknown tier is
  treated as \<open>free\<close>. Nobody else's row matters.\<close>

lemma resolve_limit_cases:
  "resolve_limit S now d user_id tier =
     (case db_quotas d user_id of
        Some q \<Rightarrow> (if q_expires_at q = None \<or> now \<le> the (q_expires_at q) then q_custom_limit q
                   else tier_default S tier)
      | None \<Rightarrow> tier_default S tier)
   \<and> tier_default S tier \<in> {rate_limit_free S, rate_limit_pro S, rate_limit_enterprise S}
   \<and> (tier_default S tier =
        (if tier = ''pro'' then rate_limit_pro S
         else if tier = ''enterprise'' then rate_limit_enterprise S else rate_limit_free S))"
  by (auto simp: resolve_limit_def lookup_override_def tier_default_def not_less split: option.split)

text \<open>Adaptive limiting: with the upstream degraded the limit is halved, rounding down, and never
  below one request per window; healthy, it is the base limit. A base limit of zero or less still
  lets one request through per window.\<close>

lemma effective_limit_halves:
  assumes "\<bar>base\<bar> \<le> 2 ^ 52"
  shows "effective_limit base 1 = max 1 base \<and> effective_limit base (1 / 2) = max 1 (base div 2)"
  using effective_limit_full [of base] effective_limit_half [OF assms] assms by simp

lemma effective_limit_halves_witness:
  "effective_limit 61 1 = 61 \<and> effective_limit 61 (1 / 2) = 30 \<and> effective_limit 1 (1 / 2) = 1
   \<and> effective_limit 0 1 = 1"
  using effective_limit_halves [of 61] effective_limit_halves [of 1] effective_limit_halves [of 0] by simp

text \<open>Users do not share buckets: a check for one user, whatever its outcome, leaves the stored
  bucket of every other user as it was, and its result carries the effective limit.\<close>

lemma users_isolated:
  assumes "hash_laws R" "\<bar>resolve_limit S now d user_id tier\<bar> \<le> 10 ^ 14"
    and "factor = 1 \<or> factor = 1 / 2" "other \<noteq> user_id"
    and "check_rate_limit S R dlv now epoch d user_id tier factor r = (res, r')"
  shows "stored_bucket R (user_key other) r' = stored_bucket R (user_key other) r
    \<and> (\<exists>lr. res = Inr lr \<and> lr_limit lr = effective_limit (resolve_limit S now d user_id tier) factor)"
proof -
  let ?l = "effective_limit (resolve_limit S now d user_id tier) factor"
  have l: "limit_ok ?l" by (rule effective_limit_ok [OF assms(2,3)])
  have run: "redis_check R dlv epoch (user_key user_id) ?l 60 r = (res, r')"
    using assms(5) by (simp add: check_rate_limit_def)
  have "r' = r \<or> r' = snd (redis_check R Delivered epoch (user_key user_id) ?l 60 r)"
    using redis_check_undelivered [of R dlv epoch "user_key user_id" ?l r] by (simp add: run split: if_splits)
  then have "hget R r' (user_key other) f = hget R r (user_key other) f" for f
    using check_other_key [OF assms(1) l window_60, of "user_key other" "user_key user_id"] assms(4)
    by auto
  then have "stored_bucket R (user_key other) r' = stored_bucket R (user_key other) r"
    by (rule stored_bucket_cong)
  moreover have "\<exists>lr. res = Inr lr \<and> lr_limit lr = ?l"
    using redis_check_limit [of R dlv epoch "user_key user_id" ?l r] by (auto simp: run)
  ultimately show ?thesis by blast
qed

lemma users_isolated_witness:
  "\<exists>res r'. check_rate_limit test_settings demo_api Delivered 0 1000 \<lparr>db_quotas = Map.empty, db_logs = []\<rparr>
       ''alice'' ''free'' 1 demo_empty = (res, r')
     \<and> stored_bucket demo_api (user_key ''bob'') r' = None"
proof -
  let ?d = "\<lparr>db_quotas = Map.empty, db_logs = []\<rparr>"
  obtain res r' where run: "check_rate_limit test_settings demo_api Delivered 0 1000 ?d
      ''alice'' ''free'' 1 demo_empty = (res, r')" by fastforce
  have "resolve_limit test_settings 0 ?d ''alice'' ''free'' = 60"
    by (simp add: resolve_limit_def lookup_override_def tier_default_def test_settings_fields)
  then show ?thesis
    using users_isolated [OF demo_hash_laws _ _ _ run, of "''bob''"] run
    by (auto simp: stored_bucket_def)
qed

end
