(* ===== verification/Gateway_State.thy ===== *)
theory Gateway_State
  imports Security Upstream_Health Rate_Limit_Service Circuit_Breaker
begin

text \<open>
  What one process of the gateway holds and what one request is handled with. \<open>world\<close> is the
  state the handlers share: Redis, the database, the circuit breaker and the Prometheus counters
  of the process, the requests that left for the upstream and the background log writes that were
  scheduled. \<open>env\<close> is what the outside supplies during a request: configuration, the libraries
  that are parameters, the clock readings, whether Redis and the database answer, what others make
  of the database between the statements of one request (\<open>ev_later\<close>), and the upstream's behaviour. A handler returns a response or an exception, and the new state;
  \<open>rstate\<close> is \<open>request.state\<close>, the namespace the middlewares of a request share.
\<close>

section \<open>Messages with the upstream\<close>

text \<open>Header names given to the HTTP client are Python strings, compared exactly.\<close>

record upstream_request =
  up_method :: string
  up_url :: string
  up_headers :: "string \<rightharpoonup> string"
  up_body :: string

text \<open>A response of the client: header names in lower case, repeated fields joined, the body
  decoded.\<close>

record upstream_response =
  ur_status :: int
  ur_headers :: "(string \<times> string) list"
  ur_content :: string

datatype http_exc = TimeoutException | RequestError string | OtherException string

section \<open>State, surroundings, handlers\<close>

record 'r world =
  w_redis :: 'r
  w_db :: db
  w_breaker :: CircuitBreaker
  w_allowed :: "string \<Rightarrow> nat"
  w_limited :: "string \<Rightarrow> nat"
  w_outbox :: "upstream_request list"
  w_tasks :: "LogEntry list"

record rstate =
  st_request_id :: "string option"
  st_user_id :: "string option"
  st_tier :: "string option"
  st_rate_limit_info :: "LimitResult option"

definition fresh_state :: rstate where
  "fresh_state = \<lparr>st_request_id = None, st_user_id = None, st_tier = None, st_rate_limit_info = None\<rparr>"

record 'r env =
  ev_settings :: settings
  ev_redis :: "'r redis_api"
  ev_jose :: jose
  ev_sql :: sql
  ev_codec :: codec
  ev_uuid_hex :: string
  ev_decode_at :: int
  ev_instant :: int
  ev_epoch :: int
  ev_factor_at :: rat
  ev_record_at :: rat
  ev_admit_at :: rat
  ev_end_at :: rat
  ev_perf_start :: rat
  ev_perf_end :: rat
  ev_factor_dlv :: delivery
  ev_check_dlv :: delivery
  ev_record_dlv :: delivery
  ev_db_up :: bool
  ev_later :: "db \<Rightarrow> db \<times> db"
  ev_redis_ping :: "string option"
  ev_db_error :: string
  ev_redis_error :: string
  ev_validation_detail :: json
  ev_metrics_page :: string
  ev_docs_page :: "string \<Rightarrow> response"
  ev_upstream :: "upstream_request \<Rightarrow> (http_exc, upstream_response) func_end"

text \<open>Exceptions a handler can end in. \<open>HTTPException\<close> is FastAPI's, with its headers.\<close>

datatype exn =
    Gateway_Exn gateway_error
  | HTTPException int string "(string \<times> string) list"
  | RequestValidationError
  | Py_Exn py_exc
  | Mint_Exn mint_error
  | Db_Exn
  | Http_Exn string
  | CancelledError

type_synonym 'r handler = "request \<Rightarrow> rstate \<Rightarrow> 'r world \<Rightarrow> (exn + response) \<times> rstate \<times> 'r world"

type_synonym 'r middleware = "'r handler \<Rightarrow> 'r handler"

definition on_response :: "(response \<Rightarrow> response) \<Rightarrow> (exn + response) \<times> 's \<Rightarrow> (exn + response) \<times> 's" where
  "on_response f out = (case out of (Inl e, s) \<Rightarrow> (Inl e, s) | (Inr rs, s) \<Rightarrow> (Inr (f rs), s))"

lemma on_response_simps [simp]:
  "on_response f (Inl e, s) = (Inl e, s)" "on_response f (Inr rs, s) = (Inr (f rs), s)"
  by (simp_all add: on_response_def)

lemma snd_on_response [simp]: "snd (on_response f out) = snd out"
  by (simp add: on_response_def split: prod.split sum.split)

lemma on_response_Inr:
  "fst (on_response f out) = Inr rs \<longleftrightarrow> (\<exists>rs'. fst out = Inr rs' \<and> rs = f rs')"
  by (cases out; cases "fst out") auto

section \<open>An instance, for concrete runs\<close>

definition demo_codec :: codec where
  "demo_codec =
     \<lparr>as_int = (\<lambda>j. case j of JInt n \<Rightarrow> Some n | _ \<Rightarrow> None),
      as_str = (\<lambda>j. case j of JStr s \<Rightarrow> Some s | _ \<Rightarrow> None),
      as_datetime = (\<lambda>j. case j of JInt n \<Rightarrow> Some n | _ \<Rightarrow> None),
      iso = int_str,
      read_body = (\<lambda>rq. if rq_body rq = [] then No_Body
                      else Body (JObj [(''custom_limit'', JInt 3), (''reason'', JStr (rq_body rq))])),
      query_param = (\<lambda>rq name. None)\<rparr>"

text \<open>Default settings, Redis and the database answering, 1700000000 seconds after the epoch and
  500 on the monotonic clock; the upstream answers everything with 200.\<close>

definition demo_env :: "demo_redis env" where
  "demo_env =
     \<lparr>ev_settings = test_settings, ev_redis = demo_api, ev_jose = demo_jose, ev_sql = demo_sql,
      ev_codec = demo_codec, ev_uuid_hex = ''0123456789abcdef0123456789abcdef'',
      ev_decode_at = 1700000000, ev_instant = 1700000000000000, ev_epoch = 1700000000,
      ev_factor_at = 1700000000, ev_record_at = 1700000000, ev_admit_at = 500, ev_end_at = 500,
      ev_perf_start = 0, ev_perf_end = 0,
      ev_factor_dlv = Delivered, ev_check_dlv = Delivered, ev_record_dlv = Delivered,
      ev_db_up = True, ev_later = (\<lambda>d. (d, d)), ev_redis_ping = None, ev_db_error = [], ev_redis_error = [],
      ev_validation_detail = JArr [], ev_metrics_page = [],
      ev_docs_page = (\<lambda>path. json_response 200 (JStr path) []),
      ev_upstream = (\<lambda>call. Returns \<lparr>ur_status = 200, ur_headers = [(''content-type'', ''text/plain'')],
                                        ur_content = ''ok''\<rparr>)\<rparr>"

definition demo_world :: "'r \<Rightarrow> 'r world" where
  "demo_world r =
     \<lparr>w_redis = r, w_db = \<lparr>db_quotas = Map.empty, db_logs = []\<rparr>, w_breaker = upstream_breaker,
      w_allowed = (\<lambda>_. 0), w_limited = (\<lambda>_. 0), w_outbox = [], w_tasks = []\<rparr>"

definition sample_request :: "string \<Rightarrow> string \<Rightarrow> (string \<times> string) list \<Rightarrow> request" where
  "sample_request verb path headers =
     \<lparr>rq_method = verb, rq_path = path, rq_query = [], rq_headers = headers,
      rq_client = Some ''192.0.2.7'', rq_body = []\<rparr>"

end
