(* ===== verification/Middleware.thy ===== *)
theory Middleware
  imports Gateway_State
begin

text \<open>
  The middlewares of \<open>app/middleware/\<close>: authentication, rate limiting, request id, logging
  (with \<open>app/services/logging_service.py\<close>), security headers, the counters of \<open>metrics.py\<close>,
  and the order \<open>app/main.py\<close> registers them in. Each is a function of the next handler.
\<close>

section \<open>Authentication\<close>

definition AUTH_PUBLIC_PATH_PREFIXES :: "string list" where
  "AUTH_PUBLIC_PATH_PREFIXES =
     [''/auth'', ''/admin'', ''/health'', ''/ready'', ''/metrics'', ''/docs'', ''/openapi.json'', ''/redoc'']"

definition is_public :: "string list \<Rightarrow> string \<Rightarrow> bool" where
  "is_public prefixes path \<longleftrightarrow> list_ex (startswith path) prefixes"

definition auth_failure_response :: "rstate \<Rightarrow> gateway_error \<Rightarrow> response" where
  "auth_failure_response st exc =
     json_response (status_code (exc_class exc)) (build_error_response exc (st_request_id st))
       [(''WWW-Authenticate'', ''Bearer'')]"

definition auth_dispatch :: "'r env \<Rightarrow> 'r middleware" where
  "auth_dispatch env call_next rq st w =
     (if is_public AUTH_PUBLIC_PATH_PREFIXES (rq_path rq) then call_next rq st w
      else
        let auth_header = (case get_header rq ''Authorization'' of None \<Rightarrow> [] | Some h \<Rightarrow> h)
        in if \<not> startswith auth_header ''Bearer '' then
             (Inr (auth_failure_response st
                (new_error InvalidTokenError ''Missing or malformed Authorization header.'' None)), st, w)
           else
             let token = strip (removeprefix auth_header ''Bearer '')
             in case decode_access_token (ev_settings env) (ev_jose env) (ev_decode_at env) token of
                  Inl exc \<Rightarrow>
                    (if isinstance (exc_class exc) AuthError
                     then (Inr (auth_failure_response st exc), st, w)
                     else (Inl (Gateway_Exn exc), st, w))
                | Inr payload \<Rightarrow>
                    call_next rq (st\<lparr>st_user_id := cl_sub payload, st_tier := cl_tier payload\<rparr>) w)"

section \<open>Rate limiting\<close>

definition LIMIT_PUBLIC_PATH_PREFIXES :: "string list" where
  "LIMIT_PUBLIC_PATH_PREFIXES =
     [''/auth'', ''/admin'', ''/health'', ''/ready'', ''/docs'', ''/openapi.json'', ''/redoc'', ''/metrics'']"

text \<open>\<open>REQUESTS_ALLOWED.labels(tier=tier).inc()\<close> and its twin.\<close>

definition inc_counter :: "string \<Rightarrow> (string \<Rightarrow> nat) \<Rightarrow> string \<Rightarrow> nat" where
  "inc_counter tier c = c(tier := c tier + 1)"

definition policy_header :: "LimitResult \<Rightarrow> string" where
  "policy_header result = int_str (lr_limit result) @ '';w='' @ int_str 60"

definition limit_exceeded :: "LimitResult \<Rightarrow> gateway_error" where
  "limit_exceeded result =
     new_error RateLimitExceeded
       (''Rate limit exceeded. Try again in '' @ int_str (lr_retry_after result) @ ''s.'')
       (Some [(''retry_after'', JInt (lr_retry_after result))])"

definition limited_response :: "rstate \<Rightarrow> LimitResult \<Rightarrow> response" where
  "limited_response st result =
     json_response (status_code (exc_class (limit_exceeded result)))
       (build_error_response (limit_exceeded result) (st_request_id st))
       [(''Retry-After'', int_str (lr_retry_after result)),
        (''X-RateLimit-Limit'', int_str (lr_limit result)),
        (''X-RateLimit-Remaining'', ''0''),
        (''X-RateLimit-Retry-After'', int_str (lr_retry_after result)),
        (''X-RateLimit-Policy'', policy_header result)]"

definition add_limit_headers :: "LimitResult \<Rightarrow> response \<Rightarrow> response" where
  "add_limit_headers result rs =
     (let rs = set_header ''X-RateLimit-Limit'' (int_str (lr_limit result)) rs;
          rs = set_header ''X-RateLimit-Remaining'' (int_str (lr_remaining result)) rs;
          rs = set_header ''X-RateLimit-Retry-After'' (int_str (lr_retry_after result)) rs;
          rs = set_header ''X-RateLimit-Policy'' (policy_header result) rs
      in if lr_degraded result then set_header ''X-RateLimit-Degraded'' ''true'' rs else rs)"

definition rate_limit_dispatch :: "'r env \<Rightarrow> 'r middleware" where
  "rate_limit_dispatch env call_next rq st w =
     (if is_public LIMIT_PUBLIC_PATH_PREFIXES (rq_path rq) then call_next rq st w
      else case (st_user_id st, st_tier st) of
        (Some user_id, Some tier) \<Rightarrow>
          (let health_factor = get_health_factor (ev_redis env) (ev_factor_dlv env) (ev_factor_at env) (w_redis w)
           in if \<not> ev_db_up env then (Inl Db_Exn, st, w)
              else case check_rate_limit (ev_settings env) (ev_redis env) (ev_check_dlv env)
                          (ev_instant env) (ev_epoch env) (w_db w) user_id tier health_factor (w_redis w) of
                (Inl e, r) \<Rightarrow> (Inl (Py_Exn e), st, w\<lparr>w_redis := r\<rparr>)
              | (Inr result, r) \<Rightarrow>
                  (let st = st\<lparr>st_rate_limit_info := Some result\<rparr>;
                       w = w\<lparr>w_redis := r\<rparr>
                   in if \<not> lr_allowed result then
                        (Inr (limited_response st result), st,
                         w\<lparr>w_limited := inc_counter tier (w_limited w)\<rparr>)
                      else
                        on_response (add_limit_headers result)
                          (call_next rq st (w\<lparr>w_allowed := inc_counter tier (w_allowed w)\<rparr>))))
      | _ \<Rightarrow> (Inl (Py_Exn AttributeError), st, w))"

section \<open>Request id\<close>

definition choose_request_id :: "string \<Rightarrow> string option \<Rightarrow> string" where
  "choose_request_id uuid_hex incoming =
     (case incoming of
        None \<Rightarrow> ''req_'' @ take 16 uuid_hex
      | Some i \<Rightarrow> if i = [] then ''req_'' @ take 16 uuid_hex else i)"

definition request_id_dispatch :: "'r env \<Rightarrow> 'r middleware" where
  "request_id_dispatch env call_next rq st w =
     (let request_id = choose_request_id (ev_uuid_hex env) (get_header rq ''X-Request-ID'')
      in on_response (set_header ''X-Request-ID'' request_id)
           (call_next rq (st\<lparr>st_request_id := Some request_id\<rparr>) w))"

section \<open>Logging\<close>

text \<open>\<open>schedule_log\<close> builds the entry and hands the write to a background task.\<close>

definition schedule_log :: "LogEntry \<Rightarrow> 'r world \<Rightarrow> 'r world" where
  "schedule_log entry w = w\<lparr>w_tasks := w_tasks w @ [entry]\<rparr>"

definition log_entry :: "'r env \<Rightarrow> request \<Rightarrow> rstate \<Rightarrow> int \<Rightarrow> LogEntry" where
  "log_entry env rq st status =
     \<lparr>le_request_id = (case st_request_id st of None \<Rightarrow> ''unknown'' | Some i \<Rightarrow> i),
      le_user_id = (case st_user_id st of None \<Rightarrow> ''anonymous'' | Some u \<Rightarrow> u),
      le_endpoint = rq_path rq,
      le_method = rq_method rq,
      le_status_code = status,
      le_latency_ms = py_int (fl64 (fl64 (ev_perf_end env - ev_perf_start env) * 1000)),
      le_rate_limited = (case st_rate_limit_info st of None \<Rightarrow> False | Some i \<Rightarrow> \<not> lr_allowed i),
      le_ip = rq_client rq\<rparr>"

definition logging_dispatch :: "'r env \<Rightarrow> 'r middleware" where
  "logging_dispatch env call_next rq st w =
     (case call_next rq st w of
        (Inr rs, st, w) \<Rightarrow> (Inr rs, st, schedule_log (log_entry env rq st (rs_status rs)) w)
      | (Inl e, st, w) \<Rightarrow> (Inl e, st, schedule_log (log_entry env rq st 500) w))"

text \<open>\<open>_safe_write\<close>: a background task runs, at a time of the event loop's choosing; a failing
  write is swallowed, by the store and again here.\<close>

definition safe_write :: "bool \<Rightarrow> int \<Rightarrow> int \<Rightarrow> LogEntry \<Rightarrow> 'r world \<Rightarrow> 'r world" where
  "safe_write db_up row_id created_at entry w =
     w\<lparr>w_db := store_write db_up row_id created_at entry (w_db w)\<rparr>"

section \<open>Security headers\<close>

definition add_security_headers :: "settings \<Rightarrow> response \<Rightarrow> response" where
  "add_security_headers S rs =
     (let rs = set_header ''X-Content-Type-Options'' ''nosniff'' rs;
          rs = set_header ''X-Frame-Options'' ''DENY'' rs;
          rs = set_header ''X-XSS-Protection'' ''1; mode=block'' rs
      in if app_env S = Production
         then set_header ''Strict-Transport-Security'' ''max-age=31536000; includeSubDomains'' rs
         else rs)"

definition security_headers_dispatch :: "'r env \<Rightarrow> 'r middleware" where
  "security_headers_dispatch env call_next rq st w =
     on_response (add_security_headers (ev_settings env)) (call_next rq st w)"

section \<open>Registration\<close>

text \<open>\<open>app.add_middleware\<close> puts the new middleware outside those registered before it. The CORS
  and trusted-host middlewares are Starlette's, and parameters.\<close>

definition add_middleware :: "'r middleware \<Rightarrow> 'r middleware list \<Rightarrow> 'r middleware list" where
  "add_middleware m stack = m # stack"

definition wrap :: "'r middleware list \<Rightarrow> 'r handler \<Rightarrow> 'r handler" where
  "wrap stack h = foldr (\<lambda>m h. m h) stack h"

definition add_security_middleware ::
  "'r env \<Rightarrow> (string list \<Rightarrow> 'r middleware) \<Rightarrow> (string list \<Rightarrow> 'r middleware) \<Rightarrow>
   'r middleware list \<Rightarrow> 'r middleware list" where
  "add_security_middleware env trusted_host cors stack =
     (let S = ev_settings env;
          stack = (if allowed_hosts S \<noteq> [''*''] then add_middleware (trusted_host (allowed_hosts S)) stack else stack);
          stack = (if allowed_origins S \<noteq> [] then add_middleware (cors (allowed_origins S)) stack else stack)
      in add_middleware (security_headers_dispatch env) stack)"

definition register_middleware ::
  "'r env \<Rightarrow> (string list \<Rightarrow> 'r middleware) \<Rightarrow> (string list \<Rightarrow> 'r middleware) \<Rightarrow> 'r middleware list" where
  "register_middleware env trusted_host cors =
     add_security_middleware env trusted_host cors
       (add_middleware (logging_dispatch env)
       (add_middleware (request_id_dispatch env)
       (add_middleware (auth_dispatch env)
       (add_middleware (rate_limit_dispatch env) []))))"

section \<open>What a layer may do to the world\<close>

text \<open>
  The contract between a middleware and the handler it wraps, for a projection of the world: the
  middleware answers without changing that part, or it leaves it to one call of the next handler
  on the same request. Whatever relation the next handler keeps, the layer then keeps.
\<close>

definition final :: "(exn + response) \<times> rstate \<times> 'r world \<Rightarrow> 'r world" where
  "final out = snd (snd out)"

lemma final_simps [simp]: "final (res, st, w) = w" "final (on_response f out) = final out"
  by (simp_all add: final_def)

locale layer =
  fixes mw :: "'r middleware" and view :: "'r world \<Rightarrow> 'v"
  assumes layer: "view (final (mw h rq st w)) = view w
    \<or> (\<exists>st1 w1. view w1 = view w \<and> view (final (mw h rq st w)) = view (final (h rq st1 w1)))"
begin

lemma keeps:
  assumes "\<And>x. P x x" "\<And>st w. P (view w) (view (final (h rq st w)))"
  shows "P (view w) (view (final (mw h rq st w)))"
  using layer [of h rq st w] assms by metis

lemma keeps_inv:
  assumes "\<And>st w. I (view w) \<Longrightarrow> I (view (final (h rq st w)))" "I (view w)"
  shows "I (view (final (mw h rq st w)))"
  using keeps [where P = "\<lambda>x y. I x \<longrightarrow> I y"] assms by blast

end

text \<open>Everything but Redis and the counters; and that without the scheduled log writes.\<close>

definition core :: "'r world \<Rightarrow> db \<times> CircuitBreaker \<times> upstream_request list \<times> LogEntry list" where
  "core w = (w_db w, w_breaker w, w_outbox w, w_tasks w)"

definition served :: "'r world \<Rightarrow> db \<times> CircuitBreaker \<times> upstream_request list" where
  "served w = (w_db w, w_breaker w, w_outbox w)"

interpretation auth: layer "auth_dispatch env" view for env view
  by unfold_locales (auto simp: auth_dispatch_def Let_def split: option.split sum.split)

interpretation request_id: layer "request_id_dispatch env" view for env view
  by unfold_locales (auto simp: request_id_dispatch_def Let_def)

interpretation security_headers: layer "security_headers_dispatch env" view for env view
  by unfold_locales (auto simp: security_headers_dispatch_def)

interpretation logging: layer "logging_dispatch env" served for env :: "'r env"
proof unfold_locales
  fix h :: "'r handler" and rq st w
  show "served (final (logging_dispatch env h rq st w)) = served w \<or>
    (\<exists>st1 w1. served w1 = served w \<and>
      served (final (logging_dispatch env h rq st w)) = served (final (h rq st1 w1)))"
    by (intro disjI2 exI [of _ st] exI [of _ w])
       (auto simp: logging_dispatch_def served_def schedule_log_def final_def split: prod.split sum.split)
qed

lemma rate_limit_dispatch_cases:
  obtains (public) "is_public LIMIT_PUBLIC_PATH_PREFIXES (rq_path rq)"
      "rate_limit_dispatch env h rq st w = h rq st w"
    | (no_user) "\<not> is_public LIMIT_PUBLIC_PATH_PREFIXES (rq_path rq)" "st_user_id st = None \<or> st_tier st = None"
      "rate_limit_dispatch env h rq st w = (Inl (Py_Exn AttributeError), st, w)"
    | (no_db) "\<not> is_public LIMIT_PUBLIC_PATH_PREFIXES (rq_path rq)" "\<not> ev_db_up env"
      "rate_limit_dispatch env h rq st w = (Inl Db_Exn, st, w)"
    | (checked) user_id tier result r where
      "\<not> is_public LIMIT_PUBLIC_PATH_PREFIXES (rq_path rq)" "ev_db_up env"
      "st_user_id st = Some user_id" "st_tier st = Some tier"
      "check_rate_limit (ev_settings env) (ev_redis env) (ev_check_dlv env) (ev_instant env) (ev_epoch env)
         (w_db w) user_id tier (get_health_factor (ev_redis env) (ev_factor_dlv env) (ev_factor_at env) (w_redis w))
         (w_redis w) = (Inr result, r)"
      "rate_limit_dispatch env h rq st w =
         (if lr_allowed result
          then on_response (add_limit_headers result)
                 (h rq (st\<lparr>st_rate_limit_info := Some result\<rparr>)
                    (w\<lparr>w_redis := r, w_allowed := inc_counter tier (w_allowed w)\<rparr>))
          else (Inr (limited_response st result), st\<lparr>st_rate_limit_info := Some result\<rparr>,
                w\<lparr>w_redis := r, w_limited := inc_counter tier (w_limited w)\<rparr>))"
proof (cases "is_public LIMIT_PUBLIC_PATH_PREFIXES (rq_path rq)")
  case True
  then show thesis by (intro public) (simp_all add: rate_limit_dispatch_def)
next
  case False
  note np = this
  show thesis
  proof (cases "st_user_id st = None \<or> st_tier st = None")
    case True
    then show thesis using np
      by (intro no_user) (auto simp: rate_limit_dispatch_def split: option.split)
  next
    case False
    then obtain user_id tier where u: "st_user_id st = Some user_id" "st_tier st = Some tier" by auto
    show thesis
    proof (cases "ev_db_up env")
      case False
      then show thesis using np u by (intro no_db) (simp_all add: rate_limit_dispatch_def Let_def)
    next
      case True
      let ?factor = "get_health_factor (ev_redis env) (ev_factor_dlv env) (ev_factor_at env) (w_redis w)"
      let ?check = "check_rate_limit (ev_settings env) (ev_redis env) (ev_check_dlv env) (ev_instant env)
        (ev_epoch env) (w_db w) user_id tier ?factor (w_redis w)"
      obtain result r where c: "?check = (Inr result, r)"
        using redis_check_limit(2) unfolding check_rate_limit_def Let_def by (metis prod.collapse)
      show thesis
      proof (rule checked [OF np True u c])
        show "rate_limit_dispatch env h rq st w =
         (if lr_allowed result
          then on_response (add_limit_headers result)
                 (h rq (st\<lparr>st_rate_limit_info := Some result\<rparr>)
                    (w\<lparr>w_redis := r, w_allowed := inc_counter tier (w_allowed w)\<rparr>))
          else (Inr (limited_response st result), st\<lparr>st_rate_limit_info := Some result\<rparr>,
                w\<lparr>w_redis := r, w_limited := inc_counter tier (w_limited w)\<rparr>))"
          using np True u c
          by (simp add: rate_limit_dispatch_def Let_def limited_response_def)
      qed
    qed
  qed
qed

interpretation rate_limit: layer "rate_limit_dispatch env" core for env :: "'r env"
proof unfold_locales
  fix h :: "'r handler" and rq st w
  show "core (final (rate_limit_dispatch env h rq st w)) = core w \<or>
    (\<exists>st1 w1. core w1 = core w \<and>
      core (final (rate_limit_dispatch env h rq st w)) = core (final (h rq st1 w1)))"
  proof (cases rule: rate_limit_dispatch_cases [of rq env h st w])
    case (checked user_id tier result r)
    show ?thesis
    proof (cases "lr_allowed result")
      case True
      then show ?thesis
        by (intro disjI2 exI [of _ "st\<lparr>st_rate_limit_info := Some result\<rparr>"]
              exI [of _ "w\<lparr>w_redis := r, w_allowed := inc_counter tier (w_allowed w)\<rparr>"])
           (simp add: checked(6) core_def)
    qed (simp add: checked(6) core_def)
  qed auto
qed

lemmas layer_defs = auth_dispatch_def request_id_dispatch_def security_headers_dispatch_def Let_def

section \<open>Requests the third-party middlewares leave alone\<close>

text \<open>The trusted-host check passes a request with an accepted host on unchanged, CORS one without
  an \<open>Origin\<close> header; the properties of the stack are about such requests, and about every
  request when the two are not configured.\<close>

definition passes :: "'r middleware \<Rightarrow> request \<Rightarrow> bool" where
  "passes m rq \<longleftrightarrow> (\<forall>h st w. m h rq st w = h rq st w)"

definition plain_request ::
  "'r env \<Rightarrow> (string list \<Rightarrow> 'r middleware) \<Rightarrow> (string list \<Rightarrow> 'r middleware) \<Rightarrow> request \<Rightarrow> bool" where
  "plain_request env trusted_host cors rq \<longleftrightarrow>
     (allowed_hosts (ev_settings env) = [''*''] \<or> passes (trusted_host (allowed_hosts (ev_settings env))) rq)
   \<and> (allowed_origins (ev_settings env) = [] \<or> passes (cors (allowed_origins (ev_settings env))) rq)"

text \<open>The order \<open>main.py\<close> asks for, from the outermost in.\<close>

lemma wrap_register:
  assumes "plain_request env trusted_host cors rq"
  shows "wrap (register_middleware env trusted_host cors) h rq st w =
    security_headers_dispatch env (logging_dispatch env (request_id_dispatch env
      (auth_dispatch env (rate_limit_dispatch env h)))) rq st w"
  using assms
  by (auto simp: wrap_def register_middleware_def add_security_middleware_def add_middleware_def
      Let_def plain_request_def passes_def security_headers_dispatch_def)

end
