(* ===== verification/Proxy.thy ===== *)
theory Proxy
  imports Gateway_State
begin

text \<open>
  The catch-all route, \<open>app/routes/proxy.py\<close>: the request sent upstream, the call through the
  circuit breaker, the result recorded for adaptive limiting, and the response passed back.
\<close>

section \<open>The request sent upstream\<close>

definition STRIP_REQUEST_HEADERS :: "string list" where
  "STRIP_REQUEST_HEADERS = [''host'', ''authorization'', ''content-length'']"

definition forward_headers :: "request \<Rightarrow> string \<rightharpoonup> string" where
  "forward_headers rq =
     (let headers = map_of (rev [(k, v). (k, v) \<leftarrow> rq_headers rq, lower k \<notin> set STRIP_REQUEST_HEADERS])
      in case rq_client rq of
           None \<Rightarrow> headers
         | Some host \<Rightarrow> headers(''X-Forwarded-For'' \<mapsto> host))"

definition upstream_url :: "settings \<Rightarrow> string \<Rightarrow> string \<Rightarrow> string" where
  "upstream_url S path query =
     (let upstream = rstrip (CHR ''/'') (upstream_base_url S) @ ''/'' @ path
      in if query \<noteq> [] then upstream @ ''?'' @ query else upstream)"

definition upstream_call :: "settings \<Rightarrow> string \<Rightarrow> request \<Rightarrow> upstream_request" where
  "upstream_call S path rq =
     \<lparr>up_method = rq_method rq, up_url = upstream_url S path (rq_query rq),
      up_headers = forward_headers rq, up_body = rq_body rq\<rparr>"

text \<open>The request leaves, and the upstream answers.\<close>

definition do_upstream_request ::
  "'r env \<Rightarrow> upstream_request \<Rightarrow> 'r world \<Rightarrow> (http_exc, upstream_response) func_end \<times> 'r world" where
  "do_upstream_request env call w = (ev_upstream env call, w\<lparr>w_outbox := w_outbox w @ [call]\<rparr>)"

section \<open>The response passed back\<close>

definition HOP_BY_HOP :: "string list" where
  "HOP_BY_HOP =
     [''connection'', ''keep-alive'', ''proxy-authenticate'', ''proxy-authorization'',
      ''te'', ''trailers'', ''transfer-encoding'', ''upgrade'']"

definition proxied_response :: "upstream_response \<Rightarrow> response" where
  "proxied_response ur =
     \<lparr>rs_status = ur_status ur,
      rs_headers = map_of [(lower k, v). (k, v) \<leftarrow> ur_headers ur, lower k \<notin> set HOP_BY_HOP],
      rs_body = RawBody (ur_content ur)\<rparr>"

definition record_result :: "'r env \<Rightarrow> bool \<Rightarrow> 'r world \<Rightarrow> 'r world" where
  "record_result env success w =
     w\<lparr>w_redis := record_upstream_result (ev_redis env) (ev_record_dlv env) (ev_record_at env) success (w_redis w)\<rparr>"

section \<open>The route\<close>

text \<open>The message of the circuit-open error has an em dash, in UTF-8.\<close>

definition circuit_open_message :: string where
  "circuit_open_message = ''Upstream circuit open '' @ [CHR 0xE2, CHR 0x80, CHR 0x94]
     @ '' service temporarily unavailable.''"

definition proxy :: "'r env \<Rightarrow> string \<Rightarrow> 'r handler" where
  "proxy env path rq st w =
     (let call = upstream_call (ev_settings env) path rq
      in case cb_call (ev_admit_at env) (ev_end_at env) (do_upstream_request env call) (w_breaker w) w of
           (out, b, w) \<Rightarrow>
             (let w = w\<lparr>w_breaker := b\<rparr>
              in case out of
                   CircuitOpenError \<Rightarrow>
                     (Inl (Gateway_Exn (new_error UpstreamError circuit_open_message None)), st,
                      record_result env False w)
                 | FuncError TimeoutException \<Rightarrow>
                     (Inl (Gateway_Exn (new_error UpstreamTimeout ''Upstream backend timed out.'' None)), st,
                      record_result env False w)
                 | FuncError (RequestError msg) \<Rightarrow>
                     (Inl (Gateway_Exn (new_error UpstreamError (''Upstream backend error: '' @ msg) None)), st,
                      record_result env False w)
                 | FuncError (OtherException msg) \<Rightarrow> (Inl (Http_Exn msg), st, w)
                 | CallCancelled \<Rightarrow> (Inl CancelledError, st, w)
                 | Result ur \<Rightarrow>
                     (let is_server_error = 500 \<le> ur_status ur
                      in (Inr (proxied_response ur), st, record_result env (\<not> is_server_error) w))))"

section \<open>Lemmas\<close>

lemma record_result_fields [simp]:
  "w_db (record_result env b w) = w_db w" "w_breaker (record_result env b w) = w_breaker w"
  "w_outbox (record_result env b w) = w_outbox w" "w_tasks (record_result env b w) = w_tasks w"
  "w_allowed (record_result env b w) = w_allowed w" "w_limited (record_result env b w) = w_limited w"
  by (simp_all add: record_result_def)

text \<open>The route as a table over the breaker's decision and the upstream's behaviour.\<close>

lemma proxy_rejected:
  assumes "cb_admit (ev_admit_at env) (w_breaker w) = (False, b)"
  shows "proxy env path rq st w =
    (Inl (Gateway_Exn (new_error UpstreamError circuit_open_message None)), st,
     record_result env False (w\<lparr>w_breaker := b\<rparr>))"
  using assms by (simp add: proxy_def cb_call_def Let_def)

lemma proxy_admitted:
  assumes "cb_admit (ev_admit_at env) (w_breaker w) = (True, b)"
    and call: "call = upstream_call (ev_settings env) path rq"
  shows "proxy env path rq st w =
    (let sent = w\<lparr>w_outbox := w_outbox w @ [call]\<rparr>;
         failed = sent\<lparr>w_breaker := cb_failure (ev_end_at env) b\<rparr>
     in case ev_upstream env call of
          Returns ur \<Rightarrow>
            (Inr (proxied_response ur), st,
             record_result env (\<not> 500 \<le> ur_status ur) (sent\<lparr>w_breaker := cb_success b\<rparr>))
        | Raises TimeoutException \<Rightarrow>
            (Inl (Gateway_Exn (new_error UpstreamTimeout ''Upstream backend timed out.'' None)), st,
             record_result env False failed)
        | Raises (RequestError msg) \<Rightarrow>
            (Inl (Gateway_Exn (new_error UpstreamError (''Upstream backend error: '' @ msg) None)), st,
             record_result env False failed)
        | Raises (OtherException msg) \<Rightarrow> (Inl (Http_Exn msg), st, failed)
        | Cancelled \<Rightarrow> (Inl CancelledError, st, sent\<lparr>w_breaker := b\<rparr>))"
  using assms
  by (simp add: proxy_def cb_call_def do_upstream_request_def Let_def
      split: func_end.split http_exc.split)

lemma proxy_outbox:
  "w_outbox (snd (snd (proxy env path rq st w))) =
     (if fst (cb_admit (ev_admit_at env) (w_breaker w))
      then w_outbox w @ [upstream_call (ev_settings env) path rq] else w_outbox w)"
proof (cases "cb_admit (ev_admit_at env) (w_breaker w)")
  case (Pair adm b)
  then show ?thesis
    by (cases adm) (simp_all add: proxy_rejected proxy_admitted Let_def split: func_end.split http_exc.split)
qed

lemma proxy_fields:
  "fst (snd (proxy env path rq st w)) = st"
  "w_db (snd (snd (proxy env path rq st w))) = w_db w"
  "w_tasks (snd (snd (proxy env path rq st w))) = w_tasks w"
  "w_allowed (snd (snd (proxy env path rq st w))) = w_allowed w"
  "w_limited (snd (snd (proxy env path rq st w))) = w_limited w"
proof -
  obtain adm b where adm: "cb_admit (ev_admit_at env) (w_breaker w) = (adm, b)" by fastforce
  show "fst (snd (proxy env path rq st w)) = st"
    "w_db (snd (snd (proxy env path rq st w))) = w_db w"
    "w_tasks (snd (snd (proxy env path rq st w))) = w_tasks w"
    "w_allowed (snd (snd (proxy env path rq st w))) = w_allowed w"
    "w_limited (snd (snd (proxy env path rq st w))) = w_limited w"
    using adm by (cases adm; simp add: proxy_rejected proxy_admitted Let_def split: func_end.split http_exc.split)+
qed

section \<open>Properties\<close>

lemma map_of_filtered:
  "map_of [(k, v). (k, v) \<leftarrow> kvs, P k] k = (if P k then map_of kvs k else None)"
  by (induction kvs) auto

lemma map_of_filtered_lower:
  "map_of [(lower k, v). (k, v) \<leftarrow> kvs, P (lower k)] k' =
     (if P k' then map_of (map (\<lambda>(k, v). (lower k, v)) kvs) k' else None)"
  by (induction kvs) auto

lemma map_of_rev_filtered:
  "map_of (rev [(k, v). (k, v) \<leftarrow> kvs, P k]) k = (if P k then map_of (rev kvs) k else None)"
proof -
  have "rev [(k, v). (k, v) \<leftarrow> kvs, P k] = [(k, v). (k, v) \<leftarrow> rev kvs, P k]"
    by (induction kvs) auto
  then show ?thesis by (simp add: map_of_filtered)
qed

text \<open>What the upstream is told: of a request header that arrived several times it gets the last
  value; it never gets \<open>Host\<close>, \<open>Authorization\<close> (the client's token) or \<open>Content-Length\<close>, in
  whatever case they were written; every other header is passed on; and \<open>X-Forwarded-For\<close> is the
  client's address when it is known.\<close>

lemma forwarded_headers:
  "forward_headers rq k =
     (if k = ''X-Forwarded-For'' \<and> rq_client rq \<noteq> None then rq_client rq
      else if lower k \<in> {''host'', ''authorization'', ''content-length''} then None
      else map_of (rev (rq_headers rq)) k)"
  by (auto simp: forward_headers_def Let_def map_of_rev_filtered STRIP_REQUEST_HEADERS_def split: option.split)

text \<open>The address the gateway adds does not replace one the client sent: names of received
  headers are in lower case, the added one is not, so the upstream gets both, the client's own
  claim included.\<close>

lemma forwarded_for_spoofable:
  assumes "rq_client rq = Some host" "map_of (rev (rq_headers rq)) ''x-forwarded-for'' = Some claim"
  shows "forward_headers rq ''X-Forwarded-For'' = Some host
    \<and> forward_headers rq ''x-forwarded-for'' = Some claim"
proof -
  have "lower ''x-forwarded-for'' = ''x-forwarded-for''" by code_simp
  then show ?thesis
    using assms
    by (simp add: forward_headers_def Let_def map_of_rev_filtered STRIP_REQUEST_HEADERS_def)
qed

lemma forwarded_for_spoofable_witness:
  "forward_headers (sample_request ''GET'' ''/get'' [(''x-forwarded-for'', ''10.0.0.1'')]) ''x-forwarded-for''
     = Some ''10.0.0.1''"
  using forwarded_for_spoofable
    [of "sample_request ''GET'' ''/get'' [(''x-forwarded-for'', ''10.0.0.1'')]" "''192.0.2.7''" "''10.0.0.1''"]
  by (simp add: sample_request_def)

text \<open>What the client gets back of an upstream response: its status, its body, and every header
  except the hop-by-hop ones, \<open>content-encoding\<close> and \<open>content-length\<close> included, although the
  body handed on is the decoded one.\<close>

lemma proxied_response_headers:
  "rs_status (proxied_response ur) = ur_status ur
   \<and> rs_body (proxied_response ur) = RawBody (ur_content ur)
   \<and> header (proxied_response ur) k =
       (if lower k \<in> set HOP_BY_HOP then None
        else map_of (map (\<lambda>(k, v). (lower k, v)) (ur_headers ur)) (lower k))
   \<and> header (proxied_response ur) ''content-encoding'' =
        map_of (map (\<lambda>(k, v). (lower k, v)) (ur_headers ur)) ''content-encoding''"
proof -
  have "lower ''content-encoding'' = ''content-encoding''" by code_simp
  moreover have "''content-encoding'' \<notin> set HOP_BY_HOP" by (simp add: HOP_BY_HOP_def)
  ultimately show ?thesis
    by (simp add: proxied_response_def header_def map_of_filtered_lower [where P = "\<lambda>k. k \<notin> set HOP_BY_HOP"])
qed

text \<open>Failing fast: while the breaker is open and its recovery time has not passed, no request
  leaves for the upstream, the breaker does not move, and the route raises \<open>UpstreamError\<close>, which
  the client sees as status 502.\<close>

lemma open_circuit_fails_fast:
  assumes "cb_state (w_breaker w) = OPEN"
    and "fl64 (ev_admit_at env - cb_opened_at (w_breaker w)) < cb_recovery_timeout (w_breaker w)"
  shows "\<exists>e. fst (proxy env path rq st w) = Inl (Gateway_Exn e)
      \<and> exc_class e = UpstreamError \<and> status_code (exc_class e) = 502
    \<and> w_outbox (snd (snd (proxy env path rq st w))) = w_outbox w
    \<and> w_breaker (snd (snd (proxy env path rq st w))) = w_breaker w"
proof -
  have "cb_admit (ev_admit_at env) (w_breaker w) = (False, w_breaker w)"
    using assms by (simp add: cb_admit_def)
  from proxy_rejected [OF this] show ?thesis by (simp add: new_error_def)
qed

lemma open_circuit_fails_fast_witness:
  "let b = upstream_breaker\<lparr>cb_state := OPEN, cb_failures := 5, cb_opened_at := 470\<rparr>;
       w = (demo_world demo_empty)\<lparr>w_breaker := b\<rparr>;
       rq = sample_request ''GET'' ''/get'' []
   in \<exists>e. fst (proxy demo_env ''get'' rq fresh_state w) = Inl (Gateway_Exn e)
        \<and> status_code (exc_class e) = 502
        \<and> w_outbox (snd (snd (proxy demo_env ''get'' rq fresh_state w))) = []"
proof -
  let ?w = "(demo_world demo_empty)\<lparr>w_breaker := upstream_breaker\<lparr>cb_state := OPEN, cb_failures := 5,
      cb_opened_at := 470\<rparr>\<rparr>"
  have "cb_state (w_breaker ?w) = OPEN"
    "fl64 (ev_admit_at demo_env - cb_opened_at (w_breaker ?w)) < cb_recovery_timeout (w_breaker ?w)"
    by (simp_all add: demo_env_def upstream_breaker_def new_breaker_def)
  from open_circuit_fails_fast [OF this, of "''get''" "sample_request ''GET'' ''/get'' []" fresh_state]
  show ?thesis by (auto simp: Let_def demo_world_def)
qed

end
