(* ===== verification/Admin.thy ===== *)
theory Admin
  imports Gateway_State
begin

text \<open>
  The routes that are not proxied: \<open>app/routes/admin.py\<close>, \<open>app/routes/auth.py\<close> and
  \<open>app/routes/health.py\<close>, the admin guard of \<open>app/dependencies.py\<close> and the schemas of
  \<open>app/models/schemas.py\<close>. A body that is not JSON is refused before the dependencies run, one
  that does not fit its schema after them.
\<close>

section \<open>The admin guard\<close>

definition admin_key_ok :: "settings \<Rightarrow> request \<Rightarrow> bool" where
  "admin_key_ok S rq \<longleftrightarrow>
     (case get_header rq ''x-admin-key'' of
        None \<Rightarrow> False
      | Some key \<Rightarrow> key \<noteq> [] \<and> key = admin_api_key S)"

definition require_admin :: "'r env \<Rightarrow> 'r middleware" where
  "require_admin env route rq st w =
     (if \<not> admin_key_ok (ev_settings env) rq
      then (Inl (HTTPException 401 ''Invalid or missing admin key.'' [(''WWW-Authenticate'', ''X-Admin-Key'')]), st, w)
      else route rq st w)"

section \<open>Schemas\<close>

text \<open>An optional field: absent or null is \<open>Some None\<close>, a value of the wrong type \<open>None\<close>.\<close>

definition optional_field :: "(json \<Rightarrow> 'a option) \<Rightarrow> json \<Rightarrow> string \<Rightarrow> 'a option option" where
  "optional_field as body name =
     (case json_get body name of
        None \<Rightarrow> Some None
      | Some JNull \<Rightarrow> Some None
      | Some j \<Rightarrow> map_option Some (as j))"

record QuotaOverrideCreate =
  qc_custom_limit :: int
  qc_reason :: "string option"
  qc_expires_at :: "int option"

definition parse_quota_create :: "codec \<Rightarrow> json \<Rightarrow> QuotaOverrideCreate option" where
  "parse_quota_create C body =
     (case Option.bind (json_get body ''custom_limit'') (as_int C) of
        None \<Rightarrow> None
      | Some limit \<Rightarrow>
        (case optional_field (as_str C) body ''reason'' of
           None \<Rightarrow> None
         | Some reason \<Rightarrow>
           (case optional_field (as_datetime C) body ''expires_at'' of
              None \<Rightarrow> None
            | Some expires_at \<Rightarrow>
                if 0 < limit \<and> limit \<le> 1000000
                   \<and> (case reason of None \<Rightarrow> True | Some s \<Rightarrow> length s \<le> 512)
                then Some \<lparr>qc_custom_limit = limit, qc_reason = reason, qc_expires_at = expires_at\<rparr>
                else None)))"

definition quota_response :: "codec \<Rightarrow> UserQuotaOverride \<Rightarrow> json" where
  "quota_response C q = JObj
     [(''user_id'', JStr (q_user_id q)),
      (''custom_limit'', JInt (q_custom_limit q)),
      (''reason'', case q_reason q of None \<Rightarrow> JNull | Some s \<Rightarrow> JStr s),
      (''created_at'', JStr (iso C (q_created_at q))),
      (''expires_at'', case q_expires_at q of None \<Rightarrow> JNull | Some t \<Rightarrow> JStr (iso C t))]"

record TokenRequest =
  tr_user_id :: string
  tr_tier :: string

definition parse_token_request :: "codec \<Rightarrow> json \<Rightarrow> TokenRequest option" where
  "parse_token_request C body =
     (case Option.bind (json_get body ''user_id'') (as_str C) of
        None \<Rightarrow> None
      | Some user_id \<Rightarrow>
          let tier = (case json_get body ''tier'' of
                        None \<Rightarrow> Some ''free''
                      | Some (JStr t) \<Rightarrow> if t \<in> {''free'', ''pro'', ''enterprise''} then Some t else None
                      | Some _ \<Rightarrow> None)
          in case tier of
               None \<Rightarrow> None
             | Some t \<Rightarrow> if 1 \<le> length user_id \<and> length user_id \<le> 128
                         then Some \<lparr>tr_user_id = user_id, tr_tier = t\<rparr> else None)"

definition token_response :: "string \<Rightarrow> int \<Rightarrow> json" where
  "token_response access_token expires_in = JObj
     [(''access_token'', JStr access_token), (''token_type'', JStr ''bearer''), (''expires_in'', JInt expires_in)]"

text \<open>A route with a body: parse, run the dependencies, validate, run the route.\<close>

definition with_body ::
  "'r env \<Rightarrow> ('r middleware) \<Rightarrow> (codec \<Rightarrow> json \<Rightarrow> 'b option) \<Rightarrow> ('b \<Rightarrow> 'r handler) \<Rightarrow> 'r handler" where
  "with_body env deps parse route rq st w =
     (case read_body (ev_codec env) rq of
        Malformed \<Rightarrow> (Inl RequestValidationError, st, w)
      | No_Body \<Rightarrow> deps (\<lambda>rq st w. (Inl RequestValidationError, st, w)) rq st w
      | Body j \<Rightarrow>
          deps (\<lambda>rq st w. case parse (ev_codec env) j of
                            None \<Rightarrow> (Inl RequestValidationError, st, w)
                          | Some b \<Rightarrow> route b rq st w) rq st w)"

section \<open>Quota overrides\<close>

definition upsert_quota :: "'r env \<Rightarrow> string \<Rightarrow> QuotaOverrideCreate \<Rightarrow> 'r handler" where
  "upsert_quota env user_id body rq st w =
     (if \<not> ev_db_up env then (Inl Db_Exn, st, w)
      else case db_quotas (w_db w) user_id of
        None \<Rightarrow>
          if 128 < length user_id then (Inl Db_Exn, st, w)
          else
            let row = \<lparr>q_user_id = user_id, q_custom_limit = qc_custom_limit body, q_reason = qc_reason body,
                       q_created_at = ev_instant env, q_expires_at = qc_expires_at body\<rparr>
            in (Inr (json_response 200 (quota_response (ev_codec env) row) []), st,
                w\<lparr>w_db := (w_db w)\<lparr>db_quotas := (db_quotas (w_db w))(user_id \<mapsto> row)\<rparr>\<rparr>)
      | Some existing \<Rightarrow>
          let row = existing\<lparr>q_custom_limit := qc_custom_limit body, q_reason := qc_reason body,
                             q_expires_at := qc_expires_at body\<rparr>
          in (Inr (json_response 200 (quota_response (ev_codec env) row) []), st,
              w\<lparr>w_db := (w_db w)\<lparr>db_quotas := (db_quotas (w_db w))(user_id \<mapsto> row)\<rparr>\<rparr>))"

definition get_quota :: "'r env \<Rightarrow> string \<Rightarrow> 'r handler" where
  "get_quota env user_id rq st w =
     (if \<not> ev_db_up env then (Inl Db_Exn, st, w)
      else case db_quotas (w_db w) user_id of
        None \<Rightarrow>
          (Inl (Gateway_Exn (new_error NotFoundError
             (''No quota override for user '' @ [CHR 0x27] @ user_id @ [CHR 0x27] @ ''.'') None)), st, w)
      | Some q \<Rightarrow> (Inr (json_response 200 (quota_response (ev_codec env) q) []), st, w))"

definition no_content :: response where
  "no_content = \<lparr>rs_status = 204, rs_headers = Map.empty, rs_body = RawBody []\<rparr>"

definition delete_quota :: "'r env \<Rightarrow> string \<Rightarrow> 'r handler" where
  "delete_quota env user_id rq st w =
     (if \<not> ev_db_up env then (Inl Db_Exn, st, w)
      else (Inr no_content, st,
            w\<lparr>w_db := (w_db w)\<lparr>db_quotas := (db_quotas (w_db w))(user_id := None)\<rparr>\<rparr>))"

section \<open>Logs, statistics, upstream health\<close>

definition log_response :: "codec \<Rightarrow> LogEntry \<Rightarrow> json" where
  "log_response C e = JObj
     [(''request_id'', JStr (le_request_id e)), (''user_id'', JStr (le_user_id e)),
      (''endpoint'', JStr (le_endpoint e)), (''method'', JStr (le_method e)),
      (''status_code'', JInt (le_status_code e)), (''latency_ms'', JInt (le_latency_ms e)),
      (''rate_limited'', JBool (le_rate_limited e)),
      (''ip'', case le_ip e of None \<Rightarrow> JNull | Some ip \<Rightarrow> JStr ip),
      (''created_at'', JStr (iso C 0))]"

text \<open>\<open>limit: int = Query(default=100, ge=1, le=1000)\<close>.\<close>

definition logs_limit :: "codec \<Rightarrow> request \<Rightarrow> nat option" where
  "logs_limit C rq =
     (case query_param C rq ''limit'' of
        None \<Rightarrow> Some 100
      | Some s \<Rightarrow>
          (case as_int C (JStr s) of
             None \<Rightarrow> None
           | Some n \<Rightarrow> if 1 \<le> n \<and> n \<le> 1000 then Some (nat n) else None))"

definition list_logs :: "'r env \<Rightarrow> 'r handler" where
  "list_logs env rq st w =
     (case logs_limit (ev_codec env) rq of
        None \<Rightarrow> (Inl RequestValidationError, st, w)
      | Some limit \<Rightarrow>
          if \<not> ev_db_up env then (Inl Db_Exn, st, w)
          else
            let entries = store_query (ev_sql env) (query_param (ev_codec env) rq ''user_id'') limit (w_db w)
            in (Inr (json_response 200 (JArr (map (log_response (ev_codec env)) entries)) []), st, w))"

definition get_stats :: "'r env \<Rightarrow> 'r handler" where
  "get_stats env rq st w =
     (if \<not> ev_db_up env then (Inl Db_Exn, st, w)
      else
        let s = store_stats (ev_sql env) (ev_instant env) (query_param (ev_codec env) rq ''user_id'') (w_db w)
                  (fst (ev_later env (w_db w))) (snd (ev_later env (w_db w)))
        in (Inr (json_response 200 (JObj
              [(''total_requests'', JInt (int (total_requests s))),
               (''total_rate_limited'', JInt (int (total_rate_limited s))),
               (''avg_latency_ms'', JFloat (avg_latency_ms s)),
               (''period_start'', JStr (iso (ev_codec env) (period_start s))),
               (''period_end'', JStr (iso (ev_codec env) (period_end s)))]) []), st, w))"

definition upstream_health :: "'r env \<Rightarrow> 'r handler" where
  "upstream_health env rq st w =
     (Inr (json_response 200
        (get_health_status (ev_redis env) (ev_factor_dlv env) (ev_redis_error env) (ev_factor_at env) (w_redis w)) []),
      st, w)"

section \<open>Tokens\<close>

definition mint_token :: "'r env \<Rightarrow> TokenRequest \<Rightarrow> 'r handler" where
  "mint_token env body rq st w =
     (case issue_token (ev_settings env) (ev_jose env) (ev_instant env) (tr_user_id body) (tr_tier body) of
        Inl e \<Rightarrow> (Inl (Mint_Exn e), st, w)
      | Inr (token, expires_in) \<Rightarrow> (Inr (json_response 200 (token_response token expires_in) []), st, w))"

text \<open>The dependency list of \<open>POST /auth/token\<close>: the admin guard in production, none elsewhere.\<close>

definition token_dependencies :: "'r env \<Rightarrow> 'r middleware" where
  "token_dependencies env =
     (if app_env (ev_settings env) = Production then require_admin env else (\<lambda>route. route))"

section \<open>Liveness and readiness\<close>

definition health :: "'r handler" where
  "health rq st w = (Inr (json_response 200 (JObj [(''status'', JStr ''ok'')]) []), st, w)"

text \<open>\<open>ev_redis_ping\<close> is the message of the exception \<open>PING\<close> raises, if it does; \<open>ev_db_error\<close> that
  of the database when it is down.\<close>

definition ready :: "'r env \<Rightarrow> 'r handler" where
  "ready env rq st w =
     (let redis = (case ev_redis_ping env of None \<Rightarrow> ''ok'' | Some msg \<Rightarrow> ''error: '' @ msg);
          postgres = (if ev_db_up env then ''ok'' else ''error: '' @ ev_db_error env);
          healthy = (ev_redis_ping env = None \<and> ev_db_up env);
          code = (if healthy then 200 else 503)
      in (Inr (json_response code (JObj
            [(''status'', JStr (if healthy then ''ok'' else ''degraded'')),
             (''redis'', JStr redis), (''postgres'', JStr postgres)]) []), st, w))"

section \<open>Properties\<close>

lemma parse_quota_create_Some:
  "parse_quota_create C body = Some q \<Longrightarrow>
     1 \<le> qc_custom_limit q \<and> qc_custom_limit q \<le> 1000000
   \<and> (case qc_reason q of None \<Rightarrow> True | Some s \<Rightarrow> length s \<le> 512)"
  by (auto simp: parse_quota_create_def split: option.splits if_splits)

text \<open>What the quota table holds when only this route writes it.\<close>

definition quota_row_ok :: "string \<Rightarrow> UserQuotaOverride \<Rightarrow> bool" where
  "quota_row_ok u q \<longleftrightarrow> q_user_id q = u \<and> length u \<le> 128
     \<and> 1 \<le> q_custom_limit q \<and> q_custom_limit q \<le> 1000000
     \<and> (case q_reason q of None \<Rightarrow> True | Some s \<Rightarrow> length s \<le> 512)"

definition quotas_ok :: "db \<Rightarrow> bool" where
  "quotas_ok d \<longleftrightarrow> (\<forall>u q. db_quotas d u = Some q \<longrightarrow> quota_row_ok u q)"

lemma upsert_quota_row:
  assumes "ev_db_up env" "length user_id \<le> 128"
  obtains row where
    "upsert_quota env user_id body rq st w =
       (Inr (json_response 200 (quota_response (ev_codec env) row) []), st,
        w\<lparr>w_db := (w_db w)\<lparr>db_quotas := (db_quotas (w_db w))(user_id \<mapsto> row)\<rparr>\<rparr>)"
    "q_custom_limit row = qc_custom_limit body" "q_reason row = qc_reason body"
    "q_expires_at row = qc_expires_at body"
    "q_created_at row = (case db_quotas (w_db w) user_id of None \<Rightarrow> ev_instant env | Some old \<Rightarrow> q_created_at old)"
    "q_user_id row = (case db_quotas (w_db w) user_id of None \<Rightarrow> user_id | Some old \<Rightarrow> q_user_id old)"
proof (cases "db_quotas (w_db w) user_id")
  case None
  show thesis
    by (rule that [of "\<lparr>q_user_id = user_id, q_custom_limit = qc_custom_limit body, q_reason = qc_reason body,
          q_created_at = ev_instant env, q_expires_at = qc_expires_at body\<rparr>"])
       (use assms None in \<open>simp_all add: upsert_quota_def Let_def\<close>)
next
  case (Some old)
  show thesis
    by (rule that [of "old\<lparr>q_custom_limit := qc_custom_limit body, q_reason := qc_reason body,
          q_expires_at := qc_expires_at body\<rparr>"])
       (use assms Some in \<open>simp_all add: upsert_quota_def Let_def\<close>)
qed

text \<open>C26. Put, then get: an accepted override is what a following read returns and what the rate
  limiter then applies to that user, until it expires; the row keeps the creation time of the
  first put; a delete brings the tier default back and the read then answers \<open>NOT_FOUND\<close>.\<close>

theorem quota_put_get_delete:
  assumes "ev_db_up env" "length user_id \<le> 128"
    and "upsert_quota env user_id body rq st w = (out, st', w')"
  shows "\<exists>row. out = Inr (json_response 200 (quota_response (ev_codec env) row) [])
    \<and> db_quotas (w_db w') = (db_quotas (w_db w))(user_id \<mapsto> row)
    \<and> fst (get_quota env user_id rq st w') = out
    \<and> q_custom_limit row = qc_custom_limit body \<and> q_reason row = qc_reason body
    \<and> q_created_at row = (case db_quotas (w_db w) user_id of None \<Rightarrow> ev_instant env | Some old \<Rightarrow> q_created_at old)
    \<and> (\<forall>now tier. resolve_limit S now (w_db w') user_id tier =
         (case qc_expires_at body of
            None \<Rightarrow> qc_custom_limit body
          | Some e \<Rightarrow> if e < now then tier_default S tier else qc_custom_limit body))
    \<and> (\<forall>now tier. resolve_limit S now (w_db (snd (snd (delete_quota env user_id rq st w')))) user_id tier =
         tier_default S tier)
    \<and> (\<exists>e. fst (get_quota env user_id rq st (snd (snd (delete_quota env user_id rq st w')))) = Inl (Gateway_Exn e)
            \<and> exc_class e = NotFoundError)"
proof -
  obtain row where row: "upsert_quota env user_id body rq st w =
       (Inr (json_response 200 (quota_response (ev_codec env) row) []), st,
        w\<lparr>w_db := (w_db w)\<lparr>db_quotas := (db_quotas (w_db w))(user_id \<mapsto> row)\<rparr>\<rparr>)"
    and f: "q_custom_limit row = qc_custom_limit body" "q_reason row = qc_reason body"
    "q_expires_at row = qc_expires_at body"
    "q_created_at row = (case db_quotas (w_db w) user_id of None \<Rightarrow> ev_instant env | Some old \<Rightarrow> q_created_at old)"
    by (rule upsert_quota_row [OF assms(1,2), of body rq st w])
  show ?thesis
    by (rule exI [of _ row])
       (use assms(1,3) row f in \<open>auto simp: get_quota_def delete_quota_def resolve_limit_def
          lookup_override_def new_error_def split: option.split\<close>)
qed

theorem quota_put_get_delete_witness:
  "let body = \<lparr>qc_custom_limit = 3, qc_reason = Some ''demo'', qc_expires_at = None\<rparr>;
       rq = sample_request ''PUT'' ''/admin/quota/alice'' [];
       w' = snd (snd (upsert_quota demo_env ''alice'' body rq fresh_state (demo_world demo_empty)))
   in resolve_limit test_settings 0 (w_db w') ''alice'' ''free'' = 3"
proof -
  let ?body = "\<lparr>qc_custom_limit = 3, qc_reason = Some ''demo'', qc_expires_at = None\<rparr>"
  let ?rq = "sample_request ''PUT'' ''/admin/quota/alice'' []"
  obtain out st' w' where run:
    "upsert_quota demo_env ''alice'' ?body ?rq fresh_state (demo_world demo_empty) = (out, st', w')"
    using prod_cases3 by blast
  have "ev_db_up demo_env" by (simp add: demo_env_def)
  from quota_put_get_delete [OF this _ run, of test_settings] run
  show ?thesis by (auto simp: Let_def)
qed

end
