(* ===== verification/App.thy ===== *)
theory App
  imports Middleware Proxy Admin
begin

text \<open>
  The application of \<open>app/main.py\<close>: the route table in registration order, the exception
  handlers around the routes, and the whole stack from the outermost middleware in. A request is
  handled from start to end in one step of the world; what other requests do in between is the
  subject of theories Circuit_Breaker, Redis_Limiter and Interleaving.
\<close>

section \<open>Routing\<close>

datatype endpoint =
    Docs_Page string
  | Health_Route
  | Ready_Route
  | Token_Route
  | Put_Quota string
  | Get_Quota string
  | Delete_Quota string
  | Logs_Route
  | Stats_Route
  | Upstream_Health_Route
  | Metrics_Route
  | Proxy_Route string

text \<open>The patterns: a fixed path, \<open>/admin/quota/{user_id}\<close> (one nonempty segment), and
  \<open>/{path:path}\<close>.\<close>

definition fixed :: "string \<Rightarrow> endpoint \<Rightarrow> string \<Rightarrow> endpoint option" where
  "fixed p e path = (if path = p then Some e else None)"

definition quota_path :: "(string \<Rightarrow> endpoint) \<Rightarrow> string \<Rightarrow> endpoint option" where
  "quota_path e path =
     (let user_id = removeprefix path ''/admin/quota/''
      in if startswith path ''/admin/quota/'' \<and> user_id \<noteq> [] \<and> CHR ''/'' \<notin> set user_id
         then Some (e user_id) else None)"

definition any_path :: "string \<Rightarrow> endpoint option" where
  "any_path path = (if startswith path ''/'' then Some (Proxy_Route (drop 1 path)) else None)"

text \<open>Registration order: FastAPI's own pages, health, auth, admin, metrics, and the catch-all last.\<close>

definition route_table :: "(string list \<times> (string \<Rightarrow> endpoint option)) list" where
  "route_table =
     [([''GET'', ''HEAD''], fixed ''/openapi.json'' (Docs_Page ''/openapi.json'')),
      ([''GET'', ''HEAD''], fixed ''/docs'' (Docs_Page ''/docs'')),
      ([''GET'', ''HEAD''], fixed ''/docs/oauth2-redirect'' (Docs_Page ''/docs/oauth2-redirect'')),
      ([''GET'', ''HEAD''], fixed ''/redoc'' (Docs_Page ''/redoc'')),
      ([''GET''], fixed ''/health'' Health_Route),
      ([''GET''], fixed ''/ready'' Ready_Route),
      ([''POST''], fixed ''/auth/token'' Token_Route),
      ([''PUT''], quota_path Put_Quota),
      ([''GET''], quota_path Get_Quota),
      ([''DELETE''], quota_path Delete_Quota),
      ([''GET''], fixed ''/admin/logs'' Logs_Route),
      ([''GET''], fixed ''/admin/stats'' Stats_Route),
      ([''GET''], fixed ''/admin/upstream-health'' Upstream_Health_Route),
      ([''GET''], fixed ''/metrics'' Metrics_Route),
      ([''GET'', ''POST'', ''PUT'', ''DELETE'', ''PATCH'', ''HEAD'', ''OPTIONS''], any_path)]"

datatype match = Full endpoint | Wrong_Method | No_Match

text \<open>The first route whose path and method match; otherwise the first whose path matches answers
  405.\<close>

fun find_route :: "(string list \<times> (string \<Rightarrow> endpoint option)) list \<Rightarrow> string \<Rightarrow> string \<Rightarrow> match" where
  "find_route [] verb path = No_Match"
| "find_route ((verbs, pattern) # rest) verb path =
     (case pattern path of
        None \<Rightarrow> find_route rest verb path
      | Some e \<Rightarrow>
          if verb \<in> set verbs then Full e
          else (case find_route rest verb path of No_Match \<Rightarrow> Wrong_Method | m \<Rightarrow> m))"

definition route_of :: "string \<Rightarrow> string \<Rightarrow> match" where
  "route_of verb path = find_route route_table verb path"

definition metrics :: "'r env \<Rightarrow> 'r handler" where
  "metrics env rq st w =
     (Inr \<lparr>rs_status = 200, rs_headers = Map.empty, rs_body = RawBody (ev_metrics_page env)\<rparr>, st, w)"

definition run_endpoint :: "'r env \<Rightarrow> endpoint \<Rightarrow> 'r handler" where
  "run_endpoint env e =
     (case e of
        Docs_Page path \<Rightarrow> (\<lambda>rq st w. (Inr (ev_docs_page env path), st, w))
      | Health_Route \<Rightarrow> health
      | Ready_Route \<Rightarrow> ready env
      | Token_Route \<Rightarrow> with_body env (token_dependencies env) parse_token_request (mint_token env)
      | Put_Quota user_id \<Rightarrow> with_body env (require_admin env) parse_quota_create (upsert_quota env user_id)
      | Get_Quota user_id \<Rightarrow> require_admin env (get_quota env user_id)
      | Delete_Quota user_id \<Rightarrow> require_admin env (delete_quota env user_id)
      | Logs_Route \<Rightarrow> require_admin env (list_logs env)
      | Stats_Route \<Rightarrow> require_admin env (get_stats env)
      | Upstream_Health_Route \<Rightarrow> require_admin env (upstream_health env)
      | Metrics_Route \<Rightarrow> metrics env
      | Proxy_Route path \<Rightarrow> proxy env path)"

definition router :: "'r env \<Rightarrow> 'r handler" where
  "router env rq st w =
     (case route_of (rq_method rq) (rq_path rq) of
        Full e \<Rightarrow> run_endpoint env e rq st w
      | Wrong_Method \<Rightarrow> (Inl (HTTPException 405 ''Method Not Allowed'' []), st, w)
      | No_Match \<Rightarrow> (Inl (HTTPException 404 ''Not Found'' []), st, w))"

section \<open>Exception handlers and the stack\<close>

text \<open>The handlers know \<open>GatewayError\<close> (the application's), and \<open>HTTPException\<close> and
  \<open>RequestValidationError\<close> (FastAPI's); any other exception passes through every middleware.\<close>

definition exception_handlers :: "'r env \<Rightarrow> 'r middleware" where
  "exception_handlers env route rq st w =
     (case route rq st w of
        (Inl (Gateway_Exn e), st, w) \<Rightarrow> (Inr (handle_gateway_error (st_request_id st) e), st, w)
      | (Inl (HTTPException code detail headers), st, w) \<Rightarrow>
          (Inr (json_response code (JObj [(''detail'', JStr detail)]) headers), st, w)
      | (Inl RequestValidationError, st, w) \<Rightarrow>
          (Inr (json_response 422 (JObj [(''detail'', ev_validation_detail env)]) []), st, w)
      | out \<Rightarrow> out)"

definition app ::
  "'r env \<Rightarrow> (string list \<Rightarrow> 'r middleware) \<Rightarrow> (string list \<Rightarrow> 'r middleware) \<Rightarrow>
   request \<Rightarrow> 'r world \<Rightarrow> (exn + response) \<times> rstate \<times> 'r world" where
  "app env trusted_host cors rq w =
     wrap (register_middleware env trusted_host cors) (exception_handlers env (router env)) rq fresh_state w"

text \<open>What the client is sent. Starlette puts one more layer around every middleware: an exception that
  has passed them all is answered with a plain-text 500. A cancelled request is none of its
  exceptions, and gets nothing from the application.\<close>

definition server_error :: response where
  "server_error =
     \<lparr>rs_status = 500, rs_headers = [''content-type'' \<mapsto> ''text/plain; charset=utf-8''],
      rs_body = RawBody ''Internal Server Error''\<rparr>"

definition received :: "exn + response \<Rightarrow> response option" where
  "received res =
     (case res of
        Inr rs \<Rightarrow> Some rs
      | Inl e \<Rightarrow> if e = CancelledError then None else Some server_error)"

lemma received_Some:
  "received res = Some rs \<longleftrightarrow> res = Inr rs \<or> (\<exists>e. res = Inl e \<and> e \<noteq> CancelledError \<and> rs = server_error)"
  by (auto simp: received_def split: sum.splits if_splits)

section \<open>What a route may do\<close>

lemma final_exception_handlers [simp]:
  "final (exception_handlers env h rq st w) = final (h rq st w)"
proof -
  obtain res st' w' where h: "h rq st w = (res, st', w')" using prod_cases3 by blast
  show ?thesis
  proof (cases res)
    case (Inl e)
    then show ?thesis by (cases e) (simp_all add: exception_handlers_def h)
  qed (simp add: exception_handlers_def h)
qed

text \<open>The effect of one request on database, upstream traffic and scheduled writes: none is
  scheduled by a route and no log row is written; a quota row changes only with the admin key,
  and only into a valid one; at most one request leaves, the one the catch-all route builds.\<close>

fun route_effect ::
  "'r env \<Rightarrow> request \<Rightarrow> db \<times> CircuitBreaker \<times> upstream_request list \<times> LogEntry list \<Rightarrow>
   db \<times> CircuitBreaker \<times> upstream_request list \<times> LogEntry list \<Rightarrow> bool" where
  "route_effect env rq (d, b, sent, tasks) (d', b', sent', tasks') \<longleftrightarrow>
     tasks' = tasks \<and> db_logs d' = db_logs d \<and> (quotas_ok d \<longrightarrow> quotas_ok d')
   \<and> (d' = d \<or> admin_key_ok (ev_settings env) rq)
   \<and> (sent' = sent \<or> (\<exists>path. route_of (rq_method rq) (rq_path rq) = Full (Proxy_Route path)
                           \<and> sent' = sent @ [upstream_call (ev_settings env) path rq]))"

lemma route_effect_refl: "route_effect env rq x x"
  by (cases x) simp

lemma quotas_ok_upd:
  "quotas_ok d \<Longrightarrow> quota_row_ok u q \<Longrightarrow> quotas_ok (d\<lparr>db_quotas := (db_quotas d)(u \<mapsto> q)\<rparr>)"
  by (simp add: quotas_ok_def)

lemma upsert_quota_effect:
  assumes "parse_quota_create C j = Some body"
  shows "core (final (upsert_quota env u body rq st w)) =
      (w_db (final (upsert_quota env u body rq st w)), w_breaker w, w_outbox w, w_tasks w)"
    and "db_logs (w_db (final (upsert_quota env u body rq st w))) = db_logs (w_db w)"
    and "quotas_ok (w_db w) \<Longrightarrow> quotas_ok (w_db (final (upsert_quota env u body rq st w)))"
proof -
  note b = parse_quota_create_Some [OF assms]
  show "core (final (upsert_quota env u body rq st w)) =
      (w_db (final (upsert_quota env u body rq st w)), w_breaker w, w_outbox w, w_tasks w)"
    "db_logs (w_db (final (upsert_quota env u body rq st w))) = db_logs (w_db w)"
    by (simp_all add: upsert_quota_def core_def Let_def split: option.split)
  assume ok: "quotas_ok (w_db w)"
  show "quotas_ok (w_db (final (upsert_quota env u body rq st w)))"
    using ok b
    by (auto simp: upsert_quota_def Let_def quota_row_ok_def quotas_ok_def split: option.split)
qed

lemma require_admin_effect:
  assumes "\<And>st w. admin_key_ok (ev_settings env) rq \<Longrightarrow> route_effect env rq (core w) (core (final (h rq st w)))"
  shows "route_effect env rq (core w) (core (final (require_admin env h rq st w)))"
  using assms by (simp add: require_admin_def route_effect_refl)

lemma endpoint_effect:
  assumes "route_of (rq_method rq) (rq_path rq) = Full e"
  shows "route_effect env rq (core w) (core (final (run_endpoint env e rq st w)))"
proof (cases e)
  case (Token_Route)
  have "core (final (mint_token env b rq st w)) = core w" for b st w
    by (simp add: mint_token_def split: sum.split prod.split)
  then show ?thesis using Token_Route
    by (auto simp: run_endpoint_def with_body_def token_dependencies_def require_admin_def
        route_effect_refl split: body_in.split option.split)
next
  case (Put_Quota u)
  have "route_effect env rq (core w) (core (final (upsert_quota env u b rq st w)))"
    if "parse_quota_create (ev_codec env) j = Some b" "admin_key_ok (ev_settings env) rq" for b j st w
    using upsert_quota_effect [OF that(1), where env = env and u = u and rq = rq and st = st and w = w] that(2) by (simp add: core_def)
  then show ?thesis using Put_Quota
    by (auto simp: run_endpoint_def with_body_def route_effect_refl
        intro!: require_admin_effect split: body_in.split option.split)
next
  case (Delete_Quota u)
  have "route_effect env rq (core w) (core (final (delete_quota env u rq st w)))"
    if "admin_key_ok (ev_settings env) rq" for st w
    using that by (simp add: delete_quota_def core_def quotas_ok_def)
  then show ?thesis using Delete_Quota by (simp add: run_endpoint_def require_admin_effect)
next
  case (Proxy_Route path)
  show ?thesis
    using proxy_outbox [of env path rq st w] proxy_fields(2,3) [of env path rq st w] assms
    by (auto simp: Proxy_Route run_endpoint_def core_def final_def)
qed (auto simp: run_endpoint_def require_admin_def health_def ready_def get_quota_def list_logs_def
      get_stats_def upstream_health_def metrics_def Let_def route_effect_refl split: option.split)

lemma router_effect:
  "route_effect env rq (core w) (core (final (exception_handlers env (router env) rq st w)))"
proof (cases "route_of (rq_method rq) (rq_path rq)")
  case (Full e)
  then show ?thesis using endpoint_effect [OF Full, of env w st] by (simp add: router_def)
qed (simp_all add: router_def route_effect_refl)

section \<open>The stack\<close>

definition routes :: "'r env \<Rightarrow> 'r handler" where
  "routes env = exception_handlers env (router env)"

definition inner :: "'r env \<Rightarrow> 'r handler" where
  "inner env = auth_dispatch env (rate_limit_dispatch env (routes env))"

definition request_id_of :: "'r env \<Rightarrow> request \<Rightarrow> string" where
  "request_id_of env rq = choose_request_id (ev_uuid_hex env) (get_header rq ''X-Request-ID'')"

definition start_state :: "'r env \<Rightarrow> request \<Rightarrow> rstate" where
  "start_state env rq = fresh_state\<lparr>st_request_id := Some (request_id_of env rq)\<rparr>"

lemma app_inner:
  assumes "plain_request env trusted_host cors rq" "inner env rq (start_state env rq) w = (res, st, w1)"
  shows "app env trusted_host cors rq w =
    (case res of
       Inr rs \<Rightarrow> (Inr (add_security_headers (ev_settings env) (set_header ''X-Request-ID'' (request_id_of env rq) rs)),
                 st, schedule_log (log_entry env rq st (rs_status rs)) w1)
     | Inl e \<Rightarrow> (Inl e, st, schedule_log (log_entry env rq st 500) w1))"
  using assms(2)
  by (simp add: app_def wrap_register [OF assms(1)] inner_def routes_def start_state_def request_id_of_def
      security_headers_dispatch_def logging_dispatch_def request_id_dispatch_def Let_def split: sum.split)

lemma routes_effect: "route_effect env rq (core w) (core (final (routes env rq st w)))"
  unfolding routes_def by (rule router_effect)

text \<open>Layer by layer, from the routes out.\<close>

lemma inner_effect: "route_effect env rq (core w) (core (final (inner env rq st w)))"
  unfolding inner_def
proof (rule auth.keeps [where P = "route_effect env rq" and view = core])
  show "route_effect env rq x x" for x by (rule route_effect_refl)
  fix st and w :: "'a world"
  show "route_effect env rq (core w) (core (final (rate_limit_dispatch env (routes env) rq st w)))"
    by (rule rate_limit.keeps [where P = "route_effect env rq"]) (rule route_effect_refl, rule routes_effect)
qed

lemma app_effect:
  assumes "plain_request env trusted_host cors rq"
  obtains entry where
    "w_tasks (final (app env trusted_host cors rq w)) = w_tasks w @ [entry]"
    "route_effect env rq (w_db w, w_breaker w, w_outbox w, [])
       (w_db (final (app env trusted_host cors rq w)), w_breaker (final (app env trusted_host cors rq w)),
        w_outbox (final (app env trusted_host cors rq w)), [])"
proof -
  obtain res st w1 where i: "inner env rq (start_state env rq) w = (res, st, w1)"
    using prod_cases3 by blast
  have eff: "route_effect env rq (core w) (core w1)"
    using inner_effect [of env rq w "start_state env rq"] by (simp add: i)
  have "\<exists>status. app env trusted_host cors rq w =
      (fst (app env trusted_host cors rq w), st, schedule_log (log_entry env rq st status) w1)"
    by (cases res) (auto simp: app_inner [OF assms i])
  then obtain status where "final (app env trusted_host cors rq w) = schedule_log (log_entry env rq st status) w1"
    by (metis final_simps(1))
  then show thesis
    using eff by (intro that [of "log_entry env rq st status"]) (auto simp: schedule_log_def core_def)
qed

lemma router_state: "fst (snd (routes env rq st w)) = st"
proof -
  have "fst (snd (run_endpoint env e rq st w)) = st" for e
    by (cases e)
       (auto simp: run_endpoint_def with_body_def token_dependencies_def require_admin_def mint_token_def
         upsert_quota_def get_quota_def delete_quota_def list_logs_def get_stats_def upstream_health_def
         health_def ready_def metrics_def proxy_fields Let_def
         split: body_in.split option.split sum.split prod.split)
  then have "fst (snd (router env rq st w)) = st" by (simp add: router_def split: match.split)
  moreover have "fst (snd (exception_handlers env h rq st w)) = fst (snd (h rq st w))" for h
  proof -
    obtain res st' w' where h: "h rq st w = (res, st', w')" using prod_cases3 by blast
    show ?thesis
    proof (cases res)
      case (Inl e)
      then show ?thesis by (cases e) (simp_all add: exception_handlers_def h)
    qed (simp add: exception_handlers_def h)
  qed
  ultimately show ?thesis by (simp add: routes_def)
qed

lemma public_prefixes: "is_public LIMIT_PUBLIC_PATH_PREFIXES path = is_public AUTH_PUBLIC_PATH_PREFIXES path"
  by (auto simp: is_public_def LIMIT_PUBLIC_PATH_PREFIXES_def AUTH_PUBLIC_PATH_PREFIXES_def)

text \<open>The exceptions that have a handler do not leave the routes.\<close>

fun has_handler :: "exn \<Rightarrow> bool" where
  "has_handler (Gateway_Exn e) = True"
| "has_handler (HTTPException code detail headers) = True"
| "has_handler RequestValidationError = True"
| "has_handler _ = False"

lemma routes_unhandled: "routes env rq st w = (Inl e, st', w') \<Longrightarrow> \<not> has_handler e"
  by (auto simp: routes_def exception_handlers_def split: prod.splits sum.splits exn.splits)

text \<open>What \<open>AuthMiddleware\<close> makes of the request's credentials.\<close>

definition authenticate :: "'r env \<Rightarrow> request \<Rightarrow> gateway_error + claims" where
  "authenticate env rq =
     (let auth_header = (case get_header rq ''Authorization'' of None \<Rightarrow> [] | Some h \<Rightarrow> h)
      in if \<not> startswith auth_header ''Bearer ''
         then Inl (new_error InvalidTokenError ''Missing or malformed Authorization header.'' None)
         else decode_access_token (ev_settings env) (ev_jose env) (ev_decode_at env)
                (strip (removeprefix auth_header ''Bearer '')))"

lemma authenticate_Inl:
  "authenticate env rq = Inl e \<Longrightarrow> isinstance (exc_class e) AuthError \<and> status_code (exc_class e) = 401"
  by (auto simp: authenticate_def Let_def decode_access_token_def new_error_def isinstance_def
      split: if_splits jose_end.splits)

lemma authenticate_Inr:
  "authenticate env rq = Inr c \<Longrightarrow> \<exists>u t. cl_sub c = Some u \<and> cl_tier c = Some t"
  by (auto simp: authenticate_def Let_def decode_access_token_def split: if_splits jose_end.splits)

lemma auth_dispatch_eq:
  "auth_dispatch env h rq st w =
     (if is_public AUTH_PUBLIC_PATH_PREFIXES (rq_path rq) then h rq st w
      else case authenticate env rq of
        Inl exc \<Rightarrow> (Inr (auth_failure_response st exc), st, w)
      | Inr c \<Rightarrow> h rq (st\<lparr>st_user_id := cl_sub c, st_tier := cl_tier c\<rparr>) w)"
proof (cases "authenticate env rq")
  case (Inl e)
  then have "isinstance (exc_class e) AuthError" using authenticate_Inl by blast
  then show ?thesis using Inl
    by (auto simp: auth_dispatch_def authenticate_def Let_def isinstance_def new_error_def
        split: if_splits sum.split)
next
  case (Inr c)
  then show ?thesis
    by (auto simp: auth_dispatch_def authenticate_def Let_def split: if_splits)
qed

text \<open>The limiter's verdict on an authenticated user.\<close>

definition verdict :: "'r env \<Rightarrow> string \<Rightarrow> string \<Rightarrow> 'r world \<Rightarrow> (py_exc + LimitResult) \<times> 'r" where
  "verdict env user_id tier w =
     check_rate_limit (ev_settings env) (ev_redis env) (ev_check_dlv env) (ev_instant env) (ev_epoch env)
       (w_db w) user_id tier
       (get_health_factor (ev_redis env) (ev_factor_dlv env) (ev_factor_at env) (w_redis w)) (w_redis w)"

text \<open>The five ways through authentication and rate limiting.\<close>

lemma inner_cases:
  obtains (public) "is_public AUTH_PUBLIC_PATH_PREFIXES (rq_path rq)"
      "inner env rq st w = routes env rq st w"
    | (refused) exc where "\<not> is_public AUTH_PUBLIC_PATH_PREFIXES (rq_path rq)"
      "authenticate env rq = Inl exc" "inner env rq st w = (Inr (auth_failure_response st exc), st, w)"
    | (no_db) c where "\<not> is_public AUTH_PUBLIC_PATH_PREFIXES (rq_path rq)" "\<not> ev_db_up env"
      "authenticate env rq = Inr c"
      "inner env rq st w = (Inl Db_Exn, st\<lparr>st_user_id := cl_sub c, st_tier := cl_tier c\<rparr>, w)"
    | (limited) c user_id tier result r where "\<not> is_public AUTH_PUBLIC_PATH_PREFIXES (rq_path rq)"
      "ev_db_up env" "authenticate env rq = Inr c" "cl_sub c = Some user_id" "cl_tier c = Some tier"
      "verdict env user_id tier w = (Inr result, r)" "\<not> lr_allowed result"
      "inner env rq st w =
         (Inr (limited_response st result),
          st\<lparr>st_user_id := Some user_id, st_tier := Some tier, st_rate_limit_info := Some result\<rparr>,
          w\<lparr>w_redis := r, w_limited := inc_counter tier (w_limited w)\<rparr>)"
    | (allowed) c user_id tier result r where "\<not> is_public AUTH_PUBLIC_PATH_PREFIXES (rq_path rq)"
      "ev_db_up env" "authenticate env rq = Inr c" "cl_sub c = Some user_id" "cl_tier c = Some tier"
      "verdict env user_id tier w = (Inr result, r)" "lr_allowed result"
      "inner env rq st w =
         on_response (add_limit_headers result)
           (routes env rq
              (st\<lparr>st_user_id := Some user_id, st_tier := Some tier, st_rate_limit_info := Some result\<rparr>)
              (w\<lparr>w_redis := r, w_allowed := inc_counter tier (w_allowed w)\<rparr>))"
proof (cases "is_public AUTH_PUBLIC_PATH_PREFIXES (rq_path rq)")
  case True
  then show thesis
    by (intro public) (simp_all add: inner_def auth_dispatch_eq rate_limit_dispatch_def public_prefixes)
next
  case False
  note np = this
  show thesis
  proof (cases "authenticate env rq")
    case (Inl exc)
    then show thesis using np by (intro refused) (simp_all add: inner_def auth_dispatch_eq)
  next
    case (Inr c)
    then obtain u t where ut: "cl_sub c = Some u" "cl_tier c = Some t" using authenticate_Inr by blast
    let ?st = "st\<lparr>st_user_id := Some u, st_tier := Some t\<rparr>"
    have i: "inner env rq st w = rate_limit_dispatch env (routes env) rq ?st w"
      using np Inr ut by (simp add: inner_def auth_dispatch_eq)
    show thesis
    proof (cases rule: rate_limit_dispatch_cases [of rq env "routes env" ?st w])
      case public
      then show thesis using np by (simp add: public_prefixes)
    next
      case no_user
      then show thesis by simp
    next
      case no_db
      then show thesis using np Inr i ut by (intro that(3) [of c]) simp_all
    next
      case (checked user_id tier result r)
      then show thesis
        using np Inr ut i
        by (cases "lr_allowed result")
           (rule that(5) [of c u t result r], simp_all add: verdict_def,
            rule that(4) [of c u t result r], simp_all add: verdict_def limited_response_def)
    qed
  qed
qed

end
