(* ===== verification/App_Properties.thy ===== *)
theory App_Properties
  imports App
begin

text \<open>
  What the assembled gateway guarantees for one request: headers, logging, authentication, rate
  limiting, the traffic the upstream sees, and who can change the quota table. Every property is
  about \<open>app\<close>, the whole stack, and is followed by a run on a concrete request at the end.
\<close>

section \<open>Headers through the stack\<close>

lemma lower_names:
  "lower ''X-Content-Type-Options'' = ''x-content-type-options''"
  "lower ''X-Frame-Options'' = ''x-frame-options''"
  "lower ''X-XSS-Protection'' = ''x-xss-protection''"
  "lower ''Strict-Transport-Security'' = ''strict-transport-security''"
  "lower ''X-Request-ID'' = ''x-request-id''"
  "lower ''X-RateLimit-Limit'' = ''x-ratelimit-limit''"
  "lower ''X-RateLimit-Remaining'' = ''x-ratelimit-remaining''"
  "lower ''X-RateLimit-Retry-After'' = ''x-ratelimit-retry-after''"
  "lower ''X-RateLimit-Policy'' = ''x-ratelimit-policy''"
  "lower ''X-RateLimit-Degraded'' = ''x-ratelimit-degraded''"
  "lower ''Retry-After'' = ''retry-after''"
  "lower ''WWW-Authenticate'' = ''www-authenticate''"
  "lower ''Authorization'' = ''authorization''"
  "lower ''x-admin-key'' = ''x-admin-key''"
  "lower ''content-type'' = ''content-type''"
  by code_simp+

text \<open>A header the outer layers do not set reaches the client as the inner handler set it.\<close>

lemma header_security:
  "header (add_security_headers S rs) ''X-Content-Type-Options'' = Some ''nosniff''"
  "header (add_security_headers S rs) ''X-Frame-Options'' = Some ''DENY''"
  "header (add_security_headers S rs) ''X-XSS-Protection'' = Some ''1; mode=block''"
  "app_env S = Production \<Longrightarrow> header (add_security_headers S rs) ''Strict-Transport-Security'' =
     Some ''max-age=31536000; includeSubDomains''"
  "header (add_security_headers S rs) ''X-Request-ID'' = header rs ''X-Request-ID''"
  by (simp_all add: add_security_headers_def Let_def hdr_simps lower_names)

lemma outer_fields [simp]:
  "rs_status (add_security_headers S rs) = rs_status rs" "rs_body (add_security_headers S rs) = rs_body rs"
  by (simp_all add: add_security_headers_def Let_def)

definition outer_names :: "string list" where
  "outer_names = [''x-content-type-options'', ''x-frame-options'', ''x-xss-protection'',
     ''strict-transport-security'', ''x-request-id'']"

lemma header_outer:
  "lower k \<notin> set outer_names \<Longrightarrow>
   header (add_security_headers S (set_header ''X-Request-ID'' i rs)) k = header rs k"
  by (simp add: add_security_headers_def Let_def hdr_simps lower_names outer_names_def)

lemma request_id_nonempty: "request_id_of env rq \<noteq> []"
  by (simp add: request_id_of_def choose_request_id_def split: option.split)

text \<open>The security headers are set outermost, so also on what the trusted-host check and CORS answer
  themselves, which has no request id but one they would set.\<close>

lemma wrap_outermost:
  "\<exists>h'. wrap (register_middleware env trusted_host cors) h rq st w = security_headers_dispatch env h' rq st w"
  by (auto simp: wrap_def register_middleware_def add_security_middleware_def add_middleware_def Let_def)

lemma security_result:
  "security_headers_dispatch env h rq st w = (Inr rs, st', w') \<Longrightarrow> \<exists>rs0. rs = add_security_headers (ev_settings env) rs0"
  by (auto simp: security_headers_dispatch_def on_response_def split: prod.splits sum.splits)

lemma app_secured:
  "app env trusted_host cors rq w = (Inr rs, st, w') \<Longrightarrow> \<exists>rs0. rs = add_security_headers (ev_settings env) rs0"
  using wrap_outermost [of env trusted_host cors "exception_handlers env (router env)" rq fresh_state w]
    security_result unfolding app_def by metis

lemma refused_host:
  assumes "allowed_hosts (ev_settings env) \<noteq> [''*'']"
    and "\<And>h st w. trusted_host (allowed_hosts (ev_settings env)) h rq st w = (Inr refusal, st, w)"
    and "allowed_origins (ev_settings env) = [] \<or> passes (cors (allowed_origins (ev_settings env))) rq"
  shows "\<exists>st. app env trusted_host cors rq w = (Inr (add_security_headers (ev_settings env) refusal), st, w)"
  using assms
  by (auto simp: app_def wrap_def register_middleware_def add_security_middleware_def add_middleware_def Let_def
      security_headers_dispatch_def passes_def)

lemma server_error_headers: "k \<noteq> ''Content-Type'' \<Longrightarrow> lower k \<noteq> ''content-type'' \<Longrightarrow> header server_error k = None"
  by (simp add: server_error_def header_def)

text \<open>C33. Every response that a middleware, a handler or a route made, whatever the upstream sent and
  whatever the trusted-host check or CORS answered, carries the security headers (HSTS in
  production), and every one to a request that those two pass on carries the id of its request: the
  one the client sent, unless it is missing or empty. The one response that is made outside, the
  500 for an exception that nothing handles, has none of these headers.\<close>

theorem response_headers:
  assumes "app env trusted_host cors rq w = (res, st, w')" "received res = Some rs"
  shows "case res of
      Inl e \<Rightarrow> rs_status rs = 500
        \<and> (\<forall>k\<in>{''X-Content-Type-Options'', ''X-Frame-Options'', ''X-XSS-Protection'', ''Strict-Transport-Security'',
                ''X-Request-ID''}. header rs k = None)
    | Inr rs' \<Rightarrow> rs = rs'
        \<and> header rs ''X-Content-Type-Options'' = Some ''nosniff''
        \<and> header rs ''X-Frame-Options'' = Some ''DENY''
        \<and> header rs ''X-XSS-Protection'' = Some ''1; mode=block''
        \<and> (app_env (ev_settings env) = Production \<longrightarrow>
             header rs ''Strict-Transport-Security'' = Some ''max-age=31536000; includeSubDomains'')
        \<and> (plain_request env trusted_host cors rq \<longrightarrow>
             header rs ''X-Request-ID'' =
              (case get_header rq ''X-Request-ID'' of
                 Some i \<Rightarrow> if i = [] then Some (''req_'' @ take 16 (ev_uuid_hex env)) else Some i
               | None \<Rightarrow> Some (''req_'' @ take 16 (ev_uuid_hex env))))"
proof (cases res)
  case (Inl e)
  then have "rs = server_error" using assms(2) by (simp add: received_Some)
  then show ?thesis using Inl by (simp add: server_error_def header_def lower_names)
next
  case (Inr rs')
  then have rs: "rs = rs'" using assms(2) by (simp add: received_Some)
  obtain rs0 where secured: "rs = add_security_headers (ev_settings env) rs0"
    using app_secured assms(1) unfolding Inr rs by blast
  have "header rs ''X-Request-ID'' =
      (case get_header rq ''X-Request-ID'' of
         Some i \<Rightarrow> if i = [] then Some (''req_'' @ take 16 (ev_uuid_hex env)) else Some i
       | None \<Rightarrow> Some (''req_'' @ take 16 (ev_uuid_hex env)))" if plain: "plain_request env trusted_host cors rq"
  proof -
    obtain res1 st1 w1 where i: "inner env rq (start_state env rq) w = (res1, st1, w1)" using prod_cases3 by blast
    obtain rs0 where "rs = add_security_headers (ev_settings env) (set_header ''X-Request-ID'' (request_id_of env rq) rs0)"
      using assms(1) unfolding Inr rs by (auto simp: app_inner [OF plain i] split: sum.splits)
    then show ?thesis
      by (simp add: header_security hdr_simps request_id_of_def choose_request_id_def split: option.split)
  qed
  then show ?thesis by (simp add: Inr rs [symmetric]) (simp add: secured header_security)
qed

text \<open>Exactly one log write is scheduled for every request, however it ends: with its path, method,
  id and client address, the status of the response (500 for an exception nobody handles), and
  the authenticated user or \<open>anonymous\<close>. The request does not wait for the write: no row of the
  log table changes while it is handled.\<close>

lemma one_log_entry:
  assumes "plain_request env trusted_host cors rq"
    and "app env trusted_host cors rq w = (res, st, w')"
  shows "\<exists>e. w_tasks w' = w_tasks w @ [e]
    \<and> le_endpoint e = rq_path rq \<and> le_method e = rq_method rq \<and> le_ip e = rq_client rq
    \<and> le_request_id e = request_id_of env rq
    \<and> le_status_code e = (case res of Inl _ \<Rightarrow> 500 | Inr rs \<Rightarrow> rs_status rs)
    \<and> le_user_id e =
        (if is_public AUTH_PUBLIC_PATH_PREFIXES (rq_path rq) then ''anonymous''
         else case authenticate env rq of
                Inl _ \<Rightarrow> ''anonymous''
              | Inr c \<Rightarrow> (case cl_sub c of Some u \<Rightarrow> u | None \<Rightarrow> ''anonymous''))
    \<and> db_logs (w_db w') = db_logs (w_db w)"
proof -
  obtain r st1 w1 where i: "inner env rq (start_state env rq) w = (r, st1, w1)"
    using prod_cases3 by blast
  have eff: "w_tasks w1 = w_tasks w \<and> db_logs (w_db w1) = db_logs (w_db w)"
    using inner_effect [of env rq w "start_state env rq"] by (simp add: i core_def)
  have st: "st_request_id st1 = Some (request_id_of env rq)
    \<and> st_user_id st1 = (if is_public AUTH_PUBLIC_PATH_PREFIXES (rq_path rq) then None
         else case authenticate env rq of Inl _ \<Rightarrow> None | Inr c \<Rightarrow> cl_sub c)"
  proof (cases rule: inner_cases [of rq env "start_state env rq" w])
    case public
    then show ?thesis
      using router_state [of env rq "start_state env rq" w] i by (simp add: start_state_def fresh_state_def)
  next
    case (allowed c user_id tier result r')
    have "st1 = fst (snd (inner env rq (start_state env rq) w))" by (simp add: i)
    also have "\<dots> = (start_state env rq)\<lparr>st_user_id := Some user_id, st_tier := Some tier,
        st_rate_limit_info := Some result\<rparr>"
      by (simp add: allowed(8) router_state)
    finally show ?thesis using allowed by (simp add: start_state_def)
  qed (use i in \<open>auto simp: start_state_def fresh_state_def\<close>)
  have "w' = schedule_log (log_entry env rq st1 (case res of Inl _ \<Rightarrow> 500 | Inr rs \<Rightarrow> rs_status rs)) w1"
    using assms(2) by (auto simp: app_inner [OF assms(1) i] split: sum.splits)
  then show ?thesis
    using eff st
    by (intro exI [of _ "log_entry env rq st1 (case res of Inl _ \<Rightarrow> 500 | Inr rs \<Rightarrow> rs_status rs)"])
       (auto simp: schedule_log_def log_entry_def split: sum.split option.split)
qed

text \<open>C6. No credentials, no effect: on a path that is not public, a request whose token is missing,
  malformed, invalid or expired is answered 401 with the error envelope and a \<open>Bearer\<close>
  challenge; nothing else happens than one log entry for \<open>anonymous\<close>: no Redis command that
  writes, no database change, no upstream request, no counter.\<close>

theorem unauthenticated_rejected:
  assumes "plain_request env trusted_host cors rq"
    and "\<not> is_public AUTH_PUBLIC_PATH_PREFIXES (rq_path rq)" "authenticate env rq = Inl exc"
  shows "\<exists>rs st e. app env trusted_host cors rq w = (Inr rs, st, w\<lparr>w_tasks := w_tasks w @ [e]\<rparr>)
    \<and> rs_status rs = 401 \<and> header rs ''WWW-Authenticate'' = Some ''Bearer''
    \<and> rs_body rs = JsonBody (build_error_response exc (Some (request_id_of env rq)))
    \<and> le_user_id e = ''anonymous'' \<and> le_status_code e = 401 \<and> \<not> le_rate_limited e"
proof -
  have i: "inner env rq (start_state env rq) w =
      (Inr (auth_failure_response (start_state env rq) exc), start_state env rq, w)"
    using assms(2,3) by (cases rule: inner_cases [of rq env "start_state env rq" w]) auto
  have "status_code (exc_class exc) = 401" using authenticate_Inl [OF assms(3)] by simp
  then show ?thesis
    by (intro exI [of _ "log_entry env rq (start_state env rq) 401"] exI [of _ "start_state env rq"]
          exI [of _ "add_security_headers (ev_settings env) (set_header ''X-Request-ID'' (request_id_of env rq)
            (auth_failure_response (start_state env rq) exc))"])
       (simp add: app_inner [OF assms(1) i] auth_failure_response_def schedule_log_def log_entry_def
        start_state_def fresh_state_def header_outer outer_names_def lower_names hdr_simps)
qed

text \<open>What \<open>AuthMiddleware\<close> and the limiter leave in \<open>request.state\<close>.\<close>

definition user_state :: "'r env \<Rightarrow> request \<Rightarrow> string \<Rightarrow> string \<Rightarrow> LimitResult \<Rightarrow> rstate" where
  "user_state env rq user_id tier result =
     (start_state env rq)\<lparr>st_user_id := Some user_id, st_tier := Some tier, st_rate_limit_info := Some result\<rparr>"

definition authorized :: "'r env \<Rightarrow> request \<Rightarrow> string \<Rightarrow> string \<Rightarrow> bool" where
  "authorized env rq user_id tier \<longleftrightarrow>
     \<not> is_public AUTH_PUBLIC_PATH_PREFIXES (rq_path rq)
   \<and> (\<exists>c. authenticate env rq = Inr c \<and> cl_sub c = Some user_id \<and> cl_tier c = Some tier)"

lemma inner_limited:
  assumes "authorized env rq user_id tier" "ev_db_up env"
    and "verdict env user_id tier w = (Inr result, r)" "\<not> lr_allowed result"
  shows "inner env rq (start_state env rq) w =
    (Inr (limited_response (start_state env rq) result), user_state env rq user_id tier result,
     w\<lparr>w_redis := r, w_limited := inc_counter tier (w_limited w)\<rparr>)"
  using assms
  by (cases rule: inner_cases [of rq env "start_state env rq" w]) (auto simp: authorized_def user_state_def)

lemma inner_allowed:
  assumes "authorized env rq user_id tier" "ev_db_up env"
    and "verdict env user_id tier w = (Inr result, r)" "lr_allowed result"
  shows "inner env rq (start_state env rq) w =
    on_response (add_limit_headers result)
      (routes env rq (user_state env rq user_id tier result)
         (w\<lparr>w_redis := r, w_allowed := inc_counter tier (w_allowed w)\<rparr>))"
  using assms
  by (cases rule: inner_cases [of rq env "start_state env rq" w]) (auto simp: authorized_def user_state_def)

text \<open>C7. Over quota: an authenticated request the limiter denies is answered 429 with the error
  envelope, \<open>Retry-After\<close>, the limit that was applied, zero remaining and the policy
  \<open>limit;w=60\<close>; it never reaches a route or the upstream, is counted as limited for its tier and
  logged as rate-limited for its user.\<close>

theorem over_quota_rejected:
  assumes "plain_request env trusted_host cors rq"
    and "authorized env rq user_id tier" "ev_db_up env"
    and "verdict env user_id tier w = (Inr result, r)" "\<not> lr_allowed result"
  shows "\<exists>rs st e. app env trusted_host cors rq w =
      (Inr rs, st, w\<lparr>w_redis := r, w_limited := inc_counter tier (w_limited w), w_tasks := w_tasks w @ [e]\<rparr>)
    \<and> rs_status rs = 429
    \<and> rs_body rs = JsonBody (build_error_response (limit_exceeded result) (Some (request_id_of env rq)))
    \<and> header rs ''Retry-After'' = Some (int_str (lr_retry_after result))
    \<and> header rs ''X-RateLimit-Limit'' = Some (int_str (lr_limit result))
    \<and> header rs ''X-RateLimit-Remaining'' = Some ''0''
    \<and> header rs ''X-RateLimit-Policy'' = Some (int_str (lr_limit result) @ '';w=60'')
    \<and> le_rate_limited e \<and> le_user_id e = user_id \<and> le_status_code e = 429"
proof -
  note i = inner_limited [OF assms(2-5)]
  have "int_str 60 = ''60''" by code_simp
  then show ?thesis
    using assms(5)
    by (intro exI [of _ "log_entry env rq (user_state env rq user_id tier result) 429"]
          exI [of _ "user_state env rq user_id tier result"]
          exI [of _ "add_security_headers (ev_settings env) (set_header ''X-Request-ID'' (request_id_of env rq)
            (limited_response (start_state env rq) result))"])
       (simp add: app_inner [OF assms(1) i] limited_response_def limit_exceeded_def new_error_def
         policy_header_def schedule_log_def log_entry_def user_state_def start_state_def header_outer
         outer_names_def lower_names hdr_simps)
qed

text \<open>The status the client sees for each behaviour of the upstream; none for an exception that is
  not httpx's and for a cancelled call.\<close>

definition client_status :: "(http_exc, upstream_response) func_end \<Rightarrow> int option" where
  "client_status out =
     (case out of
        Returns ur \<Rightarrow> Some (ur_status ur)
      | Raises TimeoutException \<Rightarrow> Some 504
      | Raises (RequestError msg) \<Rightarrow> Some 502
      | Raises (OtherException msg) \<Rightarrow> None
      | Cancelled \<Rightarrow> None)"

lemma routes_proxy:
  assumes "route_of (rq_method rq) (rq_path rq) = Full (Proxy_Route path)"
    and "cb_admit (ev_admit_at env) (w_breaker w) = (True, b)"
  shows "case client_status (ev_upstream env (upstream_call (ev_settings env) path rq)) of
      None \<Rightarrow> \<exists>e. fst (routes env rq st w) = Inl e
    | Some s \<Rightarrow> \<exists>rs. fst (routes env rq st w) = Inr rs \<and> rs_status rs = s"
    and "w_outbox (final (routes env rq st w)) = w_outbox w @ [upstream_call (ev_settings env) path rq]"
    and "w_allowed (final (routes env rq st w)) = w_allowed w"
    and "w_limited (final (routes env rq st w)) = w_limited w"
proof -
  have r: "routes env rq st w = exception_handlers env (proxy env path) rq st w"
    using assms(1) by (simp add: routes_def exception_handlers_def router_def run_endpoint_def)
  show "case client_status (ev_upstream env (upstream_call (ev_settings env) path rq)) of
      None \<Rightarrow> \<exists>e. fst (routes env rq st w) = Inl e
    | Some s \<Rightarrow> \<exists>rs. fst (routes env rq st w) = Inr rs \<and> rs_status rs = s"
    unfolding r exception_handlers_def proxy_admitted [OF assms(2) refl]
    by (simp add: client_status_def Let_def new_error_def handle_gateway_error_def proxied_response_def
        split: func_end.split http_exc.split)
  show "w_outbox (final (routes env rq st w)) = w_outbox w @ [upstream_call (ev_settings env) path rq]"
    using assms(2) proxy_outbox [of env path rq st w] by (simp add: r final_def [of "proxy env path rq st w"])
  show "w_allowed (final (routes env rq st w)) = w_allowed w" "w_limited (final (routes env rq st w)) = w_limited w"
    using proxy_fields(4,5) [of env path rq st w] by (simp_all add: r final_def [of "proxy env path rq st w"])
qed

lemma app_result:
  assumes "plain_request env trusted_host cors rq"
  shows "fst (app env trusted_host cors rq w) =
      (case fst (inner env rq (start_state env rq) w) of
         Inl e \<Rightarrow> Inl e
       | Inr rs \<Rightarrow> Inr (add_security_headers (ev_settings env)
                        (set_header ''X-Request-ID'' (request_id_of env rq) rs)))"
    and "w_redis (final (app env trusted_host cors rq w)) = w_redis (final (inner env rq (start_state env rq) w))"
    and "served (final (app env trusted_host cors rq w)) = served (final (inner env rq (start_state env rq) w))"
    and "w_allowed (final (app env trusted_host cors rq w)) = w_allowed (final (inner env rq (start_state env rq) w))"
    and "w_limited (final (app env trusted_host cors rq w)) = w_limited (final (inner env rq (start_state env rq) w))"
proof -
  obtain res st1 w1 where i: "inner env rq (start_state env rq) w = (res, st1, w1)"
    using prod_cases3 by blast
  show "fst (app env trusted_host cors rq w) =
      (case fst (inner env rq (start_state env rq) w) of
         Inl e \<Rightarrow> Inl e
       | Inr rs \<Rightarrow> Inr (add_security_headers (ev_settings env)
                        (set_header ''X-Request-ID'' (request_id_of env rq) rs)))"
    "w_redis (final (app env trusted_host cors rq w)) = w_redis (final (inner env rq (start_state env rq) w))"
    "served (final (app env trusted_host cors rq w)) = served (final (inner env rq (start_state env rq) w))"
    "w_allowed (final (app env trusted_host cors rq w)) = w_allowed (final (inner env rq (start_state env rq) w))"
    "w_limited (final (app env trusted_host cors rq w)) = w_limited (final (inner env rq (start_state env rq) w))"
    by (cases res; simp add: app_inner [OF assms i] i schedule_log_def served_def)+
qed

lemma header_limits:
  "header (add_limit_headers result rs) ''X-RateLimit-Limit'' = Some (int_str (lr_limit result))"
  "header (add_limit_headers result rs) ''X-RateLimit-Remaining'' = Some (int_str (lr_remaining result))"
  "header (add_limit_headers result rs) ''X-RateLimit-Retry-After'' = Some (int_str (lr_retry_after result))"
  "header (add_limit_headers result rs) ''X-RateLimit-Policy'' = Some (policy_header result)"
  "lr_degraded result \<Longrightarrow> header (add_limit_headers result rs) ''X-RateLimit-Degraded'' = Some ''true''"
  "rs_status (add_limit_headers result rs) = rs_status rs" "rs_body (add_limit_headers result rs) = rs_body rs"
  by (simp_all add: add_limit_headers_def Let_def hdr_simps lower_names)

text \<open>C8. Within quota: an authenticated request the limiter allows, for a path the catch-all serves
  and with the breaker letting it through, is sent upstream exactly once and counted as allowed
  for its tier. The client sees the upstream's status, 504 for a timeout or 502 when the upstream
  cannot be reached, in each case with the limit, the remaining tokens and the policy, and with
  \<open>X-RateLimit-Degraded\<close> when the limiter failed open.\<close>

theorem within_quota_forwarded:
  assumes "plain_request env trusted_host cors rq"
    and "authorized env rq user_id tier" "ev_db_up env"
    and "verdict env user_id tier w = (Inr result, r)" "lr_allowed result"
    and "route_of (rq_method rq) (rq_path rq) = Full (Proxy_Route path)"
    and "cb_admit (ev_admit_at env) (w_breaker w) = (True, b)"
    and call: "call = upstream_call (ev_settings env) path rq"
  shows "w_outbox (final (app env trusted_host cors rq w)) = w_outbox w @ [call]
    \<and> w_allowed (final (app env trusted_host cors rq w)) = inc_counter tier (w_allowed w)
    \<and> w_limited (final (app env trusted_host cors rq w)) = w_limited w
    \<and> (case client_status (ev_upstream env call) of
         None \<Rightarrow> \<exists>e. fst (app env trusted_host cors rq w) = Inl e
       | Some s \<Rightarrow> \<exists>rs. fst (app env trusted_host cors rq w) = Inr rs \<and> rs_status rs = s
           \<and> header rs ''X-RateLimit-Limit'' = Some (int_str (lr_limit result))
           \<and> header rs ''X-RateLimit-Remaining'' = Some (int_str (lr_remaining result))
           \<and> header rs ''X-RateLimit-Policy'' = Some (int_str (lr_limit result) @ '';w=60'')
           \<and> (lr_degraded result \<longrightarrow> header rs ''X-RateLimit-Degraded'' = Some ''true''))"
proof -
  let ?st = "user_state env rq user_id tier result"
  let ?w = "w\<lparr>w_redis := r, w_allowed := inc_counter tier (w_allowed w)\<rparr>"
  have adm: "cb_admit (ev_admit_at env) (w_breaker ?w) = (True, b)" using assms(7) by simp
  note rp = routes_proxy [OF assms(6) adm, of ?st, folded call]
  note i = inner_allowed [OF assms(2-5)]
  have 60: "int_str 60 = ''60''" by code_simp
  have names: "lower ''X-RateLimit-Limit'' \<notin> set outer_names" "lower ''X-RateLimit-Remaining'' \<notin> set outer_names"
    "lower ''X-RateLimit-Policy'' \<notin> set outer_names" "lower ''X-RateLimit-Degraded'' \<notin> set outer_names"
    by (simp_all add: lower_names outer_names_def)
  have fwd: "served (final (inner env rq (start_state env rq) w)) = served (final (routes env rq ?st ?w))"
    "w_allowed (final (inner env rq (start_state env rq) w)) = w_allowed (final (routes env rq ?st ?w))"
    "w_limited (final (inner env rq (start_state env rq) w)) = w_limited (final (routes env rq ?st ?w))"
    by (simp_all add: i)
  have "case client_status (ev_upstream env call) of
         None \<Rightarrow> \<exists>e. fst (app env trusted_host cors rq w) = Inl e
       | Some s \<Rightarrow> \<exists>rs. fst (app env trusted_host cors rq w) = Inr rs \<and> rs_status rs = s
           \<and> header rs ''X-RateLimit-Limit'' = Some (int_str (lr_limit result))
           \<and> header rs ''X-RateLimit-Remaining'' = Some (int_str (lr_remaining result))
           \<and> header rs ''X-RateLimit-Policy'' = Some (int_str (lr_limit result) @ '';w=60'')
           \<and> (lr_degraded result \<longrightarrow> header rs ''X-RateLimit-Degraded'' = Some ''true'')"
  proof (cases "client_status (ev_upstream env call)")
    case None
    then obtain e where "fst (routes env rq ?st ?w) = Inl e" using rp(1) by auto
    then have "fst (inner env rq (start_state env rq) w) = Inl e"
      unfolding i by (cases "routes env rq ?st ?w") simp
    then show ?thesis using None by (simp add: app_result(1) [OF assms(1)])
  next
    case (Some s)
    then obtain rs where "fst (routes env rq ?st ?w) = Inr rs" "rs_status rs = s" using rp(1) by auto
    moreover from this have "fst (inner env rq (start_state env rq) w) = Inr (add_limit_headers result rs)"
      unfolding i by (cases "routes env rq ?st ?w") simp
    ultimately show ?thesis
      using Some by (simp add: app_result(1) [OF assms(1)] header_outer names header_limits policy_header_def 60)
  qed
  then show ?thesis
    using app_result(3-5) [OF assms(1), of w] fwd rp(2-4) by (simp add: served_def)
qed

text \<open>The stack never raises the language errors its code could: no missing attribute of
  \<open>request.state\<close>, no division by a zero window.\<close>

lemma no_language_errors:
  assumes "plain_request env trusted_host cors rq"
  shows "fst (app env trusted_host cors rq w) \<noteq> Inl (Py_Exn e)"
proof -
  have run: "fst (run_endpoint env x rq st w) \<noteq> Inl (Py_Exn e)" for x st w
  proof (cases x)
    case (Proxy_Route path)
    obtain adm b where "cb_admit (ev_admit_at env) (w_breaker w) = (adm, b)" by fastforce
    then show ?thesis
      by (cases adm) (simp_all add: Proxy_Route run_endpoint_def proxy_rejected proxy_admitted Let_def
          split: func_end.split http_exc.split)
  qed (auto simp: run_endpoint_def with_body_def token_dependencies_def require_admin_def mint_token_def
         upsert_quota_def get_quota_def delete_quota_def list_logs_def get_stats_def upstream_health_def
         health_def ready_def metrics_def Let_def
         split: body_in.split option.split sum.split prod.split)
  have routes: "fst (routes env rq st w) \<noteq> Inl (Py_Exn e)" for st w
  proof -
    have "fst (router env rq st w) \<noteq> Inl (Py_Exn e)" using run by (simp add: router_def split: match.split)
    then show ?thesis
      by (cases "router env rq st w" rule: prod_cases3; cases "fst (router env rq st w)")
         (auto simp: routes_def exception_handlers_def split: exn.split)
  qed
  have "fst (inner env rq (start_state env rq) w) \<noteq> Inl (Py_Exn e)"
  proof (cases rule: inner_cases [of rq env "start_state env rq" w])
    case (allowed c user_id tier result r)
    then show ?thesis
      using routes by (metis Inl_Inr_False on_response_simps(1) on_response_simps(2) fst_conv
          prod.collapse sum.exhaust_sel sum.collapse(1) sum.collapse(2))
  qed (use routes in auto)
  then show ?thesis by (auto simp: app_result(1) [OF assms] split: sum.split)
qed

text \<open>C27. No request changes the quota table without the admin key, and no request, whatever its
  body, leaves an invalid row in it: limits stay between 1 and 1000000, and every row belongs to
  the user it is filed under.\<close>

theorem quota_table_guarded:
  assumes "plain_request env trusted_host cors rq"
    and "app env trusted_host cors rq w = (res, st, w')"
  shows "(quotas_ok (w_db w) \<longrightarrow> quotas_ok (w_db w'))
    \<and> (\<not> admin_key_ok (ev_settings env) rq \<longrightarrow> w_db w' = w_db w)"
  by (rule app_effect [OF assms(1), of w]) (auto simp: assms(2))

text \<open>The endpoints behind the admin key: all of \<open>/admin\<close>, and minting tokens in production.\<close>

definition admin_endpoint :: "settings \<Rightarrow> endpoint \<Rightarrow> bool" where
  "admin_endpoint S e =
     (case e of
        Put_Quota _ \<Rightarrow> True | Get_Quota _ \<Rightarrow> True | Delete_Quota _ \<Rightarrow> True
      | Logs_Route \<Rightarrow> True | Stats_Route \<Rightarrow> True | Upstream_Health_Route \<Rightarrow> True
      | Token_Route \<Rightarrow> app_env S = Production
      | _ \<Rightarrow> False)"

lemma find_route_Full:
  "find_route table verb path = Full e \<Longrightarrow> \<exists>(verbs, pattern)\<in>set table. pattern path = Some e \<and> verb \<in> set verbs"
proof (induction table)
  case (Cons row table)
  obtain verbs pattern where row: "row = (verbs, pattern)" by fastforce
  show ?case
  proof (cases "pattern path = Some e \<and> verb \<in> set verbs")
    case False
    then have "find_route table verb path = Full e"
      using Cons.prems by (auto simp: row split: option.splits if_splits match.splits)
    then show ?thesis using Cons.IH by auto
  qed (simp add: row)
qed simp

lemma admin_endpoint_public:
  assumes "route_of verb path = Full e" "admin_endpoint S e"
  shows "is_public AUTH_PUBLIC_PATH_PREFIXES path"
proof -
  obtain verbs pattern where r: "(verbs, pattern) \<in> set route_table" "pattern path = Some e"
    using find_route_Full [OF assms(1) [unfolded route_of_def]] by blast
  have "startswith path ''/admin/quota/'' \<or> path \<in> {''/admin/logs'', ''/admin/stats'', ''/admin/upstream-health'', ''/auth/token''}"
    using r assms(2)
    by (auto simp: route_table_def fixed_def quota_path_def any_path_def admin_endpoint_def Let_def
        split: if_splits)
  moreover have "startswith path ''/admin''" if "startswith path ''/admin/quota/''"
    using that by (auto simp: startswith_iff)
  ultimately have "startswith path ''/admin'' \<or> path = ''/auth/token''"
    by (auto simp: startswith_def)
  moreover have "startswith ''/auth/token'' ''/auth''" by (simp add: startswith_def)
  ultimately show ?thesis by (auto simp: is_public_def AUTH_PUBLIC_PATH_PREFIXES_def)
qed

text \<open>The routes with a body: FastAPI parses it before it runs the dependencies.\<close>

fun takes_body :: "endpoint \<Rightarrow> bool" where
  "takes_body Token_Route = True"
| "takes_body (Put_Quota user_id) = True"
| "takes_body _ = False"

lemma guarded_endpoint:
  assumes "admin_endpoint (ev_settings env) e" "\<not> admin_key_ok (ev_settings env) rq"
  shows "run_endpoint env e rq st w =
    (Inl (if takes_body e \<and> read_body (ev_codec env) rq = Malformed then RequestValidationError
          else HTTPException 401 ''Invalid or missing admin key.'' [(''WWW-Authenticate'', ''X-Admin-Key'')]), st, w)"
  using assms
  by (cases e) (auto simp: admin_endpoint_def run_endpoint_def require_admin_def with_body_def
      token_dependencies_def split: body_in.split)

text \<open>C31. The admin plane is closed without the key: a request to any admin endpoint, or for a token
  in production, whose \<open>X-Admin-Key\<close> is missing, empty or wrong has no other effect than its log
  entry, and is answered 401 with the key challenge, before its body is validated. Only a body that
  is no JSON, where the route has one, is answered 422 first. Both bodies are FastAPI's \<open>detail\<close>
  object, not the error envelope.\<close>

theorem admin_endpoints_guarded:
  assumes "plain_request env trusted_host cors rq"
    and "route_of (rq_method rq) (rq_path rq) = Full e" "admin_endpoint (ev_settings env) e"
    and "\<not> admin_key_ok (ev_settings env) rq"
  shows "\<exists>rs st entry. app env trusted_host cors rq w = (Inr rs, st, w\<lparr>w_tasks := w_tasks w @ [entry]\<rparr>)
    \<and> (if takes_body e \<and> read_body (ev_codec env) rq = Malformed
       then rs_status rs = 422 \<and> rs_body rs = JsonBody (JObj [(''detail'', ev_validation_detail env)])
       else rs_status rs = 401 \<and> header rs ''WWW-Authenticate'' = Some ''X-Admin-Key''
          \<and> rs_body rs = JsonBody (JObj [(''detail'', JStr ''Invalid or missing admin key.'')]))"
proof -
  let ?early = "takes_body e \<and> read_body (ev_codec env) rq = Malformed"
  define answer where "answer = (if ?early then json_response 422 (JObj [(''detail'', ev_validation_detail env)]) []
    else json_response 401 (JObj [(''detail'', JStr ''Invalid or missing admin key.'')])
      [(''WWW-Authenticate'', ''X-Admin-Key'')])"
  have "is_public AUTH_PUBLIC_PATH_PREFIXES (rq_path rq)" by (rule admin_endpoint_public [OF assms(2,3)])
  then have "inner env rq (start_state env rq) w = routes env rq (start_state env rq) w"
    by (cases rule: inner_cases [of rq env "start_state env rq" w]) auto
  also have "\<dots> = (Inr answer, start_state env rq, w)"
    using guarded_endpoint [OF assms(3,4)] assms(2)
    by (simp add: routes_def exception_handlers_def router_def answer_def)
  finally have i: "inner env rq (start_state env rq) w = (Inr answer, start_state env rq, w)" .
  show ?thesis
    by (intro exI [of _ "log_entry env rq (start_state env rq) (rs_status answer)"] exI [of _ "start_state env rq"]
          exI [of _ "add_security_headers (ev_settings env) (set_header ''X-Request-ID'' (request_id_of env rq) answer)"])
       (simp add: app_inner [OF assms(1) i] schedule_log_def header_outer outer_names_def lower_names hdr_simps answer_def)
qed

text \<open>C5. The upstream only sees authorized traffic: on a path that is not public, a request causes at
  most one upstream request, and then it carries a valid token of a user whom the limiter, asked
  for that user's own bucket, has just granted a token.\<close>

theorem upstream_only_with_quota:
  assumes "plain_request env trusted_host cors rq"
    and "\<not> is_public AUTH_PUBLIC_PATH_PREFIXES (rq_path rq)"
  shows "w_outbox (final (app env trusted_host cors rq w)) = w_outbox w
    \<or> (\<exists>path user_id tier result r.
         w_outbox (final (app env trusted_host cors rq w)) = w_outbox w @ [upstream_call (ev_settings env) path rq]
       \<and> authorized env rq user_id tier
       \<and> verdict env user_id tier w = (Inr result, r) \<and> lr_allowed result)"
proof -
  have o: "w_outbox (final (app env trusted_host cors rq w)) = w_outbox (final (inner env rq (start_state env rq) w))"
    using app_result(3) [OF assms(1), of w] by (simp add: served_def)
  show ?thesis
  proof (cases rule: inner_cases [of rq env "start_state env rq" w])
    case (allowed c user_id tier result r)
    have "authorized env rq user_id tier" using allowed by (auto simp: authorized_def)
    moreover have "w_outbox (final (inner env rq (start_state env rq) w)) = w_outbox w
      \<or> (\<exists>path. w_outbox (final (inner env rq (start_state env rq) w)) =
            w_outbox w @ [upstream_call (ev_settings env) path rq])"
      using inner_effect [of env rq w "start_state env rq"] by (auto simp: core_def)
    ultimately show ?thesis unfolding o using allowed(6,7) by blast
  qed (use assms(2) in \<open>simp_all add: o\<close>)
qed

text \<open>C39. The public prefixes are not the public routes: any path that starts with one of them and
  that only the catch-all matches goes to the upstream without a token, without a quota check and
  without being counted, for anyone.\<close>

theorem public_prefix_bypasses_auth:
  assumes "plain_request env trusted_host cors rq"
    and "is_public AUTH_PUBLIC_PATH_PREFIXES (rq_path rq)"
    and "route_of (rq_method rq) (rq_path rq) = Full (Proxy_Route path)"
    and "cb_admit (ev_admit_at env) (w_breaker w) = (True, b)"
  shows "w_outbox (final (app env trusted_host cors rq w)) = w_outbox w @ [upstream_call (ev_settings env) path rq]
    \<and> w_allowed (final (app env trusted_host cors rq w)) = w_allowed w
    \<and> w_limited (final (app env trusted_host cors rq w)) = w_limited w"
proof -
  have "inner env rq (start_state env rq) w = routes env rq (start_state env rq) w"
    using assms(2) by (cases rule: inner_cases [of rq env "start_state env rq" w]) auto
  then show ?thesis
    using app_result(3-5) [OF assms(1), of w] routes_proxy(2-4) [OF assms(3,4), of "start_state env rq"]
    by (simp add: served_def)
qed

text \<open>C37. Redis and the database fail in opposite ways: with Redis unreachable an authorized request
  is granted whatever its quota, and its response is marked degraded with \<open>remaining = -1\<close>; with
  the database unreachable every authorized request ends in an unhandled exception, a 500, and
  none is sent upstream.\<close>

theorem redis_open_database_closed:
  assumes "plain_request env trusted_host cors rq" "authorized env rq user_id tier"
  shows "(ev_db_up env \<and> ev_check_dlv env \<noteq> Delivered \<longrightarrow>
      (\<exists>limit r. verdict env user_id tier w = (Inr (fail_open limit), r))
    \<and> (\<forall>rs. fst (app env trusted_host cors rq w) = Inr rs \<longrightarrow>
          header rs ''X-RateLimit-Degraded'' = Some ''true'' \<and> header rs ''X-RateLimit-Remaining'' = Some ''-1''))
   \<and> (\<not> ev_db_up env \<longrightarrow>
        fst (app env trusted_host cors rq w) = Inl Db_Exn
      \<and> w_outbox (final (app env trusted_host cors rq w)) = w_outbox w)"
proof (intro conjI impI)
  assume down: "\<not> ev_db_up env"
  have "inner env rq (start_state env rq) w =
      (Inl Db_Exn, (start_state env rq)\<lparr>st_user_id := Some user_id, st_tier := Some tier\<rparr>, w)"
    using assms(2) down by (cases rule: inner_cases [of rq env "start_state env rq" w]) (auto simp: authorized_def)
  then show "fst (app env trusted_host cors rq w) = Inl Db_Exn"
    "w_outbox (final (app env trusted_host cors rq w)) = w_outbox w"
    using app_result(1,3) [OF assms(1), of w] by (simp_all add: served_def)
next
  assume up: "ev_db_up env \<and> ev_check_dlv env \<noteq> Delivered"
  then show open_verdict: "\<exists>limit r. verdict env user_id tier w = (Inr (fail_open limit), r)"
    by (cases "ev_check_dlv env")
       (auto simp: verdict_def check_rate_limit_def redis_check_def run_script_def Let_def)
  then obtain limit r where v: "verdict env user_id tier w = (Inr (fail_open limit), r)" by blast
  have names: "lower ''X-RateLimit-Remaining'' \<notin> set outer_names" "lower ''X-RateLimit-Degraded'' \<notin> set outer_names"
    by (simp_all add: lower_names outer_names_def)
  have "int_str (- 1) = ''-1''" by code_simp
  then show "\<forall>rs. fst (app env trusted_host cors rq w) = Inr rs \<longrightarrow>
      header rs ''X-RateLimit-Degraded'' = Some ''true'' \<and> header rs ''X-RateLimit-Remaining'' = Some ''-1''"
    using inner_allowed [OF assms(2) _ v] up
    by (auto simp: app_result(1) [OF assms(1)] fail_open_def on_response_Inr header_outer names header_limits
        split: sum.splits)
qed

section \<open>An instance, for concrete runs\<close>

definition keep :: "string list \<Rightarrow> demo_redis middleware" where
  "keep _ m = m"

lemma demo_plain: "plain_request demo_env keep keep rq"
  by (simp add: plain_request_def demo_env_def test_settings_fields)

definition alice_claims :: claims where
  "alice_claims = \<lparr>cl_sub = Some ''alice'', cl_tier = Some ''free'', cl_iat = Some 1699999000,
                   cl_exp = Some 1700002600\<rparr>"

definition alice_token :: string where
  "alice_token = the (demo_encode alice_claims DEV_JWT_SECRET ''HS256'')"

definition alice_request :: "string \<Rightarrow> request" where
  "alice_request path = sample_request ''GET'' path [(''authorization'', ''Bearer '' @ alice_token)]"

lemma alice_token_text: "demo_encode alice_claims DEV_JWT_SECRET ''HS256'' = Some alice_token"
  by (simp add: alice_token_def demo_encode_def)

lemma strip_alice: "strip alice_token = alice_token"
  by (rule strip_id)
     (simp add: alice_token_def demo_encode_def alice_claims_def opt_str_def py_space_def)

lemma authenticate_alice: "authenticate demo_env (alice_request path) = Inr alice_claims"
proof -
  have "decode_access_token test_settings demo_jose 1700000000 alice_token = Inr alice_claims"
    using decode_minted [OF demo_jose_laws, of alice_claims test_settings alice_token 1700002600 1700000000]
      alice_token_text
    by (simp add: test_settings_fields demo_jose_def alice_claims_def)
  moreover have "get_header (alice_request path) ''Authorization'' = Some (''Bearer '' @ alice_token)"
    by (simp add: alice_request_def sample_request_def get_header_def lower_names)
  moreover have "ev_settings demo_env = test_settings" "ev_jose demo_env = demo_jose"
    "ev_decode_at demo_env = 1700000000" by (simp_all add: demo_env_def)
  ultimately show ?thesis
    by (simp only: authenticate_def Let_def option.case startswith_append removeprefix_append strip_alice
        not_True_eq_False if_False)
qed

lemma alice_authorized: "\<not> is_public AUTH_PUBLIC_PATH_PREFIXES path \<Longrightarrow>
    authorized demo_env (alice_request path) ''alice'' ''free''"
  by (simp add: authorized_def authenticate_alice alice_claims_def)
     (simp add: alice_request_def sample_request_def)

lemma path_get: "\<not> is_public AUTH_PUBLIC_PATH_PREFIXES ''/get''" "is_public AUTH_PUBLIC_PATH_PREFIXES ''/authors''"
  "route_of ''GET'' ''/get'' = Full (Proxy_Route ''get'')" "route_of ''GET'' ''/authors'' = Full (Proxy_Route ''authors'')"
  by code_simp+

text \<open>Alice's bucket: absent (full), or empty as of this instant.\<close>

definition alice_empty :: demo_redis where
  "alice_empty = hset demo_api (user_key ''alice'') ''last_refill'' 1700000000
     (hset demo_api (user_key ''alice'') ''tokens'' 0 demo_empty)"

lemma ffilter_nothing [simp]: "ffilter P {||} = {||}"
  by auto

lemma fcard_nothing [simp]: "fcard {||} = 0"
  by (simp add: fcard.rep_eq)

lemma demo_world_fields [simp]: "w_tasks (demo_world r) = []" "w_outbox (demo_world r) = []"
  by (simp_all add: demo_world_def)

lemma sample_request_fields [simp]:
  "rq_path (sample_request verb path headers) = path" "rq_method (sample_request verb path headers) = verb"
  by (simp_all add: sample_request_def)

lemma alice_factor:
  "get_health_factor demo_api Delivered 1700000000 demo_empty = 1"
  "get_health_factor demo_api Delivered 1700000000 alice_empty = 1"
  by (simp_all add: get_health_factor_def window_counts_def demo_api_def demo_empty_def alice_empty_def Let_def)

lemma alice_limit: "resolve_limit test_settings 1700000000000000 \<lparr>db_quotas = Map.empty, db_logs = []\<rparr> ''alice'' ''free'' = 60"
  by (simp add: resolve_limit_def lookup_override_def tier_default_def test_settings_fields)

lemma effective_60: "effective_limit 60 1 = 60"
  by (simp add: effective_limit_full)

lemma alice_granted:
  "\<exists>r. verdict demo_env ''alice'' ''free'' (demo_world demo_empty) =
     (Inr \<lparr>lr_allowed = True, lr_limit = 60, lr_remaining = 59, lr_retry_after = 0, lr_degraded = False\<rparr>, r)"
  by (simp add: verdict_def check_rate_limit_def demo_env_def demo_world_def alice_factor alice_limit effective_60
      redis_check_def run_script_def token_bucket_lua_def lua_bucket_def Let_def)

lemma alice_denied:
  "\<exists>r. verdict demo_env ''alice'' ''free'' (demo_world alice_empty) =
     (Inr \<lparr>lr_allowed = False, lr_limit = 60, lr_remaining = 0, lr_retry_after = 1, lr_degraded = False\<rparr>, r)"
proof -
  have "hget demo_api alice_empty (user_key ''alice'') ''tokens'' = Some 0"
    "hget demo_api alice_empty (user_key ''alice'') ''last_refill'' = Some 1700000000"
    by (simp_all add: alice_empty_def hash_lawsD(1) [OF demo_hash_laws])
  then show ?thesis
    by (simp add: verdict_def check_rate_limit_def demo_env_def demo_world_def alice_factor alice_limit effective_60
      redis_check_def run_script_def token_bucket_lua_def lua_bucket_def Let_def)
qed

lemma demo_breaker: "cb_admit (ev_admit_at demo_env) (w_breaker (demo_world r)) = (True, upstream_breaker)"
  by (simp add: cb_admit_def demo_world_def upstream_breaker_def new_breaker_def)

lemma alice_request_fields [simp]:
  "rq_path (alice_request path) = path" "rq_method (alice_request path) = ''GET''"
  by (simp_all add: alice_request_def sample_request_def)

lemma alice_get: "authorized demo_env (alice_request ''/get'') ''alice'' ''free''"
  using alice_authorized path_get(1) by simp

lemma demo_up: "ev_db_up demo_env" by (simp add: demo_env_def)

text \<open>Alice's request when the database is down.\<close>

lemma alice_no_db:
  "fst (app (demo_env\<lparr>ev_db_up := False\<rparr>) keep keep (alice_request ''/get'') (demo_world demo_empty)) = Inl Db_Exn"
  "w_outbox (final (app (demo_env\<lparr>ev_db_up := False\<rparr>) keep keep (alice_request ''/get'') (demo_world demo_empty))) =
     w_outbox (demo_world demo_empty)"
proof -
  let ?env = "demo_env\<lparr>ev_db_up := False\<rparr>" and ?rq = "alice_request ''/get''"
  have plain: "plain_request ?env keep keep ?rq"
    using demo_plain [of ?rq] by (simp add: plain_request_def)
  have "authorized ?env ?rq ''alice'' ''free''"
    using alice_get by (simp add: authorized_def authenticate_def cong: if_cong)
  then have "fst (inner ?env ?rq (start_state ?env ?rq) (demo_world demo_empty)) = Inl Db_Exn
    \<and> w_outbox (final (inner ?env ?rq (start_state ?env ?rq) (demo_world demo_empty))) = w_outbox (demo_world demo_empty)"
    by (cases rule: inner_cases [of ?rq ?env "start_state ?env ?rq" "demo_world demo_empty"]) (auto simp: authorized_def)
  then show "fst (app ?env keep keep ?rq (demo_world demo_empty)) = Inl Db_Exn"
    "w_outbox (final (app ?env keep keep ?rq (demo_world demo_empty))) = w_outbox (demo_world demo_empty)"
    using app_result(3) [OF plain, of "demo_world demo_empty"] by (simp_all add: app_result(1) [OF plain] served_def)
qed

theorem within_quota_forwarded_witness:
  "\<exists>rs. fst (app demo_env keep keep (alice_request ''/get'') (demo_world demo_empty)) = Inr rs
     \<and> rs_status rs = 200 \<and> header rs ''X-RateLimit-Remaining'' = Some (int_str 59)"
proof -
  obtain r where v: "verdict demo_env ''alice'' ''free'' (demo_world demo_empty) =
     (Inr \<lparr>lr_allowed = True, lr_limit = 60, lr_remaining = 59, lr_retry_after = 0, lr_degraded = False\<rparr>, r)"
    using alice_granted by blast
  have up: "client_status (ev_upstream demo_env c) = Some 200" for c
    by (simp add: client_status_def demo_env_def)
  show ?thesis
    using within_quota_forwarded [OF demo_plain alice_get demo_up v _ _ demo_breaker refl, of "''get''"]
    by (auto simp: path_get up)
qed

theorem over_quota_rejected_witness:
  "\<exists>rs. fst (app demo_env keep keep (alice_request ''/get'') (demo_world alice_empty)) = Inr rs
     \<and> rs_status rs = 429 \<and> header rs ''Retry-After'' = Some (int_str 1)"
proof -
  obtain r where v: "verdict demo_env ''alice'' ''free'' (demo_world alice_empty) =
     (Inr \<lparr>lr_allowed = False, lr_limit = 60, lr_remaining = 0, lr_retry_after = 1, lr_degraded = False\<rparr>, r)"
    using alice_denied by blast
  show ?thesis
    using over_quota_rejected [OF demo_plain alice_get demo_up v] by auto
qed

theorem response_headers_witness:
  "(\<exists>rs. fst (app demo_env keep keep (sample_request ''GET'' ''/get'' []) (demo_world demo_empty)) = Inr rs
     \<and> header rs ''X-Request-ID'' = Some ''req_0123456789abcdef'' \<and> header rs ''X-Frame-Options'' = Some ''DENY'')
   \<and> (\<exists>rs. received (fst (app (demo_env\<lparr>ev_db_up := False\<rparr>) keep keep (alice_request ''/get'') (demo_world demo_empty))) = Some rs
     \<and> header rs ''X-Request-ID'' = None)"
proof
  let ?rq = "sample_request ''GET'' ''/get'' []"
  have "fst (app demo_env keep keep ?rq (demo_world demo_empty)) \<noteq> Inl e" for e
    using path_get(1)
    by (simp add: app_result(1) [OF demo_plain] inner_def auth_dispatch_eq authenticate_def sample_request_def
        get_header_def startswith_def)
  then obtain rs st w' where a: "app demo_env keep keep ?rq (demo_world demo_empty) = (Inr rs, st, w')"
    by (metis prod_cases3 fst_conv obj_sumE)
  have "get_header ?rq ''X-Request-ID'' = None" "ev_uuid_hex demo_env = ''0123456789abcdef0123456789abcdef''"
    by (simp_all add: sample_request_def get_header_def demo_env_def)
  then show "\<exists>rs. fst (app demo_env keep keep ?rq (demo_world demo_empty)) = Inr rs
     \<and> header rs ''X-Request-ID'' = Some ''req_0123456789abcdef'' \<and> header rs ''X-Frame-Options'' = Some ''DENY''"
    using response_headers [OF a, of rs] a demo_plain [of ?rq] by (auto simp: received_Some)
next
  let ?env = "demo_env\<lparr>ev_db_up := False\<rparr>"
  obtain res st w' where a: "app ?env keep keep (alice_request ''/get'') (demo_world demo_empty) = (res, st, w')"
    using prod_cases3 by blast
  moreover have "fst (app ?env keep keep (alice_request ''/get'') (demo_world demo_empty)) = Inl Db_Exn"
    by (rule alice_no_db(1))
  ultimately show "\<exists>rs. received (fst (app ?env keep keep (alice_request ''/get'') (demo_world demo_empty))) = Some rs
     \<and> header rs ''X-Request-ID'' = None"
    using response_headers [OF a, of server_error] by (auto simp: received_Some)
qed

lemma one_log_entry_witness:
  "\<exists>e. w_tasks (final (app demo_env keep keep (sample_request ''GET'' ''/health'' []) (demo_world demo_empty))) = [e]
     \<and> le_endpoint e = ''/health'' \<and> le_user_id e = ''anonymous''"
proof -
  let ?rq = "sample_request ''GET'' ''/health'' []"
  obtain res st w' where a: "app demo_env keep keep ?rq (demo_world demo_empty) = (res, st, w')"
    using prod_cases3 by blast
  have "is_public AUTH_PUBLIC_PATH_PREFIXES ''/health''" by code_simp
  then show ?thesis
    using one_log_entry [OF demo_plain a] by (auto simp: a)
qed

theorem unauthenticated_rejected_witness:
  "\<exists>rs. fst (app demo_env keep keep (sample_request ''GET'' ''/get'' []) (demo_world demo_empty)) = Inr rs
     \<and> rs_status rs = 401"
proof -
  let ?rq = "sample_request ''GET'' ''/get'' []"
  have np: "\<not> is_public AUTH_PUBLIC_PATH_PREFIXES (rq_path ?rq)" using path_get(1) by simp
  have "authenticate demo_env ?rq =
      Inl (new_error InvalidTokenError ''Missing or malformed Authorization header.'' None)"
    by (simp add: authenticate_def sample_request_def get_header_def startswith_def)
  from unauthenticated_rejected [OF demo_plain np this, of "demo_world demo_empty"]
  show ?thesis by auto
qed

lemma no_language_errors_witness:
  "fst (app demo_env keep keep (alice_request ''/get'') (demo_world demo_empty)) \<noteq> Inl (Py_Exn AttributeError)"
  by (rule no_language_errors [OF demo_plain])

theorem quota_table_guarded_witness:
  "w_db (final (app demo_env keep keep (sample_request ''DELETE'' ''/admin/quota/alice'' []) (demo_world demo_empty))) =
   w_db (demo_world demo_empty)"
proof -
  let ?rq = "sample_request ''DELETE'' ''/admin/quota/alice'' []"
  obtain res st w' where a: "app demo_env keep keep ?rq (demo_world demo_empty) = (res, st, w')"
    using prod_cases3 by blast
  have "\<not> admin_key_ok (ev_settings demo_env) ?rq"
    by (simp add: admin_key_ok_def sample_request_def get_header_def)
  then show ?thesis using quota_table_guarded [OF demo_plain a] by (simp add: a)
qed

theorem upstream_only_with_quota_witness:
  "w_outbox (final (app demo_env keep keep (sample_request ''GET'' ''/get'' []) (demo_world demo_empty))) = []"
proof -
  let ?rq = "sample_request ''GET'' ''/get'' []"
  have np: "\<not> is_public AUTH_PUBLIC_PATH_PREFIXES (rq_path ?rq)" using path_get(1) by (simp add: sample_request_def)
  have "\<not> authorized demo_env ?rq u t" for u t
    by (simp add: authorized_def authenticate_def sample_request_def get_header_def startswith_def)
  then show ?thesis
    using upstream_only_with_quota [OF demo_plain np, of "demo_world demo_empty"] by (simp add: demo_world_def)
qed

theorem public_prefix_bypasses_auth_witness:
  "w_outbox (final (app demo_env keep keep (sample_request ''GET'' ''/authors'' []) (demo_world demo_empty))) =
     [upstream_call test_settings ''authors'' (sample_request ''GET'' ''/authors'' [])]"
proof -
  let ?rq = "sample_request ''GET'' ''/authors'' []"
  have "is_public AUTH_PUBLIC_PATH_PREFIXES (rq_path ?rq)"
    "route_of (rq_method ?rq) (rq_path ?rq) = Full (Proxy_Route ''authors'')"
    using path_get(2,4) by (simp_all add: sample_request_def)
  from public_prefix_bypasses_auth [OF demo_plain this demo_breaker] show ?thesis
    by (simp add: demo_env_def demo_world_def)
qed

theorem redis_open_database_closed_witness:
  "fst (app (demo_env\<lparr>ev_db_up := False\<rparr>) keep keep (alice_request ''/get'') (demo_world demo_empty)) = Inl Db_Exn"
proof -
  let ?env = "demo_env\<lparr>ev_db_up := False\<rparr>"
  have "plain_request ?env keep keep (alice_request ''/get'')"
    using demo_plain [of "alice_request ''/get''"] by (simp add: plain_request_def)
  moreover have "authorized ?env (alice_request ''/get'') ''alice'' ''free''"
    using alice_get by (simp add: authorized_def authenticate_def cong: if_cong)
  ultimately show ?thesis using redis_open_database_closed [of ?env keep keep] by simp
qed

theorem admin_endpoints_guarded_witness:
  "\<exists>rs. fst (app demo_env keep keep (sample_request ''GET'' ''/admin/stats'' [(''x-admin-key'', ''guess'')])
       (demo_world demo_empty)) = Inr rs \<and> rs_status rs = 401"
proof -
  let ?rq = "sample_request ''GET'' ''/admin/stats'' [(''x-admin-key'', ''guess'')]"
  have "route_of ''GET'' ''/admin/stats'' = Full Stats_Route" by code_simp
  then have r: "route_of (rq_method ?rq) (rq_path ?rq) = Full Stats_Route" by simp
  have "get_header ?rq ''x-admin-key'' = Some ''guess''"
    by (simp add: sample_request_def get_header_def lower_names)
  then have "\<not> admin_key_ok (ev_settings demo_env) ?rq"
    by (simp add: admin_key_ok_def demo_env_def test_settings_fields DEV_ADMIN_KEY_def)
  then show ?thesis
    using admin_endpoints_guarded [OF demo_plain r, of "demo_world demo_empty"]
    by (auto simp: admin_endpoint_def)
qed

end
