(* ===== verification/Conformance.thy ===== *)
theory Conformance
  imports Redis_Limiter
begin

text \<open>
  The other side of the limiter's bargain: theory Redis_Limiter bounds what it grants from above,
  here is what it cannot refuse. The specification is an exact token bucket, in rational
  arithmetic, with one token less than the limit: whatever that bucket accepts, the script
  accepts, whatever the other users do and however its float arithmetic and the 14 digits it
  prints round. The spare token pays for the roundings of \<open>10 ^ 14 / (6 * max limit window)\<close> requests.
\<close>

section \<open>The exact bucket\<close>

definition exact_refill :: "int \<Rightarrow> int \<Rightarrow> rat \<Rightarrow> int \<Rightarrow> rat" where
  "exact_refill limit window level elapsed =
     min (of_int limit - 1) (level + of_int (max 0 elapsed) * (of_int limit / of_int window))"

fun exact_accepts :: "int \<Rightarrow> int \<Rightarrow> rat \<Rightarrow> int \<Rightarrow> int list \<Rightarrow> bool" where
  "exact_accepts limit window level seen [] \<longleftrightarrow> True"
| "exact_accepts limit window level seen (t # ts) \<longleftrightarrow>
     1 \<le> exact_refill limit window level (t - seen)
   \<and> exact_accepts limit window (exact_refill limit window level (t - seen) - 1) t ts"

text \<open>A user's clock readings conform when the exact bucket, full at the first, accepts them all.\<close>

definition conforms :: "int \<Rightarrow> int \<Rightarrow> int list \<Rightarrow> bool" where
  "conforms limit window ts \<longleftrightarrow> (case ts of [] \<Rightarrow> True | t # _ \<Rightarrow> exact_accepts limit window (of_int limit - 1) t ts)"

text \<open>Two ways to conform: to keep the pace, one token's time between requests, or to ask for less than
  the limit altogether, however fast.\<close>

fun paced :: "int \<Rightarrow> int \<Rightarrow> int list \<Rightarrow> bool" where
  "paced limit window (a # b # ts) \<longleftrightarrow> window \<le> limit * (b - a) \<and> paced limit window (b # ts)"
| "paced limit window ts \<longleftrightarrow> True"

lemma paced_accepted:
  assumes "2 \<le> limit" "1 \<le> window" "0 \<le> level" "paced limit window (seen # ts)"
  shows "exact_accepts limit window level seen ts"
  using assms(3,4)
proof (induction ts arbitrary: level seen)
  case (Cons t ts)
  have l: "(2 :: rat) \<le> of_int limit" "(1 :: rat) \<le> of_int window" using assms(1,2) by simp_all
  have "limit * (t - seen) \<le> limit * max 0 (t - seen)" using assms(1) by (intro mult_left_mono) auto
  then have "window \<le> limit * max 0 (t - seen)" using Cons.prems(2) by simp
  then have "(of_int window :: rat) \<le> of_int (limit * max 0 (t - seen))" by (simp only: of_int_le_iff)
  then have "1 \<le> of_int (max 0 (t - seen)) * (of_int limit / of_int window :: rat)"
    using l(2) unfolding of_int_mult times_divide_eq_right by (subst le_divide_eq_1_pos) (linarith, simp only: mult.commute)
  then have "1 \<le> exact_refill limit window level (t - seen)"
    unfolding exact_refill_def using Cons.prems(1) l by (intro min.boundedI) linarith+
  then show ?case using Cons by simp
qed simp

lemma paced_conforms:
  assumes "2 \<le> limit" "1 \<le> window" "paced limit window ts"
  shows "conforms limit window ts"
proof (cases ts)
  case (Cons t r)
  have l: "(2 :: rat) \<le> of_int limit" using assms(1) by simp
  have "exact_accepts limit window (of_int limit - 1 - 1) t r"
    using assms l by (intro paced_accepted) (simp_all add: Cons)
  then show ?thesis using l by (simp add: conforms_def Cons exact_refill_def)
qed (simp add: conforms_def)

lemma burst_accepted:
  assumes "1 \<le> limit" "1 \<le> window"
  shows "of_nat (length ts) \<le> level \<Longrightarrow> level \<le> of_int limit - 1 \<Longrightarrow> exact_accepts limit window level seen ts"
proof (induction ts arbitrary: level seen)
  case (Cons t ts)
  have "0 \<le> of_int (max 0 (t - seen)) * (of_int limit / of_int window :: rat)"
    using assms by (intro mult_nonneg_nonneg) simp_all
  then have "level \<le> exact_refill limit window level (t - seen)" "exact_refill limit window level (t - seen) \<le> of_int limit - 1"
    using Cons.prems(2) by (simp_all add: exact_refill_def)
  then show ?case using Cons.prems(1) by (auto intro!: Cons.IH)
qed simp

lemma burst_conforms: "1 \<le> window \<Longrightarrow> int (length ts) < limit \<Longrightarrow> conforms limit window ts"
proof (cases ts)
  case (Cons t r)
  assume *: "1 \<le> window" "int (length ts) < limit"
  then have "(of_int (int (length ts)) :: rat) \<le> of_int (limit - 1)" by (simp only: of_int_le_iff)
  then have "of_nat (length ts) \<le> (of_int limit - 1 :: rat)" by simp
  then show ?thesis unfolding conforms_def using * by (simp only: Cons list.case) (intro burst_accepted, simp_all)
qed (simp add: conforms_def)

section \<open>The least a refill gives\<close>

context rounding
begin

lemma refill_lower:
  assumes t: "0 \<le> t" and d: "0 \<le> d" and cap: "1 \<le> cap" "cap \<le> exact"
  shows "min (of_int cap) (t + d) - 2 * (u * of_int cap) \<le> min (rd (t + rd d)) (rd (of_int cap))"
proof -
  let ?c = "of_int cap :: rat"
  have c: "rd ?c = ?c" "1 \<le> ?c" "0 \<le> u * ?c" using cap u_nonneg by (simp_all add: rd_int)
  have "rd (min d ?c) \<le> rd d" by (rule rd_mono) simp
  moreover have "min d ?c - u * ?c \<le> rd (min d ?c)" using d c(2) by (intro rd_lower) auto
  ultimately have r: "min d ?c - u * ?c \<le> rd d" by linarith
  show ?thesis
  proof (cases "?c \<le> t + rd d")
    case True
    then have "?c \<le> rd (t + rd d)" using cap by (intro int_le_rd) auto
    then show ?thesis using c by simp
  next
    case False
    then have "t + rd d - u * ?c \<le> rd (t + rd d)" using t rd_nonneg [OF d] c(2) by (intro rd_lower) auto
    then show ?thesis using r c t by (simp add: min_def split: if_splits)
  qed
qed

end

text \<open>What the rate loses to its rounding matters only until the bucket is full.\<close>

lemma rate_times_elapsed:
  assumes "limit_ok limit" "window_ok window" "0 \<le> elapsed"
  shows "min (of_int limit) (of_int elapsed * (of_int limit / of_int window)) - of_int (max limit window) / 2 ^ 53
    \<le> of_int elapsed * refill_rate limit window"
proof -
  let ?l = "of_int limit :: rat" and ?w = "of_int window :: rat" and ?e = "of_int elapsed :: rat" and ?r = "refill_rate limit window"
  have l: "1 \<le> ?l" "1 \<le> ?w" "0 \<le> ?e" using assms by (simp_all add: limit_ok_def window_ok_def)
  have m: "?w \<le> of_int (max limit window)" "?l \<le> of_int (max limit window)" by simp_all
  have pos: "0 < ?r" by (rule refill_rate_pos [OF assms(1,2)])
  show ?thesis
  proof (cases "limit \<le> window")
    case True
    then have x: "?l / ?w \<le> 1" "0 \<le> ?l / ?w" using l by simp_all
    then have r: "?l / ?w - 1 / 2 ^ 53 * 1 \<le> ?r" unfolding refill_rate_def by (intro fl.rd_lower) simp_all
    have f: "f * (?l / ?w) - ?w / 2 ^ 53 \<le> f * ?r" if "0 \<le> f" "f \<le> ?w" for f :: rat
    proof -
      have "f * (?l / ?w - 1 / 2 ^ 53 * 1) \<le> f * ?r" by (rule mult_left_mono [OF r that(1)])
      moreover have "f / 2 ^ 53 \<le> ?w / 2 ^ 53" using that(2) by (rule divide_right_mono) simp
      ultimately show ?thesis by (simp add: algebra_simps)
    qed
    have "?w / 2 ^ 53 \<le> of_int (max limit window) / 2 ^ 53" using m(1) by (rule divide_right_mono) simp
    moreover have "min ?l (?e * (?l / ?w)) - ?w / 2 ^ 53 \<le> ?e * ?r"
    proof (cases "?e \<le> ?w")
      case True
      have "min ?l (?e * (?l / ?w)) \<le> ?e * (?l / ?w)" by (rule min.cobounded2)
      then show ?thesis using f [OF l(3) True] by linarith
    next
      case False
      have "?w * ?r \<le> ?e * ?r" using False pos by (intro mult_right_mono) auto
      moreover have "min ?l (?e * (?l / ?w)) \<le> ?w * (?l / ?w)" using l by simp
      ultimately show ?thesis using f [of ?w] l by linarith
    qed
    ultimately show ?thesis by linarith
  next
    case False
    then have x: "1 \<le> ?l / ?w" using l by simp
    then have r: "?l / ?w - 1 / 2 ^ 53 * (?l / ?w) \<le> ?r" unfolding refill_rate_def by (intro fl.rd_lower) simp_all
    then have er: "?e * (?l / ?w) - ?e * (?l / ?w) / 2 ^ 53 \<le> ?e * ?r"
      using mult_left_mono [OF r l(3)] by (simp add: algebra_simps)
    have "min ?l y - of_int (max limit window) / 2 ^ 53 \<le> y - y / 2 ^ 53" if "0 \<le> y" for y :: rat
    proof (cases "y \<le> ?l")
      case True
      then have "y / 2 ^ 53 \<le> of_int (max limit window) / 2 ^ 53" using m(2) by (intro divide_right_mono) auto
      then show ?thesis using True by simp
    next
      case False
      then have "?l * (1 - 1 / 2 ^ 53) \<le> y * (1 - 1 / 2 ^ 53)" by (intro mult_right_mono) simp_all
      moreover have "?l / 2 ^ 53 \<le> of_int (max limit window) / 2 ^ 53" using m(2) by (intro divide_right_mono) auto
      ultimately show ?thesis using False by (simp add: algebra_simps)
    qed
    from this [of "?e * (?l / ?w)"] show ?thesis using er l by simp
  qed
qed

section \<open>One call\<close>

text \<open>What the roundings of one call may cost.\<close>

definition call_drift :: "int \<Rightarrow> int \<Rightarrow> rat" where
  "call_drift limit window = 6 / 10 ^ 14 * of_int (max limit window)"

lemma conforming_check:
  assumes ok: "limit_ok limit" "window_ok window" and s: "0 \<le> tokens s"
    and clk: "sane_clock now" "sane_clock (last_refill s)"
    and level: "1 \<le> exact_refill limit window level (now - last_refill s)"
    and ahead: "level + 1 - lost \<le> tokens s" "0 \<le> lost" "lost + call_drift limit window \<le> 1"
    and res: "check_token_bucket (Some s) now limit (refill_rate limit window) = Inr res"
  shows "allowed res"
    and "(exact_refill limit window level (now - last_refill s) - 1) + 1 - (lost + call_drift limit window)
      \<le> fl64 (g14 (tokens (new_state res)))"
proof -
  let ?l = "of_int limit :: rat" and ?m = "of_int (max limit window) :: rat" and ?rate = "refill_rate limit window"
  let ?cur = "refill_phase s now limit ?rate" and ?e = "of_int (max 0 (now - last_refill s)) :: rat"
  let ?E = "exact_refill limit window level (now - last_refill s)"
  have cap: "capacity_ok limit" by (rule limit_capacity [OF ok(1)])
  have l: "1 \<le> ?l" "?l \<le> ?m" "1 \<le> limit" "limit \<le> 2 ^ 53" using ok(1) cap by (simp_all add: limit_ok_def capacity_ok_def)
  have pos: "0 < ?rate" by (rule refill_rate_pos [OF ok])
  have u: "0 \<le> ?m / 2 ^ 53" "0 \<le> ?l / 2 ^ 53" "0 \<le> 5 / 10 ^ 14 * ?l" using l by simp_all
  have drift: "?m / 2 ^ 53 + 2 * (?l / 2 ^ 53) + 2 * (?l / 2 ^ 53) + 5 / 10 ^ 14 * ?l \<le> call_drift limit window"
    using l unfolding call_drift_def by (simp add: field_simps)
  have "min ?l (tokens s + ?e * ?rate) - 2 * (1 / 2 ^ 53 * ?l) \<le> min (fl64 (tokens s + fl64 (?e * ?rate))) (fl64 ?l)"
    using s l pos by (intro fl.refill_lower) auto
  then have cur: "min ?l (tokens s + ?e * ?rate) - 2 * (?l / 2 ^ 53) \<le> ?cur"
    using sane_elapsed [OF clk(2,1)] by (simp add: refill_phase_def Let_def)
  have rate: "min ?l (?e * (?l / of_int window)) - ?m / 2 ^ 53 \<le> ?e * ?rate"
    by (rule rate_times_elapsed [OF ok]) simp
  have E: "?E \<le> ?l - 1" "?E \<le> level + ?e * (?l / of_int window)" by (simp_all add: exact_refill_def)
  have low: "?E + 1 - lost - (?m / 2 ^ 53 + 2 * (?l / 2 ^ 53)) \<le> ?cur"
    using cur rate E ahead(1,2) s u(1) by (simp add: min_def split: if_splits)
  have top: "?cur \<le> ?l" using refill_phase_bounds(2) [OF cap s, of ?rate now] pos by simp
  have one: "1 \<le> ?cur" using low level ahead(3) drift u by linarith
  from res one show a: "allowed res" by (auto simp: check_token_bucket_def Let_def)
  have new: "tokens (new_state res) = fl64 (?cur - 1)" using res one by (auto simp: check_token_bucket_def Let_def)
  have "?cur - 1 - 1 / 2 ^ 53 * ?l \<le> fl64 (?cur - 1)" using one top l(1) by (intro fl.rd_lower) auto
  moreover have t: "0 \<le> fl64 (?cur - 1)" "fl64 (?cur - 1) \<le> ?l"
    using one top l capacity_exact [OF cap] by (auto intro!: fl.rd_nonneg fl.rd_le_fixed)
  then have "fl64 (?cur - 1) - 5 / 10 ^ 14 * ?l \<le> g14 (fl64 (?cur - 1))" using l(1) by (intro dec.rd_lower)
  moreover have "0 \<le> g14 (fl64 (?cur - 1))" "g14 (fl64 (?cur - 1)) \<le> ?l"
    using t ok(1) by (auto simp: limit_ok_def intro!: dec.rd_nonneg dec.rd_le_int)
  then have "g14 (fl64 (?cur - 1)) - 1 / 2 ^ 53 * ?l \<le> fl64 (g14 (fl64 (?cur - 1)))" using l(1) by (intro fl.rd_lower)
  ultimately show "(?E - 1) + 1 - (lost + call_drift limit window) \<le> fl64 (g14 (tokens (new_state res)))"
    using low drift unfolding new times_divide_eq_left mult_1_left by linarith
qed

section \<open>A history\<close>

definition steady_call :: "int \<Rightarrow> string \<Rightarrow> int \<Rightarrow> int \<Rightarrow> string \<times> int \<times> int \<times> int \<Rightarrow> bool" where
  "steady_call lmax user limit window c \<longleftrightarrow> script_valid lmax c
   \<and> (fst c = user \<longrightarrow> fst (snd c) = limit \<and> fst (snd (snd c)) = window)"

lemma conforming_script_call:
  assumes laws: "hash_laws R" "key_wf R user r" and ok: "limit_ok limit" "window_ok window" "sane_clock now"
    and s: "stored_bucket R user r = Some s" and level: "1 \<le> exact_refill limit window level (now - last_refill s)"
    and ahead: "level + 1 - lost \<le> tokens s" "0 \<le> lost" "lost + call_drift limit window \<le> 1"
  obtains s' where "fst (script_call R user (user, limit, window, now) r)"
    "key_wf R user (snd (script_call R user (user, limit, window, now) r))"
    "stored_bucket R user (snd (script_call R user (user, limit, window, now) r)) = Some s'" "last_refill s' = now"
    "(exact_refill limit window level (now - last_refill s) - 1) + 1 - (lost + call_drift limit window) \<le> tokens s'"
proof -
  obtain res w r' where res: "check_token_bucket (stored_bucket R user r) now limit (refill_rate limit window) = Inr res"
    and c: "redis_check R Delivered now user limit window r =
       (Inr \<lparr>lr_allowed = allowed res, lr_limit = limit, lr_remaining = remaining res,
             lr_retry_after = w, lr_degraded = False\<rparr>, r')"
    and h: "hget R r' user ''tokens'' = Some (g14 (tokens (new_state res)))"
    "hget R r' user ''last_refill'' = Some (of_int now)"
    using check_refines [OF laws ok] by metis
  have st: "0 \<le> tokens s" "sane_clock (last_refill s)"
    using laws(2) s by (cases rule: key_wf_cases; auto intro: fl.rd_nonneg)+
  note conform = conforming_check [OF ok(1,2) st(1) ok(3) st(2) level ahead res [unfolded s]]
  show thesis
    by (rule that [of "\<lparr>tokens = fl64 (g14 (tokens (new_state res))), last_refill = now\<rparr>"])
      (use conform h check_key_wf [OF laws ok] in \<open>simp_all add: c stored_bucket_def\<close>)
qed

lemma conforming_run:
  assumes "hash_laws R" "limit_ok limit" "window_ok window"
    and "\<forall>c\<in>set cs. steady_call lmax user limit window c"
    and "key_wf R user r" "stored_bucket R user r = Some s"
    and "exact_accepts limit window level (last_refill s) (user_clocks user cs)"
    and "level + 1 - lost \<le> tokens s" "0 \<le> lost"
    and "lost + of_nat (length (user_clocks user cs)) * call_drift limit window \<le> 1"
  shows "allowed_count (fst (run_calls (script_call R user) cs r)) = length (user_clocks user cs)"
  using assms(4-10)
proof (induction cs arbitrary: r s level lost)
  case Nil
  then show ?case by (simp add: user_clocks_def)
next
  case (Cons c cs)
  obtain key l w now where c: "c = (key, l, w, now)" by (cases c)
  have valid: "script_valid lmax (key, l, w, now)" using Cons.prems(1) by (simp add: steady_call_def c)
  let ?r = "snd (script_call R user c r)"
  show ?case
  proof (cases "key = user")
    case False
    note other = script_call_other [OF assms(1) valid False, of r, folded c]
    have clocks: "user_clocks user (c # cs) = user_clocks user cs" using False by (simp add: c user_clocks_def)
    have "allowed_count (fst (run_calls (script_call R user) cs ?r)) = length (user_clocks user cs)"
    proof (rule Cons.IH)
      show "key_wf R user ?r" using Cons.prems(2) unfolding key_wf_def other(2) .
      show "stored_bucket R user ?r = Some s" using Cons.prems(3) stored_bucket_cong [OF other(2)] by simp
    qed (use Cons.prems in \<open>simp_all add: clocks\<close>)
    then show ?thesis using other(1) by (simp add: clocks)
  next
    case True
    then have c: "c = (user, limit, window, now)" using Cons.prems(1) by (simp add: steady_call_def c)
    have clocks: "user_clocks user (c # cs) = now # user_clocks user cs" by (simp add: c user_clocks_def)
    let ?E = "exact_refill limit window level (now - last_refill s)"
    have drift: "0 \<le> call_drift limit window" using assms(2) by (simp add: call_drift_def limit_ok_def le_max_iff_disj)
    have left: "lost + call_drift limit window + of_nat (length (user_clocks user cs)) * call_drift limit window \<le> 1"
      using Cons.prems(7) by (simp add: clocks algebra_simps)
    have "0 \<le> of_nat (length (user_clocks user cs)) * call_drift limit window" using drift by simp
    then have lost: "lost + call_drift limit window \<le> 1" using left by linarith
    have level: "1 \<le> ?E" and tail: "exact_accepts limit window (?E - 1) now (user_clocks user cs)"
      using Cons.prems(4) by (simp_all add: clocks)
    have "sane_clock now" using valid by simp
    from conforming_script_call [OF assms(1) Cons.prems(2) assms(2,3) this Cons.prems(3) level Cons.prems(5,6) lost, folded c]
    obtain s' where one: "fst (script_call R user c r)" "key_wf R user ?r" "stored_bucket R user ?r = Some s'"
      "last_refill s' = now" "?E - 1 + 1 - (lost + call_drift limit window) \<le> tokens s'" .
    have "allowed_count (fst (run_calls (script_call R user) cs ?r)) = length (user_clocks user cs)"
      by (rule Cons.IH [OF _ one(2,3) _ one(5)]) (use Cons.prems(1,6) tail drift left in \<open>simp_all add: one(4)\<close>)
    then show ?thesis using one(1) by (simp add: clocks)
  qed
qed

text \<open>The first call finds a full bucket.\<close>

lemma first_script_call:
  assumes "hash_laws R" "limit_ok limit" "window_ok window" "sane_clock now" "hget R r user ''tokens'' = None"
  shows "fst (script_call R user (user, limit, window, now) r)"
    and "key_wf R user (snd (script_call R user (user, limit, window, now) r))"
    and "stored_bucket R user (snd (script_call R user (user, limit, window, now) r)) =
      Some \<lparr>tokens = of_int limit - 1, last_refill = now\<rparr>"
proof -
  let ?r = "snd (script_call R user (user, limit, window, now) r)"
  have l: "1 \<le> limit" "limit \<le> 10 ^ 14" using assms(2) by (simp_all add: limit_ok_def)
  have "whole_tokens R user limit (nat limit) now r" using assms(5) l by (simp add: whole_tokens_def)
  note first = whole_tokens_step [OF assms(1-4) this]
  show "fst (script_call R user (user, limit, window, now) r)" using first(1) l by simp
  have "int (nat limit - 1) = limit - 1" using l by simp
  then have full: "(of_nat (nat limit - 1) :: rat) = of_int limit - 1" by (metis of_int_of_nat_eq of_int_diff of_int_1)
  have t: "hget R ?r user ''tokens'' = Some (of_int limit - 1)" "hget R ?r user ''last_refill'' = Some (of_int now)"
    using first(2) l unfolding whole_tokens_def full by auto
  have "fl64 (of_int limit - 1) = of_int limit - 1" using fl64_int [of "limit - 1"] l by simp
  then show "stored_bucket R user ?r = Some \<lparr>tokens = of_int limit - 1, last_refill = now\<rparr>"
    using t by (simp add: stored_bucket_def)
  show "key_wf R user ?r" using t assms(4) l by (simp add: key_wf_def)
qed

text \<open>A bucket that has served at most \<open>n\<close> calls of one limit, however fast, has at least the rest of it.\<close>

definition in_credit :: "'r redis_api \<Rightarrow> string \<Rightarrow> int \<Rightarrow> int \<Rightarrow> nat \<Rightarrow> 'r \<Rightarrow> bool" where
  "in_credit R user limit window n r \<longleftrightarrow> key_wf R user r
   \<and> (case stored_bucket R user r of
        None \<Rightarrow> hget R r user ''tokens'' = None
      | Some s \<Rightarrow> \<exists>level. of_int limit - 1 - of_nat n \<le> level
          \<and> level + 1 - of_nat n * call_drift limit window \<le> tokens s)"

lemma in_credit_cong:
  assumes "hash_eq R r r'"
  shows "in_credit R user limit window n r' \<longleftrightarrow> in_credit R user limit window n r"
proof -
  have eq: "hget R r' user f = hget R r user f" for f using assms by (simp add: hash_eq_def)
  show ?thesis unfolding in_credit_def stored_bucket_cong [OF eq] eq ..
qed

lemma in_credit_call:
  assumes laws: "hash_laws R" and ok: "limit_ok limit" "window_ok window" "sane_clock now"
    and few: "int n + 1 < limit" "6 * max limit window * (int n + 1) \<le> 10 ^ 14"
    and credit: "in_credit R user limit window n r"
  shows "fst (script_call R user (user, limit, window, now) r)"
    and "in_credit R user limit window (Suc n) (snd (script_call R user (user, limit, window, now) r))"
proof -
  let ?r = "snd (script_call R user (user, limit, window, now) r)"
  have l: "1 \<le> limit" using ok(1) by (simp add: limit_ok_def)
  have drift: "0 \<le> call_drift limit window" using ok(1) by (simp add: call_drift_def limit_ok_def le_max_iff_disj)
  have "(of_int (6 * max limit window * (int n + 1)) :: rat) \<le> of_int (10 ^ 14)" using few(2) by (simp only: of_int_le_iff)
  then have lost: "of_nat n * call_drift limit window + call_drift limit window \<le> 1"
    by (simp add: call_drift_def algebra_simps)
  have "fst (script_call R user (user, limit, window, now) r) \<and> in_credit R user limit window (Suc n) ?r"
  proof (cases "stored_bucket R user r")
    case None
    then have none: "hget R r user ''tokens'' = None" using credit by (simp add: in_credit_def)
    note first = first_script_call [OF laws ok none]
    have "\<exists>level. of_int limit - 1 - of_nat (Suc n) \<le> level
        \<and> level + 1 - of_nat (Suc n) * call_drift limit window \<le> of_int limit - 1"
      using drift by (intro exI [of _ "of_int limit - 1 - 1"]) simp
    then show ?thesis using first by (simp add: in_credit_def)
  next
    case (Some s)
    then obtain level where level: "of_int limit - 1 - of_nat n \<le> level" "level + 1 - of_nat n * call_drift limit window \<le> tokens s"
      and wf: "key_wf R user r"
      using credit by (auto simp: in_credit_def)
    let ?E = "exact_refill limit window level (now - last_refill s)"
    have "(of_int (int n + 1) :: rat) \<le> of_int (limit - 1)" using few(1) by (simp only: of_int_le_iff)
    then have n: "of_nat n + 1 \<le> (of_int limit - 1 :: rat)" by simp
    have "0 \<le> of_int (max 0 (now - last_refill s)) * (of_int limit / of_int window :: rat)"
      using ok(2) l by (intro mult_nonneg_nonneg) (simp_all add: window_ok_def)
    then have E: "of_int limit - 1 - of_nat n \<le> ?E" using level(1) by (simp add: exact_refill_def)
    then have one: "1 \<le> ?E" using n by linarith
    have pos: "0 \<le> of_nat n * call_drift limit window" using drift by simp
    obtain s' where s': "fst (script_call R user (user, limit, window, now) r)" "key_wf R user ?r"
      "stored_bucket R user ?r = Some s'" "?E - 1 + 1 - (of_nat n * call_drift limit window + call_drift limit window) \<le> tokens s'"
      by (rule conforming_script_call [OF laws wf ok Some one level(2) pos lost])
    have "\<exists>level. of_int limit - 1 - of_nat (Suc n) \<le> level \<and> level + 1 - of_nat (Suc n) * call_drift limit window \<le> tokens s'"
      using E s'(4) by (intro exI [of _ "?E - 1"]) (simp add: algebra_simps)
    then show ?thesis using s' by (simp add: in_credit_def)
  qed
  then show "fst (script_call R user (user, limit, window, now) r)" "in_credit R user limit window (Suc n) ?r" by blast+
qed

text \<open>A user with no bucket yet, under one limit, among any requests of other users from any processes: if
  the exact bucket of \<open>limit - 1\<close> tokens accepts the user's requests, so does the script, as long as
  they number at most \<open>10 ^ 14 / (6 * max limit window)\<close>. At a limit of 1 the exact bucket accepts
  nothing, and there the script does turn away who waits as long as it was told
  (\<open>lua_retry_after_too_short\<close>).\<close>

lemma conforming_user_never_denied:
  assumes "hash_laws R" "limit_ok limit" "window_ok window" "hget R r user ''tokens'' = None"
    and "\<forall>c\<in>set cs. steady_call lmax user limit window c" "conforms limit window (user_clocks user cs)"
    and "6 * max limit window * int (length (user_clocks user cs)) \<le> 10 ^ 14"
  shows "allowed_count (fst (run_calls (script_call R user) cs r)) = length (user_clocks user cs)"
  using assms(4-7)
proof (induction cs arbitrary: r)
  case Nil
  then show ?case by (simp add: user_clocks_def)
next
  case (Cons c cs)
  obtain key l w now where c: "c = (key, l, w, now)" by (cases c)
  have valid: "script_valid lmax (key, l, w, now)" using Cons.prems(2) by (simp add: steady_call_def c)
  let ?r = "snd (script_call R user c r)"
  show ?case
  proof (cases "key = user")
    case False
    note other = script_call_other [OF assms(1) valid False, of r, folded c]
    have "user_clocks user (c # cs) = user_clocks user cs" using False by (simp add: c user_clocks_def)
    then show ?thesis using Cons.IH [of ?r] Cons.prems other by simp
  next
    case True
    then have c: "c = (user, limit, window, now)" using Cons.prems(2) by (simp add: steady_call_def c)
    have clocks: "user_clocks user (c # cs) = now # user_clocks user cs" by (simp add: c user_clocks_def)
    have now: "sane_clock now" using valid by simp
    have l: "1 \<le> limit" "limit \<le> 10 ^ 14" using assms(2) by (simp_all add: limit_ok_def)
    have start: "1 \<le> (of_int limit - 1 :: rat)" "exact_accepts limit window (of_int limit - 1 - 1) now (user_clocks user cs)"
      using Cons.prems(3) by (simp_all add: conforms_def clocks exact_refill_def)
    note first = first_script_call [OF assms(1-3) now Cons.prems(1), folded c]
    have "int (length (user_clocks user cs)) * (6 * max limit window) \<le> 10 ^ 14"
      using Cons.prems(4) l by (simp add: clocks algebra_simps)
    then have "(of_int (int (length (user_clocks user cs)) * (6 * max limit window)) :: rat) \<le> of_int (10 ^ 14)"
      by (simp only: of_int_le_iff)
    then have "0 + of_nat (length (user_clocks user cs)) * call_drift limit window \<le> 1"
      by (simp add: call_drift_def algebra_simps)
    then have "allowed_count (fst (run_calls (script_call R user) cs ?r)) = length (user_clocks user cs)"
      using Cons.prems(2) start(2)
      by (intro conforming_run [OF assms(1-3) _ first(2,3), where lmax = lmax and level = "of_int limit - 1 - 1" and lost = 0]) simp_all
    then show ?thesis using first(1) by (simp add: clocks)
  qed
qed

lemma conforming_user_never_denied_witness:
  "allowed_count (fst (run_calls (script_call demo_api ''user:a'')
     [(''user:a'', 3, 60, 1000), (''user:b'', 5, 60, 3), (''user:a'', 3, 60, 1000), (''user:a'', 3, 60, 1020)] demo_empty)) = 3"
proof -
  let ?cs = "[(''user:a'', 3, 60, 1000), (''user:b'', 5, 60, 3), (''user:a'', 3, 60, 1000), (''user:a'', 3, 60, 1020)]"
  have "\<forall>c\<in>set ?cs. steady_call 20 ''user:a'' 3 60 c"
    by (simp add: steady_call_def limit_ok_def window_ok_def sane_clock_def)
  from conforming_user_never_denied [OF demo_hash_laws _ _ _ this, of demo_empty] show ?thesis
    by (simp add: limit_ok_def window_ok_def demo_missing user_clocks_def conforms_def exact_refill_def del: run_calls_Cons)
qed

end
