(* ===== verification/Traffic.thy ===== *)
theory Traffic
  imports Conformance
begin

text \<open>
  Traffic that is paid for by the limiter, as an interface. A system takes events; an event makes
  limiter calls and sends requests upstream, and between the two a request may hold a grant it has
  not used yet. The contract is about one event: its limiter calls are what it does to the buckets,
  and what it sends, with the grants then held, was held before or is granted by its calls. The
  locale proves once what a whole history sends. Theories Gateway_Quota (requests one after the
  other), Interleaving (requests in flight at once in one process) and Deployment (several worker
  processes) interpret it.
\<close>

text \<open>The limiter calls of a history, in the order they reach Redis, and the total of a count over its
  events.\<close>

fun trace_calls :: "('e \<Rightarrow> 's \<Rightarrow> 's) \<Rightarrow> ('e \<Rightarrow> 's \<Rightarrow> 'c list) \<Rightarrow> 'e list \<Rightarrow> 's \<Rightarrow> 'c list" where
  "trace_calls step calls [] s = []"
| "trace_calls step calls (e # es) s = calls e s @ trace_calls step calls es (step e s)"

fun trace_sum :: "('e \<Rightarrow> 's \<Rightarrow> 's) \<Rightarrow> ('e \<Rightarrow> 's \<Rightarrow> nat) \<Rightarrow> 'e list \<Rightarrow> 's \<Rightarrow> nat" where
  "trace_sum step count [] s = 0"
| "trace_sum step count (e # es) s = count e s + trace_sum step count es (step e s)"

definition paid_by :: "'r redis_api \<Rightarrow> string \<Rightarrow> (string \<times> int \<times> int \<times> int) list \<Rightarrow> 'r \<Rightarrow> nat" where
  "paid_by R key cs r = allowed_count (fst (run_calls (script_call R key) cs r))"

definition after_calls :: "'r redis_api \<Rightarrow> string \<Rightarrow> (string \<times> int \<times> int \<times> int) list \<Rightarrow> 'r \<Rightarrow> 'r" where
  "after_calls R key cs r = snd (run_calls (script_call R key) cs r)"

lemma paid_by_append: "paid_by R key (cs @ ds) r = paid_by R key cs r + paid_by R key ds (after_calls R key cs r)"
  by (simp add: paid_by_def after_calls_def run_calls_append)

lemma paid_by_Nil [simp]: "paid_by R key [] r = 0" by (simp add: paid_by_def)

lemma after_calls_Nil [simp]: "after_calls R key [] r = r" by (simp add: after_calls_def)

lemma hash_eq_refl [simp]: "hash_eq R r r" by (simp add: hash_eq_def)

lemma hash_eq_trans: "hash_eq R r s \<Longrightarrow> hash_eq R s t \<Longrightarrow> hash_eq R r t" by (simp add: hash_eq_def)

locale paid_traffic =
  fixes R :: "'r redis_api"
    and lmax :: int
    and key :: string
    and step :: "'e \<Rightarrow> 's \<Rightarrow> 's"
    and calls :: "'e \<Rightarrow> 's \<Rightarrow> (string \<times> int \<times> int \<times> int) list"
    and sends :: "'e \<Rightarrow> 's \<Rightarrow> nat"
    and held :: "'s \<Rightarrow> nat"
    and redis_of :: "'s \<Rightarrow> 'r"
    and inv :: "'s \<Rightarrow> bool"
    and ok :: "'e \<Rightarrow> bool"
  assumes inv_laws: "inv s \<Longrightarrow> hash_laws R \<and> 1 \<le> lmax"
    and inv_step: "inv s \<Longrightarrow> ok e \<Longrightarrow> inv (step e s)"
    and calls_ok: "inv s \<Longrightarrow> ok e \<Longrightarrow> c \<in> set (calls e s) \<Longrightarrow> script_valid lmax c \<and> fst (snd (snd c)) = 60"
    and calls_only: "inv s \<Longrightarrow> ok e \<Longrightarrow> hash_eq R r (redis_of s) \<Longrightarrow>
      hash_eq R (after_calls R key (calls e s) r) (redis_of (step e s))"
    and paid: "inv s \<Longrightarrow> ok e \<Longrightarrow> hash_eq R r (redis_of s) \<Longrightarrow>
      sends e s + held (step e s) \<le> held s + paid_by R key (calls e s) r"
begin

lemma trace_paid:
  "inv s \<Longrightarrow> \<forall>e\<in>set es. ok e \<Longrightarrow> hash_eq R r (redis_of s) \<Longrightarrow>
   trace_sum step sends es s \<le> held s + paid_by R key (trace_calls step calls es s) r"
proof (induction es arbitrary: s r)
  case (Cons e es)
  have ok: "ok e" using Cons.prems(2) by simp
  have "trace_sum step sends es (step e s) \<le> held (step e s)
      + paid_by R key (trace_calls step calls es (step e s)) (after_calls R key (calls e s) r)"
    using Cons.prems(2) by (intro Cons.IH inv_step [OF Cons.prems(1) ok] calls_only [OF Cons.prems(1) ok Cons.prems(3)]) simp
  then show ?case using paid [OF Cons.prems(1) ok Cons.prems(3)] by (simp add: paid_by_append)
qed simp

lemma trace_valid:
  "inv s \<Longrightarrow> \<forall>e\<in>set es. ok e \<Longrightarrow> \<forall>c\<in>set (trace_calls step calls es s). script_valid lmax c \<and> fst (snd (snd c)) = 60"
proof (induction es arbitrary: s)
  case (Cons e es)
  have ok: "ok e" using Cons.prems(2) by simp
  have "\<forall>c\<in>set (trace_calls step calls es (step e s)). script_valid lmax c \<and> fst (snd (snd c)) = 60"
    using Cons.prems(2) by (intro Cons.IH inv_step [OF Cons.prems(1) ok]) simp
  then show ?case using calls_ok [OF Cons.prems(1) ok] unfolding trace_calls.simps set_append by blast
qed simp

text \<open>What a history sends is at most the grants held at its beginning, the largest limit, its refill
  over the limiter's clock on the key's calls, and rounding.\<close>

lemma trace_quota:
  assumes "inv s" "\<forall>e\<in>set es. ok e" "hget R (redis_of s) key ''tokens'' = None"
  shows "of_nat (trace_sum step sends es s) \<le>
    of_nat (held s) + of_int lmax
      + of_int (clock_span (user_clocks key (trace_calls step calls es s))) * refill_rate lmax 60
      + of_nat (length (user_clocks key (trace_calls step calls es s))) * (6 / 10 ^ 14 * of_int lmax)"
proof -
  let ?calls = "trace_calls step calls es s"
  have "of_nat (paid_by R key ?calls (redis_of s)) \<le>
      of_int lmax + of_int (clock_span (user_clocks key ?calls)) * refill_rate lmax 60
      + of_nat (length (user_clocks key ?calls)) * (6 / 10 ^ 14 * of_int lmax)"
    unfolding paid_by_def using inv_laws [OF assms(1)] assms(3) trace_valid [OF assms(1,2)] by (intro script_quota) blast+
  moreover have "(of_nat (trace_sum step sends es s) :: rat) \<le> of_nat (held s) + of_nat (paid_by R key ?calls (redis_of s))"
    unfolding of_nat_add [symmetric] of_nat_le_iff by (rule trace_paid [OF assms(1,2) hash_eq_refl])
  ultimately show ?thesis by linarith
qed

end

text \<open>Traffic in which a limiter call of the key that is not granted is a denial. Then a key whose
  requests conform is not denied.\<close>

locale answered_traffic = paid_traffic +
  fixes denials :: "'c \<Rightarrow> 'b \<Rightarrow> nat"
  assumes answered: "inv s \<Longrightarrow> ok e \<Longrightarrow> hash_eq R r (redis_of s) \<Longrightarrow>
      denials e s + paid_by R key (calls e s) r = length (user_clocks key (calls e s))"
begin

lemma trace_answered:
  "inv s \<Longrightarrow> \<forall>e\<in>set es. ok e \<Longrightarrow> hash_eq R r (redis_of s) \<Longrightarrow>
   trace_sum step denials es s + paid_by R key (trace_calls step calls es s) r =
   length (user_clocks key (trace_calls step calls es s))"
proof (induction es arbitrary: s r)
  case Nil
  then show ?case by (simp add: user_clocks_def)
next
  case (Cons e es)
  have ok: "ok e" using Cons.prems(2) by simp
  have "trace_sum step denials es (step e s)
      + paid_by R key (trace_calls step calls es (step e s)) (after_calls R key (calls e s) r) =
      length (user_clocks key (trace_calls step calls es (step e s)))"
    using Cons.prems(2) by (intro Cons.IH inv_step [OF Cons.prems(1) ok] calls_only [OF Cons.prems(1) ok Cons.prems(3)]) simp
  then show ?case using answered [OF Cons.prems(1) ok Cons.prems(3)] by (simp add: paid_by_append user_clocks_def)
qed

lemma trace_not_denied:
  assumes "inv s" "\<forall>e\<in>set es. ok e" "hget R (redis_of s) key ''tokens'' = None"
    and "limit_ok limit"
    and "\<forall>c\<in>set (trace_calls step calls es s). fst c = key \<longrightarrow> fst (snd c) = limit"
    and "conforms limit 60 (user_clocks key (trace_calls step calls es s))"
    and "6 * max limit 60 * int (length (user_clocks key (trace_calls step calls es s))) \<le> 10 ^ 14"
  shows "trace_sum step denials es s = 0"
proof -
  let ?calls = "trace_calls step calls es s"
  have "window_ok 60" by (simp add: window_ok_def)
  moreover have "\<forall>c\<in>set ?calls. steady_call lmax key limit 60 c"
    using trace_valid [OF assms(1,2)] assms(5) unfolding steady_call_def by blast
  ultimately have "paid_by R key ?calls (redis_of s) = length (user_clocks key ?calls)"
    unfolding paid_by_def using inv_laws [OF assms(1)]
    by (intro conforming_user_never_denied [OF _ assms(4) _ assms(3) _ assms(6,7)]) simp_all
  then show ?thesis using trace_answered [OF assms(1,2) hash_eq_refl] by simp
qed

end

end
