(* ===== verification/Gateway_Quota.thy ===== *)
theory Gateway_Quota
  imports App_Properties Traffic
begin

text \<open>
  The quota of a user over a whole history of the gateway: requests of anyone, on any path, with
  any credentials, admin requests that change overrides, and background log writes, in any
  order. The history is simulated by the limiter calls it makes (\<open>all_calls\<close>), for which theory
  Redis_Limiter bounds what one user is granted; everything else a request does to Redis leaves
  the buckets alone.
\<close>

section \<open>Histories\<close>

text \<open>An event: a request, handled in its surroundings, or a background task run, which writes the
  \<open>i\<close>-th scheduled log entry.\<close>

datatype 'r event = Request "'r env" request | Background nat bool int int

text \<open>A background task runs: the \<open>i\<close>-th of the scheduled writes.\<close>

definition run_log_write :: "nat \<Rightarrow> bool \<Rightarrow> int \<Rightarrow> int \<Rightarrow> 'r world \<Rightarrow> 'r world" where
  "run_log_write i db_up row_id created_at w =
     (if i < length (w_tasks w)
      then safe_write db_up row_id created_at (w_tasks w ! i)
             (w\<lparr>w_tasks := take i (w_tasks w) @ drop (Suc i) (w_tasks w)\<rparr>)
      else w)"

lemma run_log_write_simps [simp]:
  "w_redis (run_log_write i up row t w) = w_redis w" "w_outbox (run_log_write i up row t w) = w_outbox w"
  "w_breaker (run_log_write i up row t w) = w_breaker w" "w_allowed (run_log_write i up row t w) = w_allowed w"
  "w_limited (run_log_write i up row t w) = w_limited w"
  "db_quotas (w_db (run_log_write i up row t w)) = db_quotas (w_db w)"
  by (simp_all add: run_log_write_def safe_write_def store_write_def Let_def)

text \<open>A write moves its entry from the tasks to the log, or drops it.\<close>

lemma log_write_entries:
  assumes "i < length (w_tasks w)" and w': "w' = run_log_write i up row_id t w"
  shows "length (w_tasks w') = length (w_tasks w) - 1"
    and "mset (map entry_of_row (db_logs (w_db w'))) + mset (w_tasks w') \<subseteq>#
      mset (map entry_of_row (db_logs (w_db w))) + mset (w_tasks w)"
    and "up \<Longrightarrow> mset (map entry_of_row (db_logs (w_db w'))) + filter_mset entry_fits (mset (w_tasks w')) =
      mset (map entry_of_row (db_logs (w_db w))) + filter_mset entry_fits (mset (w_tasks w))"
proof -
  let ?e = "w_tasks w ! i"
  have w': "w_tasks w' = take i (w_tasks w) @ drop (Suc i) (w_tasks w)" "w_db w' = store_write up row_id t ?e (w_db w)"
    using assms by (simp_all add: run_log_write_def safe_write_def)
  have tasks: "mset (w_tasks w) = add_mset ?e (mset (w_tasks w'))"
    using assms(1) unfolding w'(1) by (metis id_take_nth_drop mset_append mset.simps(2) union_mset_add_mset_right)
  show "length (w_tasks w') = length (w_tasks w) - 1" using assms(1) w'(1) by simp
  show "mset (map entry_of_row (db_logs (w_db w'))) + mset (w_tasks w') \<subseteq>#
      mset (map entry_of_row (db_logs (w_db w))) + mset (w_tasks w)"
    unfolding w'(2) tasks by (simp add: store_write_def Let_def subset_mset.add_increasing2)
  assume up
  then show "mset (map entry_of_row (db_logs (w_db w'))) + filter_mset entry_fits (mset (w_tasks w')) =
      mset (map entry_of_row (db_logs (w_db w))) + filter_mset entry_fits (mset (w_tasks w))"
    unfolding w'(2) tasks by (simp add: store_write_def Let_def row_fits_entry)
qed

fun step ::
  "(string list \<Rightarrow> 'r middleware) \<Rightarrow> (string list \<Rightarrow> 'r middleware) \<Rightarrow> 'r event \<Rightarrow> 'r world \<Rightarrow> 'r world" where
  "step trusted_host cors (Request env rq) w = final (app env trusted_host cors rq w)"
| "step trusted_host cors (Background i db_up row_id created_at) w = run_log_write i db_up row_id created_at w"

text \<open>Whose token a request carries, on a path where it matters.\<close>

definition token_user :: "'r env \<Rightarrow> request \<Rightarrow> string option" where
  "token_user env rq =
     (if is_public AUTH_PUBLIC_PATH_PREFIXES (rq_path rq) then None
      else case authenticate env rq of Inl _ \<Rightarrow> None | Inr c \<Rightarrow> cl_sub c)"

text \<open>The upstream requests a history makes in a user's name.\<close>

fun forwarded_for ::
  "string \<Rightarrow> (string list \<Rightarrow> 'r middleware) \<Rightarrow> (string list \<Rightarrow> 'r middleware) \<Rightarrow> 'r event list \<Rightarrow> 'r world \<Rightarrow> nat" where
  "forwarded_for user trusted_host cors [] w = 0"
| "forwarded_for user trusted_host cors (e # es) w =
     (let w' = step trusted_host cors e w
      in (case e of
            Request env rq \<Rightarrow>
              if token_user env rq = Some user then length (w_outbox w') - length (w_outbox w) else 0
          | Background _ _ _ _ \<Rightarrow> 0)
         + forwarded_for user trusted_host cors es w')"

text \<open>The limiter's clock on the user's requests that got as far as the limiter.\<close>

fun event_clock :: "string \<Rightarrow> 'r event \<Rightarrow> int list" where
  "event_clock user (Request env rq) =
     (if token_user env rq = Some user \<and> ev_db_up env then [ev_epoch env] else [])"
| "event_clock user (Background _ _ _ _) = []"

definition clocks_for :: "string \<Rightarrow> 'r event list \<Rightarrow> int list" where
  "clocks_for user es = concat (map (event_clock user) es)"

text \<open>What is assumed of an event: the third-party middlewares pass the request on, every request
  talks to the same Redis, which answers, the clock is sane, and the tier limits are positive and
  at most \<open>lmax\<close>.\<close>

fun event_ok ::
  "'r redis_api \<Rightarrow> int \<Rightarrow> (string list \<Rightarrow> 'r middleware) \<Rightarrow> (string list \<Rightarrow> 'r middleware) \<Rightarrow> 'r event \<Rightarrow> bool" where
  "event_ok R lmax trusted_host cors (Request env rq) \<longleftrightarrow>
     plain_request env trusted_host cors rq \<and> ev_redis env = R \<and> ev_check_dlv env = Delivered
   \<and> sane_clock (ev_epoch env)
   \<and> (\<forall>l\<in>{rate_limit_free (ev_settings env), rate_limit_pro (ev_settings env),
            rate_limit_enterprise (ev_settings env)}. 1 \<le> l \<and> l \<le> lmax)"
| "event_ok R lmax trusted_host cors (Background _ _ _ _) \<longleftrightarrow> True"

section \<open>The limiter calls of a history\<close>

definition request_limit :: "'r env \<Rightarrow> string \<Rightarrow> string \<Rightarrow> 'r world \<Rightarrow> int" where
  "request_limit env user tier w =
     effective_limit (resolve_limit (ev_settings env) (ev_instant env) (w_db w) user tier)
       (get_health_factor (ev_redis env) (ev_factor_dlv env) (ev_factor_at env) (w_redis w))"

fun limiter_calls :: "'r event \<Rightarrow> 'r world \<Rightarrow> (string \<times> int \<times> int \<times> int) list" where
  "limiter_calls (Request env rq) w =
     (if is_public AUTH_PUBLIC_PATH_PREFIXES (rq_path rq) \<or> \<not> ev_db_up env then []
      else case authenticate env rq of
        Inl _ \<Rightarrow> []
      | Inr c \<Rightarrow>
          (case (cl_sub c, cl_tier c) of
             (Some user, Some tier) \<Rightarrow> [(user_key user, request_limit env user tier w, 60, ev_epoch env)]
           | _ \<Rightarrow> []))"
| "limiter_calls (Background _ _ _ _) w = []"

fun all_calls ::
  "(string list \<Rightarrow> 'r middleware) \<Rightarrow> (string list \<Rightarrow> 'r middleware) \<Rightarrow> 'r event list \<Rightarrow> 'r world \<Rightarrow>
   (string \<times> int \<times> int \<times> int) list" where
  "all_calls trusted_host cors [] w = []"
| "all_calls trusted_host cors (e # es) w =
     limiter_calls e w @ all_calls trusted_host cors es (step trusted_host cors e w)"

section \<open>Everything else leaves the buckets alone\<close>

lemma record_hash_eq:
  assumes "hash_laws R" "separate_laws R"
  shows "hash_eq R r (record_upstream_result R dlv now b r)"
  using assms
  by (simp add: record_upstream_result_def record_pipeline_def hash_eq_def Let_def hash_lawsD separate_laws_def)

lemma proxy_hash_eq:
  assumes "hash_laws (ev_redis env)" "separate_laws (ev_redis env)"
  shows "hash_eq (ev_redis env) (w_redis w) (w_redis (final (proxy env path rq st w)))"
proof -
  obtain adm b where "cb_admit (ev_admit_at env) (w_breaker w) = (adm, b)" by fastforce
  then show ?thesis
    by (cases adm)
       (simp_all add: proxy_rejected proxy_admitted Let_def record_result_def record_hash_eq [OF assms]
          split: func_end.split http_exc.split)
qed

lemma routes_hash_eq:
  assumes "hash_laws (ev_redis env)" "separate_laws (ev_redis env)"
  shows "hash_eq (ev_redis env) (w_redis w) (w_redis (final (routes env rq st w)))"
proof -
  have "hash_eq (ev_redis env) (w_redis w) (w_redis (final (run_endpoint env e rq st w)))" for e
  proof (cases e)
    case (Proxy_Route path)
    then show ?thesis using proxy_hash_eq [OF assms] by (simp add: run_endpoint_def)
  qed (auto simp: run_endpoint_def with_body_def token_dependencies_def require_admin_def mint_token_def
         upsert_quota_def get_quota_def delete_quota_def list_logs_def get_stats_def upstream_health_def
         health_def ready_def metrics_def Let_def split: body_in.split option.split sum.split prod.split)
  then show ?thesis by (simp add: routes_def router_def split: match.split)
qed

section \<open>The simulation\<close>

lemma step_quotas:
  assumes "event_ok R lmax trusted_host cors e" "quotas_ok (w_db w)"
  shows "quotas_ok (w_db (step trusted_host cors e w))"
proof (cases e)
  case (Request env rq)
  have "plain_request env trusted_host cors rq" using assms(1) by (simp add: Request)
  from app_effect [OF this, of w] show ?thesis
    using assms(2) unfolding Request step.simps route_effect.simps by metis
next
  case (Background i up row_id t)
  then show ?thesis
    using assms(2) by (simp add: quotas_ok_def)
qed

text \<open>What the limit needs of a request: the same Redis, which answers, a sane clock, tier limits up to
  \<open>lmax\<close>. The factor may be one read at any earlier time.\<close>

definition task_ok :: "'r redis_api \<Rightarrow> int \<Rightarrow> 'r env \<Rightarrow> bool" where
  "task_ok R lmax env \<longleftrightarrow> ev_redis env = R \<and> ev_check_dlv env = Delivered \<and> sane_clock (ev_epoch env)
   \<and> (\<forall>l\<in>{rate_limit_free (ev_settings env), rate_limit_pro (ev_settings env),
            rate_limit_enterprise (ev_settings env)}. 1 \<le> l \<and> l \<le> lmax)"

lemma read_limit_valid:
  assumes "task_ok R lmax env" "quotas_ok d" "f = 1 \<or> f = 1 / 2" "10 ^ 6 \<le> lmax" "lmax \<le> 10 ^ 14"
  shows "script_valid lmax
    (key, effective_limit (resolve_limit (ev_settings env) (ev_instant env) d user tier) f, 60, ev_epoch env)"
proof -
  let ?l = "resolve_limit (ev_settings env) (ev_instant env) d user tier"
  have tier: "1 \<le> tier_default (ev_settings env) tier \<and> tier_default (ev_settings env) tier \<le> lmax"
    using assms(1) by (simp add: tier_default_def task_ok_def)
  have over: "1 \<le> l \<and> l \<le> lmax" if look: "lookup_override (ev_instant env) d user = Some l" for l
  proof -
    obtain q where "db_quotas d user = Some q" "l = q_custom_limit q"
      using look by (auto simp: lookup_override_def split: option.splits if_splits)
    then have "quota_row_ok user q" "l = q_custom_limit q" using assms(2) by (simp_all add: quotas_ok_def)
    then show ?thesis using assms(4) by (simp add: quota_row_ok_def)
  qed
  have "1 \<le> ?l \<and> ?l \<le> lmax"
    using tier over by (simp add: resolve_limit_def split: option.split)
  then show ?thesis
    using effective_limit_ok [of ?l f] assms(1,3,5) by (simp add: task_ok_def)
qed

lemma request_limit_valid:
  assumes "event_ok R lmax trusted_host cors (Request env rq)" "quotas_ok (w_db w)"
    and "10 ^ 6 \<le> lmax" "lmax \<le> 10 ^ 14"
  shows "script_valid lmax (key, request_limit env user tier w, 60, ev_epoch env)"
proof -
  have "task_ok R lmax env" using assms(1) by (simp add: task_ok_def)
  then show ?thesis
    unfolding request_limit_def by (rule read_limit_valid [OF _ assms(2) health_factor_values assms(3,4)])
qed

lemma simulation_step:
  assumes R: "hash_laws R" "separate_laws R"
    and ok: "event_ok R lmax trusted_host cors e" "quotas_ok (w_db w)" "10 ^ 6 \<le> lmax" "lmax \<le> 10 ^ 14"
    and eq: "hash_eq R r (w_redis w)"
  shows "hash_eq R (snd (run_calls (script_call R (user_key user)) (limiter_calls e w) r))
      (w_redis (step trusted_host cors e w))"
    and "forwarded_for user trusted_host cors [e] w \<le>
      allowed_count (fst (run_calls (script_call R (user_key user)) (limiter_calls e w) r))"
proof -
  have "hash_eq R (snd (run_calls (script_call R (user_key user)) (limiter_calls e w) r))
      (w_redis (step trusted_host cors e w))
    \<and> forwarded_for user trusted_host cors [e] w \<le>
      allowed_count (fst (run_calls (script_call R (user_key user)) (limiter_calls e w) r))"
  proof (cases e)
    case (Background i up row_id t)
    then show ?thesis using eq by simp
  next
    case (Request env rq)
    have plain: "plain_request env trusted_host cors rq" and env: "ev_redis env = R"
      and dlv: "ev_check_dlv env = Delivered" using ok(1) by (simp_all add: Request)
    have red: "w_redis (step trusted_host cors e w) = w_redis (final (inner env rq (start_state env rq) w))"
      and out: "w_outbox (step trusted_host cors e w) = w_outbox (final (inner env rq (start_state env rq) w))"
      using app_result(2,3) [OF plain, of w] by (simp_all add: Request served_def)
    have fwd: "forwarded_for user trusted_host cors [e] w =
        (if token_user env rq = Some user
         then length (w_outbox (step trusted_host cors e w)) - length (w_outbox w) else 0)"
      by (simp add: Request)
    have sent: "length (w_outbox (step trusted_host cors e w)) - length (w_outbox w) \<le> 1"
      unfolding out using inner_effect [of env rq w "start_state env rq"] by (auto simp: core_def)
    show ?thesis
    proof (cases rule: inner_cases [of rq env "start_state env rq" w])
      case public
      then show ?thesis
        using hash_eq_trans [OF eq] routes_hash_eq [of env w rq "start_state env rq"] R red
        by (simp add: Request token_user_def env)
    next
      case (refused exc)
      then show ?thesis using eq red out by (simp add: Request token_user_def)
    next
      case (no_db c)
      then show ?thesis using eq red out by (simp add: Request)
    next
      case (limited c u tier result r')
      let ?l = "request_limit env u tier w"
      have calls: "limiter_calls e w = [(user_key u, ?l, 60, ev_epoch env)]"
        using limited by (simp add: Request)
      have chk: "redis_check R Delivered (ev_epoch env) (user_key u) ?l 60 (w_redis w) = (Inr result, r')"
        using limited(6) by (simp add: verdict_def check_rate_limit_def request_limit_def env dlv)
      have "limit_ok ?l" using request_limit_valid [OF ok(1) [unfolded Request] ok(2-4)] by simp
      note cong = redis_check_cong [OF R(1) eq this window_60, of "ev_epoch env" "user_key u"]
      obtain x where x: "redis_check R Delivered (ev_epoch env) (user_key u) ?l 60 r = (Inr result, x)"
        "hash_eq R x r'"
        using cong chk by (cases "redis_check R Delivered (ev_epoch env) (user_key u) ?l 60 r") auto
      have "w_redis (step trusted_host cors e w) = r'" unfolding red limited(8) by simp
      moreover have "w_outbox (step trusted_host cors e w) = w_outbox w" unfolding out limited(8) by simp
      ultimately show ?thesis unfolding fwd calls using x by simp
    next
      case (allowed c u tier result r')
      let ?l = "request_limit env u tier w"
      have calls: "limiter_calls e w = [(user_key u, ?l, 60, ev_epoch env)]"
        using allowed by (simp add: Request)
      have chk: "redis_check R Delivered (ev_epoch env) (user_key u) ?l 60 (w_redis w) = (Inr result, r')"
        using allowed(6) by (simp add: verdict_def check_rate_limit_def request_limit_def env dlv)
      have "limit_ok ?l" using request_limit_valid [OF ok(1) [unfolded Request] ok(2-4)] by simp
      note cong = redis_check_cong [OF R(1) eq this window_60, of "ev_epoch env" "user_key u"]
      obtain x where x: "redis_check R Delivered (ev_epoch env) (user_key u) ?l 60 r = (Inr result, x)"
        "hash_eq R x r'"
        using cong chk by (cases "redis_check R Delivered (ev_epoch env) (user_key u) ?l 60 r") auto
      let ?w = "w\<lparr>w_redis := r', w_allowed := inc_counter tier (w_allowed w)\<rparr>"
      have "hash_eq R r' (w_redis (step trusted_host cors e w))"
        unfolding red allowed(8) using routes_hash_eq [of env ?w] R by (simp add: env)
      then have "hash_eq R x (w_redis (step trusted_host cors e w))" by (rule hash_eq_trans [OF x(2)])
      moreover have "token_user env rq = Some u" using allowed by (simp add: token_user_def)
      moreover have "run_calls (script_call R (user_key user)) [(user_key u, ?l, 60, ev_epoch env)] r =
          ([u = user], x)" using x(1) allowed(7) by simp
      ultimately show ?thesis
        unfolding fwd calls using sent by (cases "u = user") simp_all
    qed
  qed
  then show "hash_eq R (snd (run_calls (script_call R (user_key user)) (limiter_calls e w) r))
      (w_redis (step trusted_host cors e w))"
    "forwarded_for user trusted_host cors [e] w \<le>
      allowed_count (fst (run_calls (script_call R (user_key user)) (limiter_calls e w) r))"
    by blast+
qed

text \<open>The gateway's laws and bounds, and the history as paid traffic: a request holds no grant when it
  is done.\<close>

definition limits_ok :: "'r redis_api \<Rightarrow> int \<Rightarrow> bool" where
  "limits_ok R lmax \<longleftrightarrow> hash_laws R \<and> separate_laws R \<and> 10 ^ 6 \<le> lmax \<and> lmax \<le> 10 ^ 14"

interpretation requests: paid_traffic R lmax "user_key user" "step trusted_host cors" limiter_calls
    "\<lambda>e w. forwarded_for user trusted_host cors [e] w" "\<lambda>w. 0" w_redis
    "\<lambda>w. limits_ok R lmax \<and> quotas_ok (w_db w)" "event_ok R lmax trusted_host cors"
  for R lmax user trusted_host cors
proof
  fix w :: "'a world" and r and e :: "'a event" and c
  assume inv: "limits_ok R lmax \<and> quotas_ok (w_db w)"
  then have R: "hash_laws R" "separate_laws R" and l: "10 ^ 6 \<le> lmax" "lmax \<le> 10 ^ 14" and q: "quotas_ok (w_db w)"
    by (simp_all add: limits_ok_def)
  show "hash_laws R \<and> 1 \<le> lmax" using R l by simp
  assume ok: "event_ok R lmax trusted_host cors e"
  show "limits_ok R lmax \<and> quotas_ok (w_db (step trusted_host cors e w))" using inv step_quotas [OF ok q] by simp
  show "script_valid lmax c \<and> fst (snd (snd c)) = 60" if "c \<in> set (limiter_calls e w)"
    using that request_limit_valid [OF _ q l, of R trusted_host cors] ok
    by (cases e) (auto split: if_splits sum.splits option.splits simp del: event_ok.simps script_valid.simps)
  assume eq: "hash_eq R r (w_redis w)"
  note one = simulation_step [OF R ok q l eq, of user]
  show "hash_eq R (after_calls R (user_key user) (limiter_calls e w) r) (w_redis (step trusted_host cors e w))"
    using one(1) by (simp add: after_calls_def)
  show "forwarded_for user trusted_host cors [e] w + 0 \<le> 0 + paid_by R (user_key user) (limiter_calls e w) r"
    using one(2) by (simp add: paid_by_def)
qed

lemma all_calls_trace:
  "all_calls trusted_host cors es w = trace_calls (step trusted_host cors) limiter_calls es w"
  by (induction es arbitrary: w) simp_all

lemma forwarded_for_trace:
  "forwarded_for user trusted_host cors es w =
     trace_sum (step trusted_host cors) (\<lambda>e w. forwarded_for user trusted_host cors [e] w) es w"
  by (induction es arbitrary: w) (simp_all add: Let_def)

lemma calls_clocks: "user_clocks (user_key user) (all_calls trusted_host cors es w) = clocks_for user es"
proof (induction es arbitrary: w)
  case Nil
  then show ?case by (simp add: user_clocks_def clocks_for_def)
next
  case (Cons e es)
  have one: "user_clocks (user_key user) (limiter_calls e w) = event_clock user e"
  proof (cases e)
    case (Request env rq)
    show ?thesis
    proof (cases "authenticate env rq")
      case (Inr c)
      obtain u t where "cl_sub c = Some u" "cl_tier c = Some t" using authenticate_Inr [OF Inr] by blast
      then show ?thesis using Inr by (simp add: Request token_user_def user_clocks_def)
    qed (simp add: Request token_user_def user_clocks_def)
  qed (simp add: user_clocks_def)
  have app: "user_clocks k (xs @ ys) = user_clocks k xs @ user_clocks k ys" for k xs ys
    by (simp add: user_clocks_def)
  show ?case using Cons.IH one by (simp add: app clocks_for_def)
qed

text \<open>C2. The promise of the gateway, end to end: take any history of one process, requests of anyone
  with valid, invalid or no tokens, admin requests that set and delete overrides, upstream
  successes and failures, background writes, starting where the user has no bucket. However
  Redis reports the upstream's health and whatever the admins do, the upstream requests made with
  a user's token on paths that are not public number at most \<open>lmax\<close>, the largest limit the
  configuration or an override can give, plus the refill of \<open>lmax\<close> per minute for the time by
  which the limiter's clock moved forward over that user's requests, plus rounding
  (\<open>6 * lmax / 10 ^ 14\<close> for each of them). All this while Redis answers the limiter's calls
  (\<open>task_ok\<close>).\<close>

theorem gateway_quota:
  assumes "hash_laws R" "separate_laws R" "10 ^ 6 \<le> lmax" "lmax \<le> 10 ^ 14"
    and "\<forall>e\<in>set es. event_ok R lmax trusted_host cors e"
    and "quotas_ok (w_db w)" "hget R (w_redis w) (user_key user) ''tokens'' = None"
  shows "of_nat (forwarded_for user trusted_host cors es w) \<le>
    of_int lmax + of_int (clock_span (clocks_for user es)) * refill_rate lmax 60
      + of_nat (length (clocks_for user es)) * (6 / 10 ^ 14 * of_int lmax)"
proof -
  have inv: "limits_ok R lmax \<and> quotas_ok (w_db w)" using assms(1-4,6) by (simp add: limits_ok_def)
  show ?thesis
    using requests.trace_quota [OF inv assms(5,7)]
    unfolding all_calls_trace [symmetric] forwarded_for_trace [symmetric] calls_clocks by simp
qed

theorem gateway_quota_witness:
  "of_nat (forwarded_for ''alice'' keep keep
      [Request demo_env (alice_request ''/get''), Background 0 True 1 7, Request demo_env (alice_request ''/get'')]
      (demo_world demo_empty))
   \<le> (10 ^ 6 + 2 * (6 / 10 ^ 14 * 10 ^ 6) :: rat)"
proof -
  let ?es = "[Request demo_env (alice_request ''/get''), Background 0 True 1 7, Request demo_env (alice_request ''/get'')]"
  have "token_user demo_env (alice_request ''/get'') = Some ''alice''"
    using path_get(1) by (simp add: token_user_def authenticate_alice alice_claims_def)
  then have clocks: "clocks_for ''alice'' ?es = [1700000000, 1700000000]"
    by (simp add: clocks_for_def demo_env_def)
  have "\<forall>e\<in>set ?es. event_ok demo_api (10 ^ 6) keep keep e"
    by (simp add: demo_plain) (simp add: demo_env_def sane_clock_def test_settings_fields)
  from gateway_quota [OF demo_hash_laws demo_separate_laws _ _ this, of "demo_world demo_empty" "''alice''"]
  show ?thesis unfolding clocks by (simp add: demo_world_def quotas_ok_def)
qed

end
