(* ===== verification/Interleaving.thy ===== *)
theory Interleaving
  imports Gateway_Quota
begin

text \<open>
  Requests in flight at once. Theory App handles a request in one step of the world; here a request
  is a sequence of stages, cut where the code awaits Redis, the database or the upstream, and the
  stages of any number of requests interleave. What happens between two awaits is one step, as on
  the event loop: \<open>middleware/auth.py\<close>, the three awaits of \<open>middleware/rate_limit.py\<close> and
  \<open>services/rate_limit_service.py\<close>, those of \<open>routes/proxy.py\<close> and \<open>infra/circuit_breaker.py\<close>, and the
  way out through \<open>middleware/logging.py\<close>. The other routes run in one step (the quota routes are cut
  up in theory Quota_Races). An await that does not return, or not yet, is a stage that gets no
  step: no event list has to serve a request to its end.
\<close>

section \<open>Stages of a request\<close>

text \<open>What has been read so far is part of the stage: the factor, then the limit it gives with the
  override. \<open>Called\<close> is at the router, \<open>Sent\<close> waits for the upstream, \<open>Recording\<close> is about to
  report the outcome to Redis, \<open>Leaving\<close> to go out through the outer layers.\<close>

datatype stage =
    Arrived
  | Factor_Read rstate string string rat
  | Limit_Read rstate string string int
  | Called rstate
  | Sent rstate string
  | Recording rstate bool "exn + response"
  | Leaving rstate "exn + response"
  | Replied rstate "exn + response"

text \<open>From the route out to the limiter: the exception handlers, and the limit headers for a request
  that passed the limiter.\<close>

definition handle_exception :: "'r env \<Rightarrow> rstate \<Rightarrow> exn + response \<Rightarrow> exn + response" where
  "handle_exception env st res =
     (case res of
        Inl (Gateway_Exn e) \<Rightarrow> Inr (handle_gateway_error (st_request_id st) e)
      | Inl (HTTPException code detail headers) \<Rightarrow>
          Inr (json_response code (JObj [(''detail'', JStr detail)]) headers)
      | Inl RequestValidationError \<Rightarrow>
          Inr (json_response 422 (JObj [(''detail'', ev_validation_detail env)]) [])
      | out \<Rightarrow> out)"

definition limit_headers :: "rstate \<Rightarrow> exn + response \<Rightarrow> exn + response" where
  "limit_headers st out =
     (case (st_rate_limit_info st, out) of
        (Some result, Inr rs) \<Rightarrow> Inr (add_limit_headers result rs)
      | _ \<Rightarrow> out)"

definition leave_route :: "'r env \<Rightarrow> rstate \<Rightarrow> exn + response \<Rightarrow> stage" where
  "leave_route env st res = Leaving st (limit_headers st (handle_exception env st res))"

definition leave_stack :: "'r env \<Rightarrow> request \<Rightarrow> rstate \<Rightarrow> exn + response \<Rightarrow> 'r world \<Rightarrow> stage \<times> 'r world" where
  "leave_stack env rq st res w =
     (case res of
        Inr rs \<Rightarrow>
          (Replied st (Inr (add_security_headers (ev_settings env) (set_header ''X-Request-ID'' (request_id_of env rq) rs))),
           schedule_log (log_entry env rq st (rs_status rs)) w)
      | Inl e \<Rightarrow> (Replied st (Inl e), schedule_log (log_entry env rq st 500) w))"

fun task_step :: "'r env \<Rightarrow> request \<Rightarrow> stage \<Rightarrow> 'r world \<Rightarrow> stage \<times> 'r world" where
  "task_step env rq Arrived w =
     (let st = start_state env rq
      in if is_public AUTH_PUBLIC_PATH_PREFIXES (rq_path rq) then (Called st, w)
         else case authenticate env rq of
           Inl exc \<Rightarrow> (Leaving st (Inr (auth_failure_response st exc)), w)
         | Inr c \<Rightarrow>
             let st = st\<lparr>st_user_id := cl_sub c, st_tier := cl_tier c\<rparr>
             in case (st_user_id st, st_tier st) of
               (Some user_id, Some tier) \<Rightarrow>
                 (Factor_Read st user_id tier
                    (get_health_factor (ev_redis env) (ev_factor_dlv env) (ev_factor_at env) (w_redis w)), w)
             | _ \<Rightarrow> (Leaving st (Inl (Py_Exn AttributeError)), w))"
| "task_step env rq (Factor_Read st user_id tier health_factor) w =
     (if \<not> ev_db_up env then (Leaving st (Inl Db_Exn), w)
      else (Limit_Read st user_id tier
              (effective_limit (resolve_limit (ev_settings env) (ev_instant env) (w_db w) user_id tier) health_factor), w))"
| "task_step env rq (Limit_Read st user_id tier limit) w =
     (case redis_check (ev_redis env) (ev_check_dlv env) (ev_epoch env) (user_key user_id) limit 60 (w_redis w) of
        (Inl e, r) \<Rightarrow> (Leaving st (Inl (Py_Exn e)), w\<lparr>w_redis := r\<rparr>)
      | (Inr result, r) \<Rightarrow>
          (let st' = st\<lparr>st_rate_limit_info := Some result\<rparr>; w = w\<lparr>w_redis := r\<rparr>
           in if \<not> lr_allowed result then
                (Leaving st' (Inr (limited_response st' result)), w\<lparr>w_limited := inc_counter tier (w_limited w)\<rparr>)
              else (Called st', w\<lparr>w_allowed := inc_counter tier (w_allowed w)\<rparr>)))"
| "task_step env rq (Called st) w =
     (case route_of (rq_method rq) (rq_path rq) of
        Full (Proxy_Route path) \<Rightarrow>
          (case cb_admit (ev_admit_at env) (w_breaker w) of
             (False, b) \<Rightarrow>
               (Recording st False (Inl (Gateway_Exn (new_error UpstreamError circuit_open_message None))),
                w\<lparr>w_breaker := b\<rparr>)
           | (True, b) \<Rightarrow>
               (Sent st path, snd (do_upstream_request env (upstream_call (ev_settings env) path rq) (w\<lparr>w_breaker := b\<rparr>))))
      | _ \<Rightarrow> (case router env rq st w of (res, st', w') \<Rightarrow> (leave_route env st' res, w')))"
| "task_step env rq (Sent st path) w =
     (let failed = w\<lparr>w_breaker := cb_failure (ev_end_at env) (w_breaker w)\<rparr>
      in case ev_upstream env (upstream_call (ev_settings env) path rq) of
           Returns ur \<Rightarrow>
             (Recording st (\<not> 500 \<le> ur_status ur) (Inr (proxied_response ur)),
              w\<lparr>w_breaker := cb_success (w_breaker w)\<rparr>)
         | Raises TimeoutException \<Rightarrow>
             (Recording st False (Inl (Gateway_Exn (new_error UpstreamTimeout ''Upstream backend timed out.'' None))), failed)
         | Raises (RequestError msg) \<Rightarrow>
             (Recording st False (Inl (Gateway_Exn (new_error UpstreamError (''Upstream backend error: '' @ msg) None))), failed)
         | Raises (OtherException msg) \<Rightarrow> (leave_route env st (Inl (Http_Exn msg)), failed)
         | Cancelled \<Rightarrow> (leave_route env st (Inl CancelledError), w))"
| "task_step env rq (Recording st success res) w = (leave_route env st res, record_result env success w)"
| "task_step env rq (Leaving st res) w = leave_stack env rq st res w"
| "task_step env rq (Replied st res) w = (Replied st res, w)"

text \<open>The tasks are the requests with their surroundings; an event is a step of one of them, or a
  background log write.\<close>

type_synonym 'r tasks = "nat \<Rightarrow> 'r env \<times> request"

type_synonym 'r system = "(nat \<Rightarrow> stage) \<times> 'r world"

datatype sys_event = Task nat | Log_Write nat bool int int

fun sys_step :: "'r tasks \<Rightarrow> sys_event \<Rightarrow> 'r system \<Rightarrow> 'r system" where
  "sys_step tasks (Task k) (stages, w) =
     (let (stage, w') = task_step (fst (tasks k)) (snd (tasks k)) (stages k) w in (stages(k := stage), w'))"
| "sys_step tasks (Log_Write i db_up row_id created_at) (stages, w) =
     (stages, run_log_write i db_up row_id created_at w)"

definition run_system :: "'r tasks \<Rightarrow> sys_event list \<Rightarrow> 'r system \<Rightarrow> 'r system" where
  "run_system tasks es s = fold (sys_step tasks) es s"

lemma run_system_simps [simp]:
  "run_system tasks [] s = s"
  "run_system tasks (e # es) s = run_system tasks es (sys_step tasks e s)"
  by (simp_all add: run_system_def)

section \<open>Alone, a request is handled as in theory App\<close>

fun task_steps :: "nat \<Rightarrow> 'r env \<Rightarrow> request \<Rightarrow> stage \<times> 'r world \<Rightarrow> stage \<times> 'r world" where
  "task_steps 0 env rq s = s"
| "task_steps (Suc n) env rq s = task_steps n env rq (task_step env rq (fst s) (snd s))"

lemma task_steps_add: "task_steps (m + n) env rq s = task_steps n env rq (task_steps m env rq s)"
  by (induction m arbitrary: s) simp_all

lemma replied_stays: "task_steps n env rq (Replied st res, w) = (Replied st res, w)"
  by (induction n) simp_all

lemma run_alone:
  "run_system tasks (replicate n (Task k)) (stages, w) =
     (let s = task_steps n (fst (tasks k)) (snd (tasks k)) (stages k, w) in (stages(k := fst s), snd s))"
  by (induction n arbitrary: stages w) (simp_all add: case_prod_unfold Let_def)

lemma exception_handlers_eq:
  "exception_handlers env h rq st w = (case h rq st w of (res, st', w') \<Rightarrow> (handle_exception env st' res, st', w'))"
proof -
  obtain res st' w' where h: "h rq st w = (res, st', w')" using prod_cases3 by blast
  show ?thesis
  proof (cases res)
    case (Inl e)
    then show ?thesis by (cases e) (simp_all add: h exception_handlers_def handle_exception_def)
  qed (simp add: h exception_handlers_def handle_exception_def)
qed

lemma proxy_steps:
  assumes "route_of (rq_method rq) (rq_path rq) = Full (Proxy_Route path)"
    and "proxy env path rq st w = (res, st', w')"
  shows "\<exists>n\<le>3. task_steps n env rq (Called st, w) = (leave_route env st' res, w')"
proof -
  have s: "st' = st" using assms(2) proxy_fields(1) [of env path rq st w] by simp
  obtain adm b where adm: "cb_admit (ev_admit_at env) (w_breaker w) = (adm, b)" by fastforce
  show ?thesis
  proof (cases adm)
    case False
    then show ?thesis
      using assms adm s by (intro exI [of _ 2]) (simp add: numeral_2_eq_2 proxy_rejected)
  next
    case True
    define call where "call = upstream_call (ev_settings env) path rq"
    have "cb_admit (ev_admit_at env) (w_breaker w) = (True, b)" using adm True by simp
    note pa = proxy_admitted [OF this call_def, of st] and adm = this
    let ?sent = "w\<lparr>w_breaker := b, w_outbox := w_outbox w @ [call]\<rparr>"
    have first: "task_step env rq (Called st) w = (Sent st path, ?sent)"
      using assms(1) adm by (simp add: do_upstream_request_def call_def)
    have swap: "w\<lparr>w_outbox := x, w_breaker := y\<rparr> = w\<lparr>w_breaker := y, w_outbox := x\<rparr>" for x y by simp
    consider (ok) ur where "ev_upstream env call = Returns ur" | (timeout) "ev_upstream env call = Raises TimeoutException"
      | (failed) m where "ev_upstream env call = Raises (RequestError m)"
      | (other) m where "ev_upstream env call = Raises (OtherException m)"
      | (cancelled) "ev_upstream env call = Cancelled"
      by (metis func_end.exhaust http_exc.exhaust)
    then show ?thesis
    proof cases
      case (ok ur)
      then have "res = Inr (proxied_response ur)"
        "w' = record_result env (\<not> 500 \<le> ur_status ur) (?sent\<lparr>w_breaker := cb_success b\<rparr>)"
        using assms(2) by (simp_all add: pa Let_def swap)
      moreover have "task_step env rq (Sent st path) ?sent =
          (Recording st (\<not> 500 \<le> ur_status ur) (Inr (proxied_response ur)), ?sent\<lparr>w_breaker := cb_success b\<rparr>)"
        using ok by (simp add: call_def)
      ultimately show ?thesis using first s by (intro exI [of _ 3]) (simp add: numeral_3_eq_3)
    next
      case timeout
      then have "res = Inl (Gateway_Exn (new_error UpstreamTimeout ''Upstream backend timed out.'' None))"
        "w' = record_result env False (?sent\<lparr>w_breaker := cb_failure (ev_end_at env) b\<rparr>)"
        using assms(2) by (simp_all add: pa Let_def swap)
      moreover have "task_step env rq (Sent st path) ?sent =
          (Recording st False (Inl (Gateway_Exn (new_error UpstreamTimeout ''Upstream backend timed out.'' None))),
           ?sent\<lparr>w_breaker := cb_failure (ev_end_at env) b\<rparr>)"
        using timeout by (simp add: call_def)
      ultimately show ?thesis using first s by (intro exI [of _ 3]) (simp add: numeral_3_eq_3)
    next
      case (failed m)
      then have "res = Inl (Gateway_Exn (new_error UpstreamError (''Upstream backend error: '' @ m) None))"
        "w' = record_result env False (?sent\<lparr>w_breaker := cb_failure (ev_end_at env) b\<rparr>)"
        using assms(2) by (simp_all add: pa Let_def swap)
      moreover have "task_step env rq (Sent st path) ?sent =
          (Recording st False (Inl (Gateway_Exn (new_error UpstreamError (''Upstream backend error: '' @ m) None))),
           ?sent\<lparr>w_breaker := cb_failure (ev_end_at env) b\<rparr>)"
        using failed by (simp add: call_def)
      ultimately show ?thesis using first s by (intro exI [of _ 3]) (simp add: numeral_3_eq_3)
    next
      case (other m)
      then have "res = Inl (Http_Exn m)" "w' = ?sent\<lparr>w_breaker := cb_failure (ev_end_at env) b\<rparr>"
        using assms(2) by (simp_all add: pa Let_def swap)
      then show ?thesis using first s other by (intro exI [of _ 2]) (simp add: numeral_2_eq_2 call_def)
    next
      case cancelled
      then have "res = Inl CancelledError" "w' = ?sent" using assms(2) by (simp_all add: pa Let_def swap)
      then show ?thesis using first s cancelled by (intro exI [of _ 2]) (simp add: numeral_2_eq_2 call_def)
    qed
  qed
qed

lemma called_steps:
  assumes "routes env rq st w = (out, st', w')"
  shows "\<exists>n\<le>3. task_steps n env rq (Called st, w) = (Leaving st' (limit_headers st' out), w')"
proof -
  obtain res st1 w1 where r: "router env rq st w = (res, st1, w1)" using prod_cases3 by blast
  then have same: "st1 = st'" "w1 = w'" and out: "out = handle_exception env st' res"
    using assms by (auto simp: routes_def exception_handlers_eq)
  show ?thesis
  proof (cases "\<exists>path. route_of (rq_method rq) (rq_path rq) = Full (Proxy_Route path)")
    case False
    then have "task_step env rq (Called st) w = (leave_route env st' res, w')"
      using r same by (auto split: match.split endpoint.split)
    then show ?thesis by (intro exI [of _ 1]) (simp add: leave_route_def out)
  next
    case True
    then obtain path where path: "route_of (rq_method rq) (rq_path rq) = Full (Proxy_Route path)" by blast
    then have "proxy env path rq st w = (res, st', w')" using r same by (simp add: router_def run_endpoint_def)
    from proxy_steps [OF path this] show ?thesis by (simp only: leave_route_def out)
  qed
qed

lemma inner_steps:
  assumes "inner env rq (start_state env rq) w = (out, st, w')"
  shows "\<exists>n\<le>6. task_steps n env rq (Arrived, w) = (Leaving st out, w')"
proof (cases rule: inner_cases [of rq env "start_state env rq" w])
  case public
  then have r: "routes env rq (start_state env rq) w = (out, st, w')" using assms by simp
  have "st = start_state env rq" using router_state [of env rq "start_state env rq" w] r by simp
  then have "limit_headers st out = out"
    by (simp add: limit_headers_def start_state_def fresh_state_def split: sum.split)
  moreover obtain n where n: "n \<le> 3" "task_steps n env rq (Called (start_state env rq), w) =
      (Leaving st (limit_headers st out), w')" using called_steps [OF r] by blast
  ultimately show ?thesis using public(1) by (intro exI [of _ "Suc n"]) (simp add: Let_def)
next
  case (refused exc)
  then show ?thesis using assms by (intro exI [of _ 1]) (simp add: Let_def)
next
  case (no_db c)
  obtain u t where "cl_sub c = Some u" "cl_tier c = Some t" using authenticate_Inr [OF no_db(3)] by blast
  then show ?thesis using assms no_db by (intro exI [of _ 2]) (simp add: numeral_2_eq_2 Let_def)
next
  case (limited c u t result r)
  then show ?thesis using assms
    by (intro exI [of _ 3])
      (simp add: numeral_3_eq_3 Let_def verdict_def check_rate_limit_def limited_response_def)
next
  case (allowed c u t result r)
  let ?st = "(start_state env rq)\<lparr>st_user_id := Some u, st_tier := Some t, st_rate_limit_info := Some result\<rparr>"
  let ?w = "w\<lparr>w_redis := r, w_allowed := inc_counter t (w_allowed w)\<rparr>"
  obtain out1 st1 w1 where r: "routes env rq ?st ?w = (out1, st1, w1)" using prod_cases3 by blast
  have st1: "st1 = ?st" using router_state [of env rq ?st ?w] r by simp
  have "(out, st, w') = on_response (add_limit_headers result) (out1, st1, w1)"
    using allowed(8) unfolding assms r .
  moreover have "st_rate_limit_info st1 = Some result" unfolding st1 by simp
  ultimately have "out = limit_headers st1 out1" "st = st1" "w' = w1"
    by (cases out1; simp add: limit_headers_def)+
  moreover obtain n where n: "n \<le> 3" "task_steps n env rq (Called ?st, ?w) = (Leaving st1 (limit_headers st1 out1), w1)"
    using called_steps [OF r] by blast
  ultimately show ?thesis using allowed(1-7)
    by (intro exI [of _ "Suc (Suc (Suc n))"])
      (simp add: Let_def verdict_def check_rate_limit_def)
qed

text \<open>C3. Interleaving changes nothing for a request that is alone: its stages, run one after the other,
  are the request of theory App, the same reply and the same effect on the world, and it has its
  reply after seven steps.\<close>

theorem uninterrupted_request_is_app:
  assumes "plain_request (fst (tasks k)) trusted_host cors (snd (tasks k))" "stages k = Arrived"
  shows "\<exists>res st. app (fst (tasks k)) trusted_host cors (snd (tasks k)) w =
        (res, st, snd (run_system tasks (replicate 7 (Task k)) (stages, w)))
    \<and> fst (run_system tasks (replicate 7 (Task k)) (stages, w)) = stages(k := Replied st res)"
proof -
  define env rq where "env = fst (tasks k)" and "rq = snd (tasks k)"
  obtain out st w1 where i: "inner env rq (start_state env rq) w = (out, st, w1)" using prod_cases3 by blast
  then obtain n where n: "n \<le> 6" "task_steps n env rq (Arrived, w) = (Leaving st out, w1)"
    using inner_steps by blast
  obtain res w2 where l: "leave_stack env rq st out w1 = (Replied st res, w2)"
    by (cases out) (simp_all add: leave_stack_def)
  have "app env trusted_host cors rq w = (res, st, w2)"
    using l app_inner [OF assms(1) [folded env_def rq_def] i] by (cases out) (auto simp: leave_stack_def)
  moreover have "task_steps 7 env rq (Arrived, w) = (Replied st res, w2)"
  proof -
    have "7 = n + Suc (6 - n)" using n(1) by simp
    then have "task_steps 7 env rq (Arrived, w) = task_steps (Suc (6 - n)) env rq (Leaving st out, w1)"
      using n(2) task_steps_add [of n "Suc (6 - n)" env rq] by simp
    then show ?thesis by (simp add: l replied_stays)
  qed
  ultimately show ?thesis by (simp add: run_alone assms(2) env_def rq_def Let_def)
qed

section \<open>Every request is answered\<close>

fun stages_left :: "stage \<Rightarrow> nat" where
  "stages_left Arrived = 7"
| "stages_left (Factor_Read st user_id tier f) = 6"
| "stages_left (Limit_Read st user_id tier limit) = 5"
| "stages_left (Called st) = 4"
| "stages_left (Sent st path) = 3"
| "stages_left (Recording st success res) = 2"
| "stages_left (Leaving st res) = 1"
| "stages_left (Replied st res) = 0"

lemma stages_left_0: "stages_left stage = 0 \<longleftrightarrow> (\<exists>st res. stage = Replied st res)"
  by (cases stage) simp_all

lemma stages_left_leave_route [simp]: "stages_left (leave_route env st res) = 1"
  by (simp add: leave_route_def)

lemma task_step_progress: "stages_left (fst (task_step env rq stage w)) \<le> stages_left stage - 1"
proof (cases stage)
  case Arrived
  then show ?thesis by (simp add: Let_def split: sum.split option.split)
next
  case (Limit_Read st u t limit)
  then show ?thesis by (simp add: Let_def split: prod.split sum.split)
next
  case (Called st)
  then show ?thesis by (auto simp: do_upstream_request_def split: match.split endpoint.split prod.split bool.split)
next
  case (Sent st path)
  then show ?thesis by (simp add: Let_def split: func_end.split http_exc.split)
next
  case (Leaving st res)
  then show ?thesis by (simp add: leave_stack_def split: sum.split)
qed simp_all

lemma sys_step_fst:
  "fst (sys_step tasks (Task k) s) = (fst s)(k := fst (task_step (fst (tasks k)) (snd (tasks k)) (fst s k) (snd s)))"
  "snd (sys_step tasks (Task k) s) = snd (task_step (fst (tasks k)) (snd (tasks k)) (fst s k) (snd s))"
  "fst (sys_step tasks (Log_Write i up row t) s) = fst s"
  by (cases s; simp add: case_prod_unfold Let_def)+

lemma sys_step_progress:
  "stages_left (fst (sys_step tasks e s) k) \<le> stages_left (fst s k) - count_list [e] (Task k)"
  using task_step_progress by (cases e) (auto simp: sys_step_fst)

text \<open>Every request is answered: after seven steps of its own, whatever other requests and background
  writes run in between, it has its reply. Nothing another request does can hold it up.\<close>

lemma every_request_replied:
  assumes "7 \<le> count_list es (Task k)"
  shows "\<exists>st res. fst (run_system tasks es s) k = Replied st res"
proof -
  have "stages_left (fst (run_system tasks es s) k) \<le> stages_left (fst s k) - count_list es (Task k)"
  proof (induction es arbitrary: s)
    case (Cons e es)
    from Cons [of "sys_step tasks e s"] sys_step_progress [of tasks e s k]
    show ?case by (auto split: if_splits)
  qed simp
  moreover have "stages_left (fst s k) \<le> 7" by (cases "fst s k") simp_all
  ultimately have "stages_left (fst (run_system tasks es s) k) = 0" using assms by linarith
  then show ?thesis by (simp add: stages_left_0)
qed

section \<open>What holds of every stage\<close>

text \<open>What a stage has read: its token's user, a factor, a limit that the script can take.\<close>

fun stage_ok :: "int \<Rightarrow> 'r env \<Rightarrow> request \<Rightarrow> stage \<Rightarrow> bool" where
  "stage_ok lmax env rq (Factor_Read st user_id tier f) \<longleftrightarrow> token_user env rq = Some user_id \<and> (f = 1 \<or> f = 1 / 2)"
| "stage_ok lmax env rq (Limit_Read st user_id tier limit) \<longleftrightarrow>
     token_user env rq = Some user_id \<and> script_valid lmax (user_key user_id, limit, 60, ev_epoch env)"
| "stage_ok lmax env rq stage \<longleftrightarrow> True"

lemma stage_ok_leave_route [simp]: "stage_ok lmax env rq (leave_route env' st res)"
  by (simp add: leave_route_def)

lemma final_routes: "final (routes env rq st w) = final (router env rq st w)"
  by (simp add: routes_def)

lemma router_quotas: "router env rq st w = (res, st', w') \<Longrightarrow> quotas_ok (w_db w) \<Longrightarrow> quotas_ok (w_db w')"
  using routes_effect [of env rq w st] by (simp add: final_routes core_def)

lemma task_step_ok:
  assumes "task_ok R lmax env" "10 ^ 6 \<le> lmax" "lmax \<le> 10 ^ 14"
    and "stage_ok lmax env rq stage" "quotas_ok (w_db w)"
  shows "stage_ok lmax env rq (fst (task_step env rq stage w))
    \<and> quotas_ok (w_db (snd (task_step env rq stage w)))"
proof (cases stage)
  case Arrived
  show ?thesis
  proof (cases "is_public AUTH_PUBLIC_PATH_PREFIXES (rq_path rq)")
    case False
    then show ?thesis
      using assms(5) health_factor_values [of "ev_redis env" "ev_factor_dlv env" "ev_factor_at env" "w_redis w"]
      by (auto simp: Arrived Let_def token_user_def split: sum.split option.split)
  qed (use assms(5) in \<open>simp add: Arrived Let_def\<close>)
next
  case (Factor_Read st u t f)
  then show ?thesis
    using assms(4,5) read_limit_valid [OF assms(1,5) _ assms(2,3), of f] by (simp del: script_valid.simps)
next
  case (Limit_Read st u t limit)
  then show ?thesis using assms(5) by (simp add: Let_def split: prod.split sum.split)
next
  case (Called st)
  obtain res st' w' where r: "router env rq st w = (res, st', w')" using prod_cases3 by blast
  then show ?thesis
    using assms(5) router_quotas [OF r]
    by (auto simp: Called do_upstream_request_def split: match.split endpoint.split prod.split bool.split)
next
  case (Sent st path)
  then show ?thesis using assms(5) by (simp add: Let_def split: func_end.split http_exc.split)
next
  case (Leaving st res)
  then show ?thesis using assms(5) by (simp add: leave_stack_def schedule_log_def split: sum.split)
qed (use assms(5) in simp_all)

definition system_ok :: "int \<Rightarrow> 'r tasks \<Rightarrow> 'r system \<Rightarrow> bool" where
  "system_ok lmax tasks s \<longleftrightarrow>
     (\<forall>k. stage_ok lmax (fst (tasks k)) (snd (tasks k)) (fst s k)) \<and> quotas_ok (w_db (snd s))"

lemma system_step_ok:
  assumes "\<forall>k. task_ok R lmax (fst (tasks k))" "10 ^ 6 \<le> lmax" "lmax \<le> 10 ^ 14" "system_ok lmax tasks s"
  shows "system_ok lmax tasks (sys_step tasks e s)"
proof (cases e)
  case (Task k)
  have "task_ok R lmax (fst (tasks k))" using assms(1) by blast
  from task_step_ok [OF this assms(2,3), of "snd (tasks k)" "fst s k" "snd s"] show ?thesis
    using assms(4) by (simp add: Task sys_step_fst system_ok_def)
next
  case (Log_Write i up row t)
  then show ?thesis
    using assms(4) by (cases s) (simp add: system_ok_def quotas_ok_def)
qed

section \<open>The quota, under interleaving\<close>

text \<open>The limiter calls of a run, in the order they reach Redis, and the upstream requests made with a
  user's token.\<close>

fun stage_calls :: "'r env \<Rightarrow> stage \<Rightarrow> (string \<times> int \<times> int \<times> int) list" where
  "stage_calls env (Limit_Read st user_id tier limit) = [(user_key user_id, limit, 60, ev_epoch env)]"
| "stage_calls env stage = []"

fun event_calls :: "'r tasks \<Rightarrow> sys_event \<Rightarrow> 'r system \<Rightarrow> (string \<times> int \<times> int \<times> int) list" where
  "event_calls tasks (Task k) s = stage_calls (fst (tasks k)) (fst s k)"
| "event_calls tasks (Log_Write i up row t) s = []"

definition system_calls :: "'r tasks \<Rightarrow> sys_event list \<Rightarrow> 'r system \<Rightarrow> (string \<times> int \<times> int \<times> int) list" where
  "system_calls tasks = trace_calls (sys_step tasks) (event_calls tasks)"

definition of_user :: "string \<Rightarrow> 'r tasks \<Rightarrow> nat \<Rightarrow> bool" where
  "of_user user tasks k \<longleftrightarrow> token_user (fst (tasks k)) (snd (tasks k)) = Some user"

fun event_sends :: "string \<Rightarrow> 'r tasks \<Rightarrow> sys_event \<Rightarrow> 'r system \<Rightarrow> nat" where
  "event_sends user tasks (Task k) s =
     (if of_user user tasks k
      then length (w_outbox (snd (sys_step tasks (Task k) s))) - length (w_outbox (snd s)) else 0)"
| "event_sends user tasks (Log_Write i up row t) s = 0"

definition system_sends :: "string \<Rightarrow> 'r tasks \<Rightarrow> sys_event list \<Rightarrow> 'r system \<Rightarrow> nat" where
  "system_sends user tasks = trace_sum (sys_step tasks) (event_sends user tasks)"

fun is_called :: "stage \<Rightarrow> bool" where
  "is_called (Called st) = True"
| "is_called stage = False"

fun is_sent :: "stage \<Rightarrow> bool" where
  "is_sent (Sent st path) = True"
| "is_sent stage = False"

lemma leave_route_kinds [simp]: "\<not> is_called (leave_route env st res)" "\<not> is_sent (leave_route env st res)"
  by (simp_all add: leave_route_def)

text \<open>How many tasks are at a kind of stage, when one of them moves.\<close>

lemma card_fun_upd:
  assumes "finite {j. P j (f j)}"
  shows "finite {j. P j ((f(k := x)) j)}"
    and "card {j. P j ((f(k := x)) j)} + of_bool (P k (f k)) = card {j. P j (f j)} + of_bool (P k x)"
proof -
  let ?B = "{j. j \<noteq> k \<and> P j (f j)}"
  have fin: "finite ?B" using assms by (rule rev_finite_subset) auto
  have split: "{j. P j ((f(k := y)) j)} = (if P k y then insert k ?B else ?B)" for y by auto
  have now: "{j. P j (f j)} = (if P k (f k) then insert k ?B else ?B)" using split [of "f k"] by simp
  show "finite {j. P j ((f(k := x)) j)}" unfolding split using fin by simp
  show "card {j. P j ((f(k := x)) j)} + of_bool (P k (f k)) = card {j. P j (f j)} + of_bool (P k x)"
    unfolding split now using fin by simp
qed

lemma of_bool_le_card: "finite A \<Longrightarrow> of_bool (k \<in> A) \<le> card A"
  by (cases "k \<in> A") (auto simp: Suc_le_eq card_gt_0_iff)

lemma router_hash_eq:
  assumes "hash_laws (ev_redis env)" "separate_laws (ev_redis env)" "router env rq st w = (res, st', w')"
  shows "hash_eq (ev_redis env) (w_redis w) (w_redis w')"
  using routes_hash_eq [OF assms(1,2), of w rq st] assms(3) by (simp add: final_routes)

text \<open>A step that is no limiter call leaves the buckets alone.\<close>

lemma quiet_step:
  assumes "hash_laws (ev_redis env)" "separate_laws (ev_redis env)" "stage_calls env stage = []"
  shows "hash_eq (ev_redis env) (w_redis w) (w_redis (snd (task_step env rq stage w)))"
proof (cases stage)
  case Arrived
  then show ?thesis by (simp add: Let_def split: sum.split option.split)
next
  case (Limit_Read st u t limit)
  then show ?thesis using assms(3) by simp
next
  case (Called st)
  obtain res st' w' where r: "router env rq st w = (res, st', w')" using prod_cases3 by blast
  then show ?thesis
    using router_hash_eq [OF assms(1,2) r]
    by (auto simp: Called do_upstream_request_def split: match.split endpoint.split prod.split bool.split)
next
  case (Sent st path)
  then show ?thesis by (simp add: Let_def split: func_end.split http_exc.split)
next
  case (Recording st success res)
  then show ?thesis by (simp add: record_result_def record_hash_eq [OF assms(1,2)])
next
  case (Leaving st res)
  then show ?thesis by (simp add: leave_stack_def schedule_log_def split: sum.split)
qed simp_all

text \<open>A request leaves only from the router, at most one at a time; and a request with a user comes to
  the router only by a grant.\<close>

lemma step_sends:
  "length (w_outbox (snd (task_step env rq stage w))) \<le> length (w_outbox w) + of_bool (is_called stage)"
  "is_called stage \<Longrightarrow> \<not> is_called (fst (task_step env rq stage w))"
proof -
  have "length (w_outbox (snd (task_step env rq stage w))) \<le> length (w_outbox w) + of_bool (is_called stage)
    \<and> (is_called stage \<longrightarrow> \<not> is_called (fst (task_step env rq stage w)))"
  proof (cases stage)
    case Arrived
    then show ?thesis by (simp add: Let_def split: sum.split option.split)
  next
    case (Limit_Read st u t limit)
    then show ?thesis by (simp add: Let_def split: prod.split sum.split)
  next
    case (Called st)
    obtain res st' w' where r: "router env rq st w = (res, st', w')" using prod_cases3 by blast
    then have "length (w_outbox w') \<le> length (w_outbox w) + 1"
      using routes_effect [of env rq w st] by (auto simp: final_routes core_def)
    then show ?thesis
      using r by (auto simp: Called do_upstream_request_def split: match.split endpoint.split prod.split bool.split)
  next
    case (Sent st path)
    then show ?thesis by (simp add: Let_def split: func_end.split http_exc.split)
  next
    case (Recording st success res)
    then show ?thesis by simp
  next
    case (Leaving st res)
    then show ?thesis by (simp add: leave_stack_def schedule_log_def split: sum.split)
  qed simp_all
  then show "length (w_outbox (snd (task_step env rq stage w))) \<le> length (w_outbox w) + of_bool (is_called stage)"
    "is_called stage \<Longrightarrow> \<not> is_called (fst (task_step env rq stage w))" by blast+
qed

lemma limiter_step:
  assumes laws: "hash_laws R" and ok: "task_ok R lmax env" "stage_ok lmax env rq stage"
    and eq: "hash_eq R r (w_redis w)" and stage: "stage = Limit_Read st u t limit"
  shows "hash_eq R (snd (run_calls (script_call R (user_key user)) (stage_calls env stage) r))
      (w_redis (snd (task_step env rq stage w)))"
    and "of_bool (u = user \<and> is_called (fst (task_step env rq stage w))) \<le>
      allowed_count (fst (run_calls (script_call R (user_key user)) (stage_calls env stage) r))"
proof -
  have env: "ev_redis env = R" "ev_check_dlv env = Delivered" using ok(1) by (simp_all add: task_ok_def)
  have "limit_ok limit" using ok(2) by (simp add: stage)
  note cong = redis_check_cong [OF laws eq this window_60, of "ev_epoch env" "user_key u"]
  obtain result r' where c: "redis_check R Delivered (ev_epoch env) (user_key u) limit 60 (w_redis w) = (Inr result, r')"
    using redis_check_limit(2) by (metis prod.collapse)
  obtain x where x: "redis_check R Delivered (ev_epoch env) (user_key u) limit 60 r = (Inr result, x)" "hash_eq R x r'"
    using cong c by (cases "redis_check R Delivered (ev_epoch env) (user_key u) limit 60 r") auto
  show "hash_eq R (snd (run_calls (script_call R (user_key user)) (stage_calls env stage) r))
      (w_redis (snd (task_step env rq stage w)))"
    "of_bool (u = user \<and> is_called (fst (task_step env rq stage w))) \<le>
      allowed_count (fst (run_calls (script_call R (user_key user)) (stage_calls env stage) r))"
    using x c by (simp_all add: stage env Let_def)
qed

lemma quiet_called:
  assumes "stage_calls env stage = []" "is_called (fst (task_step env rq stage w))"
  shows "token_user env rq = None"
  using assms
proof (cases stage)
  case Arrived
  then show ?thesis using assms(2)
    by (auto simp: Let_def token_user_def split: if_splits sum.splits option.splits)
next
  case (Called st)
  then show ?thesis using step_sends(2) [of stage env rq w] assms(2) by simp
next
  case (Sent st path)
  then show ?thesis using assms(2) by (auto simp: Let_def split: func_end.splits http_exc.splits)
next
  case (Leaving st res)
  then show ?thesis using assms(2) by (auto simp: leave_stack_def split: sum.splits)
qed (auto split: if_splits)

text \<open>One step of one task: what it sends, and the grant it then holds, are paid by the grant it held
  and the script's answer.\<close>

lemma task_step_grants:
  assumes R: "hash_laws R" "separate_laws R"
    and ok: "task_ok R lmax env" "stage_ok lmax env rq stage" and eq: "hash_eq R r (w_redis w)"
  shows "hash_eq R (snd (run_calls (script_call R (user_key user)) (stage_calls env stage) r))
      (w_redis (snd (task_step env rq stage w)))"
    and "token_user env rq = Some user \<Longrightarrow>
      length (w_outbox (snd (task_step env rq stage w))) - length (w_outbox w)
        + of_bool (is_called (fst (task_step env rq stage w)))
      \<le> of_bool (is_called stage)
        + allowed_count (fst (run_calls (script_call R (user_key user)) (stage_calls env stage) r))"
proof -
  have env: "ev_redis env = R" using ok(1) by (simp add: task_ok_def)
  let ?goal = "hash_eq R (snd (run_calls (script_call R (user_key user)) (stage_calls env stage) r))
      (w_redis (snd (task_step env rq stage w)))
    \<and> (token_user env rq = Some user \<longrightarrow>
      length (w_outbox (snd (task_step env rq stage w))) - length (w_outbox w)
        + of_bool (is_called (fst (task_step env rq stage w)))
      \<le> of_bool (is_called stage)
        + allowed_count (fst (run_calls (script_call R (user_key user)) (stage_calls env stage) r)))"
  note sends = step_sends [where env = env and rq = rq and stage = stage and w = w]
  have ?goal
  proof (cases "stage_calls env stage = []")
    case True
    have "hash_eq R r (w_redis (snd (task_step env rq stage w)))"
      using hash_eq_trans [OF eq] quiet_step [of env stage w rq] R True by (simp add: env)
    moreover have "token_user env rq = Some user \<Longrightarrow> \<not> is_called (fst (task_step env rq stage w))"
      using quiet_called [OF True, of rq w] by auto
    ultimately show ?thesis using sends True by auto
  next
    case False
    then obtain st u t limit where stage: "stage = Limit_Read st u t limit" by (cases stage) simp_all
    have "token_user env rq = Some u" using ok(2) by (simp add: stage)
    then show ?thesis
      using limiter_step [OF R(1) ok eq stage, of user] sends(1) by (auto simp: stage)
  qed
  then show "hash_eq R (snd (run_calls (script_call R (user_key user)) (stage_calls env stage) r))
      (w_redis (snd (task_step env rq stage w)))"
    "token_user env rq = Some user \<Longrightarrow>
      length (w_outbox (snd (task_step env rq stage w))) - length (w_outbox w)
        + of_bool (is_called (fst (task_step env rq stage w)))
      \<le> of_bool (is_called stage)
        + allowed_count (fst (run_calls (script_call R (user_key user)) (stage_calls env stage) r))"
    by blast+
qed

text \<open>The same for a step of the system, with the grants held by all tasks of a user.\<close>

definition granted :: "string \<Rightarrow> 'r tasks \<Rightarrow> (nat \<Rightarrow> stage) \<Rightarrow> nat set" where
  "granted user tasks stages = {k. of_user user tasks k \<and> is_called (stages k)}"

lemma stage_calls_valid:
  "stage_ok lmax env rq stage \<Longrightarrow> c \<in> set (stage_calls env stage) \<Longrightarrow> script_valid lmax c \<and> fst (snd (snd c)) = 60"
  by (cases stage) (simp_all del: script_valid.simps)

lemma event_calls_valid:
  assumes "system_ok lmax tasks s" "c \<in> set (event_calls tasks e s)"
  shows "script_valid lmax c \<and> fst (snd (snd c)) = 60"
proof -
  obtain k where "c \<in> set (stage_calls (fst (tasks k)) (fst s k))" using assms(2) by (cases e) simp_all
  moreover have "stage_ok lmax (fst (tasks k)) (snd (tasks k)) (fst s k)" using assms(1) by (simp add: system_ok_def)
  ultimately show ?thesis using stage_calls_valid by blast
qed

lemma system_step_grants:
  assumes R: "hash_laws R" "separate_laws R"
    and ok: "\<forall>k. task_ok R lmax (fst (tasks k))" "system_ok lmax tasks s"
    and eq: "hash_eq R r (w_redis (snd s))" and fin: "finite (granted user tasks (fst s))"
  shows "hash_eq R (snd (run_calls (script_call R (user_key user)) (event_calls tasks e s) r))
      (w_redis (snd (sys_step tasks e s)))"
    and "finite (granted user tasks (fst (sys_step tasks e s)))"
    and "event_sends user tasks e s + card (granted user tasks (fst (sys_step tasks e s)))
      \<le> card (granted user tasks (fst s))
        + allowed_count (fst (run_calls (script_call R (user_key user)) (event_calls tasks e s) r))"
proof -
  have "hash_eq R (snd (run_calls (script_call R (user_key user)) (event_calls tasks e s) r))
      (w_redis (snd (sys_step tasks e s)))
    \<and> finite (granted user tasks (fst (sys_step tasks e s)))
    \<and> event_sends user tasks e s + card (granted user tasks (fst (sys_step tasks e s)))
      \<le> card (granted user tasks (fst s))
        + allowed_count (fst (run_calls (script_call R (user_key user)) (event_calls tasks e s) r))"
  proof (cases e)
    case (Log_Write i up row t)
    then show ?thesis using eq fin by (cases s) simp
  next
    case (Task k)
    let ?env = "fst (tasks k)" and ?rq = "snd (tasks k)"
    let ?stage = "fst (task_step ?env ?rq (fst s k) (snd s))"
    have task: "task_ok R lmax ?env" "stage_ok lmax ?env ?rq (fst s k)"
      using ok by (simp_all add: system_ok_def)
    note one = task_step_grants [OF R task eq, of user]
    have world: "snd (sys_step tasks e s) = snd (task_step ?env ?rq (fst s k) (snd s))"
      and stages: "fst (sys_step tasks e s) = (fst s)(k := ?stage)"
      and calls: "event_calls tasks e s = stage_calls ?env (fst s k)"
      by (simp_all add: Task sys_step_fst)
    have sends: "event_sends user tasks e s = (if of_user user tasks k
        then length (w_outbox (snd (task_step ?env ?rq (fst s k) (snd s)))) - length (w_outbox (snd s)) else 0)"
      by (simp add: Task sys_step_fst)
    note upd = card_fun_upd [of "\<lambda>j x. of_user user tasks j \<and> is_called x", OF fin [unfolded granted_def],
      folded granted_def]
    show ?thesis
      unfolding world stages calls sends
      using one upd [of k ?stage] by (cases "of_user user tasks k") (simp_all add: of_user_def del: fun_upd_apply)
  qed
  then show "hash_eq R (snd (run_calls (script_call R (user_key user)) (event_calls tasks e s) r))
      (w_redis (snd (sys_step tasks e s)))"
    "finite (granted user tasks (fst (sys_step tasks e s)))"
    "event_sends user tasks e s + card (granted user tasks (fst (sys_step tasks e s)))
      \<le> card (granted user tasks (fst s))
        + allowed_count (fst (run_calls (script_call R (user_key user)) (event_calls tasks e s) r))"
    by blast+
qed

text \<open>The interleaved requests are paid traffic, in which a granted request holds its grant until it is
  at the router.\<close>

definition quota_inv :: "'r redis_api \<Rightarrow> int \<Rightarrow> string \<Rightarrow> 'r tasks \<Rightarrow> 'r system \<Rightarrow> bool" where
  "quota_inv R lmax user tasks s \<longleftrightarrow> limits_ok R lmax \<and> (\<forall>k. task_ok R lmax (fst (tasks k)))
   \<and> system_ok lmax tasks s \<and> finite (granted user tasks (fst s))"

interpretation interleaved: paid_traffic R lmax "user_key user" "sys_step tasks" "event_calls tasks"
    "event_sends user tasks" "\<lambda>s. card (granted user tasks (fst s))" "\<lambda>s. w_redis (snd s)"
    "quota_inv R lmax user tasks" "\<lambda>e. True"
  for R lmax user tasks
proof
  fix s r e c
  assume inv: "quota_inv R lmax user tasks s"
  then have R: "hash_laws R" "separate_laws R" and l: "10 ^ 6 \<le> lmax" "lmax \<le> 10 ^ 14"
    and tasks: "\<forall>k. task_ok R lmax (fst (tasks k))" and ok: "system_ok lmax tasks s"
    and fin: "finite (granted user tasks (fst s))" by (simp_all add: quota_inv_def limits_ok_def)
  note one = system_step_grants [OF R tasks ok _ fin, of _ e]
  show "hash_laws R \<and> 1 \<le> lmax" using R l by simp
  show "quota_inv R lmax user tasks (sys_step tasks e s)"
    using inv one(2) [OF hash_eq_refl] system_step_ok [OF tasks l ok, of e] by (simp add: quota_inv_def)
  show "script_valid lmax c \<and> fst (snd (snd c)) = 60" if "c \<in> set (event_calls tasks e s)"
    using event_calls_valid [OF ok that] .
  assume eq: "hash_eq R r (w_redis (snd s))"
  show "hash_eq R (after_calls R (user_key user) (event_calls tasks e s) r) (w_redis (snd (sys_step tasks e s)))"
    using one(1) [OF eq] by (simp add: after_calls_def)
  show "event_sends user tasks e s + card (granted user tasks (fst (sys_step tasks e s)))
      \<le> card (granted user tasks (fst s)) + paid_by R (user_key user) (event_calls tasks e s) r"
    using one(3) [OF eq] by (simp add: paid_by_def)
qed

text \<open>The quota holds under concurrency: let any number of requests be in flight in one process, each
  interrupted wherever it awaits Redis, the database or the upstream, in any order, with admin
  changes, outages of the database and background writes in between, so that a limit may be
  stale when it is applied and requests granted together leave together. The upstream requests
  made with a user's token on paths that are not public still number at most \<open>lmax\<close> plus the
  refill for the time the limiter's clock moved forward over the user's limiter calls, in the
  order they reached Redis, plus rounding.\<close>

lemma interleaved_quota:
  assumes "hash_laws R" "separate_laws R" "10 ^ 6 \<le> lmax" "lmax \<le> 10 ^ 14"
    and "\<forall>k. task_ok R lmax (fst (tasks k))"
    and "quotas_ok (w_db w)" "hget R (w_redis w) (user_key user) ''tokens'' = None"
  shows "of_nat (system_sends user tasks es (\<lambda>k. Arrived, w)) \<le>
    of_int lmax
      + of_int (clock_span (user_clocks (user_key user) (system_calls tasks es (\<lambda>k. Arrived, w)))) * refill_rate lmax 60
      + of_nat (length (user_clocks (user_key user) (system_calls tasks es (\<lambda>k. Arrived, w))))
          * (6 / 10 ^ 14 * of_int lmax)"
proof -
  have "quota_inv R lmax user tasks (\<lambda>k. Arrived, w)" "granted user tasks (\<lambda>k. Arrived) = {}"
    using assms(1-6) by (simp_all add: quota_inv_def limits_ok_def system_ok_def granted_def)
  then show ?thesis
    using interleaved.trace_quota [of R lmax user tasks "(\<lambda>k. Arrived, w)" es] assms(7)
    by (simp add: system_calls_def system_sends_def)
qed

section \<open>The breaker, under interleaving\<close>

text \<open>The breaker and the number of requests waiting for the upstream are a state of theory
  Circuit_Breaker, and every step of the system is one of its events or leaves them alone.\<close>

definition in_flight :: "(nat \<Rightarrow> stage) \<Rightarrow> nat set" where
  "in_flight stages = {k. is_sent (stages k)}"

definition breaker_view :: "'r system \<Rightarrow> cb_sys" where
  "breaker_view s = \<lparr>brk = w_breaker (snd s), inflight = card (in_flight (fst s))\<rparr>"

definition breaker_events :: "'r env \<Rightarrow> cb_event set" where
  "breaker_events env = {Admit (ev_admit_at env), Reject (ev_admit_at env), Fail (ev_end_at env), Succeed, Cancel}"

text \<open>A route other than the proxy changes nothing but the quota table.\<close>

lemma router_keeps:
  assumes "\<nexists>path. route_of (rq_method rq) (rq_path rq) = Full (Proxy_Route path)"
    and quotas: "\<And>w q. f (w\<lparr>w_db := (w_db w)\<lparr>db_quotas := q\<rparr>\<rparr>) = f w"
    and "router env rq st w = (res, st', w')"
  shows "f w' = f w"
proof -
  have "f (final (run_endpoint env e rq st w)) = f w" if "\<nexists>path. e = Proxy_Route path" for e
    using that
    by (cases e)
       (auto simp: run_endpoint_def with_body_def token_dependencies_def require_admin_def mint_token_def
         upsert_quota_def get_quota_def delete_quota_def list_logs_def get_stats_def upstream_health_def
         health_def ready_def metrics_def quotas Let_def split: body_in.split option.split sum.split prod.split)
  moreover have "w' = final (router env rq st w)" using assms(3) by simp
  ultimately show ?thesis using assms(1) by (auto simp: router_def split: match.split)
qed

lemma task_step_breaker:
  fixes n :: nat
  defines "v \<equiv> \<lambda>stage w. \<lparr>brk = w_breaker w, inflight = n + of_bool (is_sent stage)\<rparr>"
  assumes step: "task_step env rq stage w = (stage', w')"
  shows "v stage' w' = v stage w \<and> w_outbox w' = w_outbox w
    \<or> (\<exists>e\<in>breaker_events env. cb_step (v stage w) e (v stage' w') \<and> (is_Admit e \<or> w_outbox w' = w_outbox w))"
proof (cases stage)
  case Arrived
  then show ?thesis using step by (auto simp: v_def Let_def split: if_splits sum.splits option.splits)
next
  case (Factor_Read st u t f)
  then show ?thesis using step by (auto simp: v_def split: if_splits)
next
  case (Limit_Read st u t limit)
  then show ?thesis using step by (auto simp: v_def Let_def split: prod.splits sum.splits if_splits)
next
  case (Called st)
  show ?thesis
  proof (cases "\<exists>path. route_of (rq_method rq) (rq_path rq) = Full (Proxy_Route path)")
    case False
    obtain res st1 w1 where r: "router env rq st w = (res, st1, w1)" using prod_cases3 by blast
    then have "stage' = leave_route env st1 res" "w' = w1"
      using step False by (auto simp: Called split: match.splits endpoint.splits)
    then show ?thesis using router_keeps [OF False _ r, of w_breaker] router_keeps [OF False _ r, of w_outbox] by (simp add: v_def Called)
  next
    case True
    then obtain path where path: "route_of (rq_method rq) (rq_path rq) = Full (Proxy_Route path)" by blast
    obtain adm b where adm: "cb_admit (ev_admit_at env) (w_breaker w) = (adm, b)" by fastforce
    show ?thesis
    proof (cases adm)
      case True
      then have "cb_step (v stage w) (Admit (ev_admit_at env)) (v stage' w')"
        using step path adm by (auto simp: Called v_def do_upstream_request_def cb_step_simps)
      then show ?thesis by (auto simp: breaker_events_def)
    next
      case False
      then have "cb_step (v stage w) (Reject (ev_admit_at env)) (v stage' w')" "w_outbox w' = w_outbox w"
        using step path adm by (auto simp: Called v_def cb_step_simps)
      then show ?thesis by (auto simp: breaker_events_def)
    qed
  qed
next
  case (Sent st path)
  have failed: ?thesis if "w' = w\<lparr>w_breaker := cb_failure (ev_end_at env) (w_breaker w)\<rparr>" "\<not> is_sent stage'"
  proof -
    have "cb_step (v stage w) (Fail (ev_end_at env)) (v stage' w')"
      using that by (simp add: Sent v_def cb_step_simps)
    then show ?thesis using that(1) by (auto simp: breaker_events_def)
  qed
  show ?thesis
  proof (cases "ev_upstream env (upstream_call (ev_settings env) path rq)")
    case (Returns ur)
    then have "cb_step (v stage w) Succeed (v stage' w')" "w_outbox w' = w_outbox w"
      using step by (auto simp: Sent v_def cb_step_simps)
    then show ?thesis by (auto simp: breaker_events_def)
  next
    case (Raises e)
    then show ?thesis using failed step by (cases e) (auto simp: Sent)
  next
    case Cancelled
    then have "cb_step (v stage w) Cancel (v stage' w')" "w_outbox w' = w_outbox w"
      using step by (auto simp: Sent v_def cb_step_simps)
    then show ?thesis by (auto simp: breaker_events_def)
  qed
next
  case (Recording st success res)
  then show ?thesis using step by (auto simp: v_def)
next
  case (Leaving st res)
  then show ?thesis using step by (auto simp: v_def leave_stack_def schedule_log_def split: sum.splits)
next
  case (Replied st res)
  then show ?thesis using step by (auto simp: v_def)
qed

definition event_times :: "'r tasks \<Rightarrow> sys_event \<Rightarrow> cb_event set" where
  "event_times tasks e = (case e of Task k \<Rightarrow> breaker_events (fst (tasks k)) | Log_Write i up row t \<Rightarrow> {})"

lemma sys_step_breaker:
  assumes "finite (in_flight (fst s))"
  shows "finite (in_flight (fst (sys_step tasks e s)))"
    and "breaker_view (sys_step tasks e s) = breaker_view s \<and> w_outbox (snd (sys_step tasks e s)) = w_outbox (snd s)
    \<or> (\<exists>ev\<in>event_times tasks e. cb_step (breaker_view s) ev (breaker_view (sys_step tasks e s))
         \<and> (is_Admit ev \<or> w_outbox (snd (sys_step tasks e s)) = w_outbox (snd s)))"
proof -
  have "finite (in_flight (fst (sys_step tasks e s)))
    \<and> (breaker_view (sys_step tasks e s) = breaker_view s \<and> w_outbox (snd (sys_step tasks e s)) = w_outbox (snd s)
    \<or> (\<exists>ev\<in>event_times tasks e. cb_step (breaker_view s) ev (breaker_view (sys_step tasks e s))
         \<and> (is_Admit ev \<or> w_outbox (snd (sys_step tasks e s)) = w_outbox (snd s))))"
  proof (cases e)
    case (Log_Write i up row t)
    then show ?thesis using assms by (cases s) (simp add: breaker_view_def)
  next
    case (Task k)
    obtain stage w where t: "task_step (fst (tasks k)) (snd (tasks k)) (fst s k) (snd s) = (stage, w)" by fastforce
    have s': "sys_step tasks e s = ((fst s)(k := stage), w)" by (cases s) (use t Task in simp)
    note upd = card_fun_upd [of "\<lambda>j. is_sent", OF assms [unfolded in_flight_def], folded in_flight_def, of k]
    define n where "n = card (in_flight (fst s)) - of_bool (is_sent (fst s k))"
    have "card (in_flight (fst s)) = n + of_bool (is_sent (fst s k))"
      "card (in_flight ((fst s)(k := stage))) = n + of_bool (is_sent stage)"
      using upd(2) [of stage] of_bool_le_card [OF assms, of k]
      by (simp_all add: n_def in_flight_def del: fun_upd_apply)
    then show ?thesis
      using task_step_breaker [OF t, of n] upd(1) [of stage]
      unfolding s' by (simp add: breaker_view_def event_times_def Task del: fun_upd_apply of_bool_eq_iff)
  qed
  then show "finite (in_flight (fst (sys_step tasks e s)))"
    "breaker_view (sys_step tasks e s) = breaker_view s \<and> w_outbox (snd (sys_step tasks e s)) = w_outbox (snd s)
    \<or> (\<exists>ev\<in>event_times tasks e. cb_step (breaker_view s) ev (breaker_view (sys_step tasks e s))
         \<and> (is_Admit ev \<or> w_outbox (snd (sys_step tasks e s)) = w_outbox (snd s)))"
    by blast+
qed

text \<open>The concurrent gateway uses the breaker as theory Circuit_Breaker says a breaker is used: in any
  interleaving the breaker goes through a run of that step relation, in which exactly the
  requests waiting for the upstream are in flight. What is proved there of every run (the
  invariant, the threshold, the recovery time) holds of the gateway.\<close>

lemma gateway_runs_breaker:
  assumes "finite (in_flight stages)"
  shows "\<exists>evs. cb_run (breaker_view (stages, w)) evs (breaker_view (run_system tasks es (stages, w)))"
proof -
  have "\<exists>evs. cb_run (breaker_view s) evs (breaker_view (run_system tasks es s))" if "finite (in_flight (fst s))" for s
    using that
  proof (induction es arbitrary: s)
    case Nil
    then show ?case by (intro exI [of _ "[]"]) (simp add: cb_run_Nil)
  next
    case (Cons e es)
    note one = sys_step_breaker [OF Cons.prems, of tasks e]
    obtain evs where "cb_run (breaker_view (sys_step tasks e s)) evs (breaker_view (run_system tasks (e # es) s))"
      using Cons.IH [OF one(1)] by auto
    with one(2) show ?case by (metis cb_run_Cons)
  qed
  then show ?thesis using assms by simp
qed

text \<open>An open circuit stops the traffic: from when it opened until its recovery time has passed, no
  upstream request leaves the process, whatever requests are in flight, arrive or come back, and
  the circuit stays open.\<close>

lemma open_circuit_no_traffic:
  assumes "finite (in_flight stages)" "cb_inv (w_breaker w)" "cb_state (w_breaker w) = OPEN"
    and "\<forall>k. Task k \<in> set es \<longrightarrow> within_recovery (w_breaker w) (ev_admit_at (fst (tasks k)))
      \<and> within_recovery (w_breaker w) (ev_end_at (fst (tasks k)))"
  shows "w_outbox (snd (run_system tasks es (stages, w))) = w_outbox w
    \<and> cb_state (w_breaker (snd (run_system tasks es (stages, w)))) = OPEN"
proof -
  let ?b = "w_breaker w"
  have "w_outbox (snd (run_system tasks es s)) = w_outbox (snd s)
      \<and> still_open ?b (w_breaker (snd (run_system tasks es s)))"
    if "finite (in_flight (fst s))" "still_open ?b (w_breaker (snd s))" for s
    using that assms(4)
  proof (induction es arbitrary: s)
    case (Cons e es)
    let ?s = "sys_step tasks e s"
    note one = sys_step_breaker [OF Cons.prems(1), of tasks e]
    have within: "event_within ?b ev" if "ev \<in> event_times tasks e" for ev
      using that Cons.prems(3) by (auto simp: event_times_def breaker_events_def split: sys_event.splits)
    have brk: "brk (breaker_view t) = w_breaker (snd t)" for t :: "'a system" by (simp add: breaker_view_def)
    have "still_open ?b (w_breaker (snd ?s)) \<and> w_outbox (snd ?s) = w_outbox (snd s)"
      using one(2)
    proof
      assume "breaker_view ?s = breaker_view s \<and> w_outbox (snd ?s) = w_outbox (snd s)"
      then show ?thesis using Cons.prems(2) brk by metis
    next
      assume "\<exists>ev\<in>event_times tasks e. cb_step (breaker_view s) ev (breaker_view ?s)
         \<and> (is_Admit ev \<or> w_outbox (snd ?s) = w_outbox (snd s))"
      then show ?thesis using still_open_step [of "breaker_view s" _ "breaker_view ?s" ?b] within Cons.prems(2)
        unfolding brk by blast
    qed
    then show ?case using Cons.IH [OF one(1)] Cons.prems(3) by simp
  qed simp
  from this [of "(stages, w)"] show ?thesis
    using assms(1-3) by (simp add: still_open_def cb_inv_def)
qed

section \<open>Examples\<close>

text \<open>Alice sends the same request again and again.\<close>

definition demo_tasks :: "demo_redis tasks" where
  "demo_tasks k = (demo_env, alice_request ''/get'')"

lemma demo_tasks_simps [simp]: "fst (demo_tasks k) = demo_env" "snd (demo_tasks k) = alice_request ''/get''"
  by (simp_all add: demo_tasks_def)

lemma demo_task_ok: "task_ok demo_api (10 ^ 6) demo_env"
  by (simp add: task_ok_def demo_env_def sane_clock_def test_settings_fields)

lemma alice_first:
  "\<exists>st f. task_step demo_env (alice_request ''/get'') Arrived w = (Factor_Read st ''alice'' ''free'' f, w)"
  using path_get(1) by (simp add: authenticate_alice alice_claims_def Let_def)

theorem uninterrupted_request_is_app_witness:
  "\<exists>res st. app demo_env keep keep (alice_request ''/get'') (demo_world demo_empty) =
        (res, st, snd (run_system demo_tasks (replicate 7 (Task 0)) (\<lambda>k. Arrived, demo_world demo_empty)))"
proof -
  have "plain_request (fst (demo_tasks 0)) keep keep (snd (demo_tasks 0))" "(\<lambda>k :: nat. Arrived) 0 = Arrived"
    by (simp_all add: demo_plain)
  from uninterrupted_request_is_app [where tasks = demo_tasks and stages = "\<lambda>k. Arrived" and k = 0, OF this, of "demo_world demo_empty"]
  show ?thesis unfolding demo_tasks_simps by blast
qed

lemma every_request_replied_witness:
  "\<exists>st res. fst (run_system demo_tasks (concat (replicate 7 [Task 0, Task 1, Log_Write 0 True 1 7]))
     (\<lambda>k. Arrived, demo_world demo_empty)) 1 = Replied st res"
  by (rule every_request_replied) (simp add: numeral_eq_Suc)

text \<open>Two requests that reach the limiter together.\<close>

lemma demo_calls:
  "user_clocks (user_key ''alice'')
     (system_calls demo_tasks [Task 0, Task 1, Task 1, Task 0, Task 0, Task 1] (\<lambda>k. Arrived, w)) =
   [1700000000, 1700000000]"
proof -
  obtain st f where first: "\<And>w. task_step demo_env (alice_request ''/get'') Arrived w = (Factor_Read (st w) ''alice'' ''free'' (f w), w)"
    using alice_first by metis
  have second: "\<exists>l. task_step demo_env rq (Factor_Read st u t f) w = (Limit_Read st u t l, w)" for rq st u t f w
    by (simp add: demo_env_def)
  then obtain l where second: "\<And>rq st u t f w. task_step demo_env rq (Factor_Read st u t f) w = (Limit_Read st u t (l rq st u t f w), w)"
    by metis
  have "ev_epoch demo_env = 1700000000" by (simp add: demo_env_def)
  then show ?thesis
    by (simp add: system_calls_def first second user_clocks_def case_prod_unfold Let_def del: task_step.simps)
qed

lemma interleaved_quota_witness:
  "of_nat (system_sends ''alice'' demo_tasks [Task 0, Task 1, Task 1, Task 0, Task 0, Task 1]
      (\<lambda>k. Arrived, demo_world demo_empty))
   \<le> (10 ^ 6 + 2 * (6 / 10 ^ 14 * 10 ^ 6) :: rat)"
proof -
  have tasks: "\<forall>k. task_ok demo_api (10 ^ 6) (fst (demo_tasks k))" using demo_task_ok by simp
  from interleaved_quota [OF demo_hash_laws demo_separate_laws _ _ tasks, of "demo_world demo_empty" "''alice''"
      "[Task 0, Task 1, Task 1, Task 0, Task 0, Task 1]"]
  show ?thesis unfolding demo_calls by (simp add: demo_world_def quotas_ok_def)
qed

lemma gateway_runs_breaker_witness:
  "\<exists>evs s. cb_run (start_sys 5 60) evs (breaker_view s)
    \<and> s = run_system demo_tasks (concat (replicate 7 [Task 0, Task 1])) (\<lambda>k. Arrived, demo_world demo_empty)"
proof -
  have "breaker_view (\<lambda>k. Arrived, demo_world demo_empty) = start_sys 5 60"
    by (simp add: breaker_view_def start_sys_def demo_world_def upstream_breaker_def in_flight_def)
  moreover have "finite (in_flight (\<lambda>k. Arrived))" by (simp add: in_flight_def)
  ultimately show ?thesis
    using gateway_runs_breaker [of "\<lambda>k. Arrived" "demo_world demo_empty" demo_tasks] by metis
qed

lemma open_circuit_no_traffic_witness:
  "w_outbox (snd (run_system demo_tasks (concat (replicate 7 [Task 0, Task 1]))
      (\<lambda>k. Arrived, (demo_world demo_empty)\<lparr>w_breaker := (new_breaker 5 60)\<lparr>cb_state := OPEN, cb_failures := 5,
         cb_opened_at := 490\<rparr>\<rparr>))) = []"
proof -
  let ?b = "(new_breaker 5 60)\<lparr>cb_state := OPEN, cb_failures := 5, cb_opened_at := 490\<rparr>"
  let ?w = "(demo_world demo_empty)\<lparr>w_breaker := ?b\<rparr>"
  have "fl64 10 = 10" using fl64_int [of 10] by simp
  then have "within_recovery ?b 500" by (simp add: within_recovery_def new_breaker_def)
  then have times: "within_recovery (w_breaker ?w) (ev_admit_at demo_env)" "within_recovery (w_breaker ?w) (ev_end_at demo_env)"
    by (simp_all add: demo_env_def)
  have "finite (in_flight (\<lambda>k. Arrived))" "cb_inv (w_breaker ?w)" "cb_state (w_breaker ?w) = OPEN"
    by (simp_all add: in_flight_def cb_inv_def new_breaker_def)
  from open_circuit_no_traffic [OF this, of "concat (replicate 7 [Task 0, Task 1])" demo_tasks] times
  show ?thesis by simp
qed

end
