(* ===== verification/Deployment.thy ===== *)
theory Deployment
  imports Interleaving
begin

text \<open>
  A deployment: \<open>scripts/start.sh\<close> starts gunicorn with several workers (\<open>-w 2\<close>), each a process
  that imports \<open>app.main\<close> for itself. The workers, on any number of machines, share Redis and the
  database; the breaker of \<open>infra/circuit_breaker.py\<close>, the counters of \<open>middleware/metrics.py\<close> and
  the background tasks of \<open>services/logging_service.py\<close> are module or event loop state, one of each
  per worker. A worker may die at any time, with the requests and the tasks it had, and is
  replaced by a fresh one. \<open>home k\<close> is the worker that takes request \<open>k\<close>, any assignment.
\<close>

section \<open>Workers\<close>

record worker =
  wk_breaker :: CircuitBreaker
  wk_allowed :: "string \<Rightarrow> nat"
  wk_limited :: "string \<Rightarrow> nat"
  wk_tasks :: "LogEntry list"

definition fresh_worker :: worker where
  "fresh_worker = \<lparr>wk_breaker = upstream_breaker, wk_allowed = (\<lambda>_. 0), wk_limited = (\<lambda>_. 0), wk_tasks = []\<rparr>"

text \<open>A request that was lost with its worker has no stage any more. The outbox is what has left for
  the upstream from all workers together.\<close>

record 'r deployment =
  dp_redis :: 'r
  dp_db :: db
  dp_outbox :: "upstream_request list"
  dp_workers :: "nat \<Rightarrow> worker"
  dp_stages :: "nat \<Rightarrow> stage option"

text \<open>The world as worker \<open>p\<close> sees it, and the deployment after \<open>p\<close> has changed it.\<close>

definition view :: "nat \<Rightarrow> 'r deployment \<Rightarrow> 'r world" where
  "view p d =
     \<lparr>w_redis = dp_redis d, w_db = dp_db d, w_breaker = wk_breaker (dp_workers d p),
      w_allowed = wk_allowed (dp_workers d p), w_limited = wk_limited (dp_workers d p),
      w_outbox = dp_outbox d, w_tasks = wk_tasks (dp_workers d p)\<rparr>"

definition put_back :: "nat \<Rightarrow> 'r world \<Rightarrow> 'r deployment \<Rightarrow> 'r deployment" where
  "put_back p w d =
     d\<lparr>dp_redis := w_redis w, dp_db := w_db w, dp_outbox := w_outbox w,
       dp_workers := (dp_workers d)(p := \<lparr>wk_breaker = w_breaker w, wk_allowed = w_allowed w,
         wk_limited = w_limited w, wk_tasks = w_tasks w\<rparr>)\<rparr>"

text \<open>A request that was not begun waits for the replacement; one that was replied to has its reply.\<close>

fun survives :: "stage \<Rightarrow> bool" where
  "survives Arrived = True"
| "survives (Replied st res) = True"
| "survives stage = False"

definition crash_stage :: "stage option \<Rightarrow> stage option" where
  "crash_stage x = (case x of Some stage \<Rightarrow> if survives stage then Some stage else None | None \<Rightarrow> None)"

datatype deploy_event = Serve nat | Write nat nat bool int int | Crash nat

fun deploy_step :: "'r tasks \<Rightarrow> (nat \<Rightarrow> nat) \<Rightarrow> deploy_event \<Rightarrow> 'r deployment \<Rightarrow> 'r deployment" where
  "deploy_step tasks home (Serve k) d =
     (case dp_stages d k of
        None \<Rightarrow> d
      | Some stage \<Rightarrow>
          let (stage', w) = task_step (fst (tasks k)) (snd (tasks k)) stage (view (home k) d)
          in (put_back (home k) w d)\<lparr>dp_stages := (dp_stages d)(k \<mapsto> stage')\<rparr>)"
| "deploy_step tasks home (Write p i db_up row_id created_at) d =
     put_back p (run_log_write i db_up row_id created_at (view p d)) d"
| "deploy_step tasks home (Crash p) d =
     d\<lparr>dp_workers := (dp_workers d)(p := fresh_worker),
       dp_stages := (\<lambda>k. if home k = p then crash_stage (dp_stages d k) else dp_stages d k)\<rparr>"

declare deploy_step.simps(1) [simp del]

definition run_deployment ::
  "'r tasks \<Rightarrow> (nat \<Rightarrow> nat) \<Rightarrow> deploy_event list \<Rightarrow> 'r deployment \<Rightarrow> 'r deployment" where
  "run_deployment tasks home es d = fold (deploy_step tasks home) es d"

lemma run_deployment_simps [simp]:
  "run_deployment tasks home [] d = d"
  "run_deployment tasks home (e # es) d = run_deployment tasks home es (deploy_step tasks home e d)"
  by (simp_all add: run_deployment_def)

lemma view_simps [simp]:
  "w_redis (view p d) = dp_redis d" "w_db (view p d) = dp_db d" "w_outbox (view p d) = dp_outbox d"
  "w_breaker (view p d) = wk_breaker (dp_workers d p)" "w_tasks (view p d) = wk_tasks (dp_workers d p)"
  "w_allowed (view p d) = wk_allowed (dp_workers d p)" "w_limited (view p d) = wk_limited (dp_workers d p)"
  by (simp_all add: view_def)

lemma put_back_simps [simp]:
  "dp_redis (put_back p w d) = w_redis w" "dp_db (put_back p w d) = w_db w"
  "dp_outbox (put_back p w d) = w_outbox w" "dp_stages (put_back p w d) = dp_stages d"
  "q \<noteq> p \<Longrightarrow> dp_workers (put_back p w d) q = dp_workers d q"
  "wk_breaker (dp_workers (put_back p w d) p) = w_breaker w"
  "wk_allowed (dp_workers (put_back p w d) p) = w_allowed w"
  "wk_limited (dp_workers (put_back p w d) p) = w_limited w"
  "wk_tasks (dp_workers (put_back p w d) p) = w_tasks w"
  by (simp_all add: put_back_def)

lemma deploy_cases:
  obtains (idle) k where "e = Serve k" "dp_stages d k = None" "deploy_step tasks home e d = d"
    | (serve) k stage stage' w where "e = Serve k" "dp_stages d k = Some stage"
        "task_step (fst (tasks k)) (snd (tasks k)) stage (view (home k) d) = (stage', w)"
        "deploy_step tasks home e d = (put_back (home k) w d)\<lparr>dp_stages := (dp_stages d)(k \<mapsto> stage')\<rparr>"
    | (written) p i up row t where "e = Write p i up row t"
        "deploy_step tasks home e d = put_back p (run_log_write i up row t (view p d)) d"
    | (crash) p where "e = Crash p"
proof (cases e)
  case (Serve k)
  then show thesis
    by (cases "dp_stages d k"; cases "task_step (fst (tasks k)) (snd (tasks k)) (the (dp_stages d k)) (view (home k) d)")
      (auto simp: deploy_step.simps(1) intro: idle serve)
qed (auto intro: written crash)

text \<open>What one event does to a worker that it is not an event of: nothing.\<close>

fun event_worker :: "(nat \<Rightarrow> nat) \<Rightarrow> deploy_event \<Rightarrow> nat" where
  "event_worker home (Serve k) = home k"
| "event_worker home (Write p i db_up row_id created_at) = p"
| "event_worker home (Crash p) = p"

lemma other_worker:
  "event_worker home e \<noteq> p \<Longrightarrow> dp_workers (deploy_step tasks home e d) p = dp_workers d p"
  by (cases e) (auto simp: deploy_step.simps(1) Let_def split: option.split prod.split)

lemma other_stage:
  "e \<noteq> Serve k \<Longrightarrow> e \<noteq> Crash (home k) \<Longrightarrow> dp_stages (deploy_step tasks home e d) k = dp_stages d k"
  by (cases e) (auto simp: deploy_step.simps(1) Let_def split: option.split prod.split)

section \<open>The quota, over all workers\<close>

fun deploy_calls :: "'r tasks \<Rightarrow> deploy_event \<Rightarrow> 'r deployment \<Rightarrow> (string \<times> int \<times> int \<times> int) list" where
  "deploy_calls tasks (Serve k) d =
     (case dp_stages d k of None \<Rightarrow> [] | Some stage \<Rightarrow> stage_calls (fst (tasks k)) stage)"
| "deploy_calls tasks e d = []"

text \<open>The upstream requests of an event, by the requests they are counted for.\<close>

fun deploy_sends :: "(nat \<Rightarrow> bool) \<Rightarrow> 'r tasks \<Rightarrow> (nat \<Rightarrow> nat) \<Rightarrow> deploy_event \<Rightarrow> 'r deployment \<Rightarrow> nat" where
  "deploy_sends counted tasks home (Serve k) d =
     (if counted k then length (dp_outbox (deploy_step tasks home (Serve k) d)) - length (dp_outbox d) else 0)"
| "deploy_sends counted tasks home e d = 0"

definition all_deploy_calls ::
  "'r tasks \<Rightarrow> (nat \<Rightarrow> nat) \<Rightarrow> deploy_event list \<Rightarrow> 'r deployment \<Rightarrow> (string \<times> int \<times> int \<times> int) list" where
  "all_deploy_calls tasks home = trace_calls (deploy_step tasks home) (deploy_calls tasks)"

definition sent_for :: "(nat \<Rightarrow> bool) \<Rightarrow> 'r tasks \<Rightarrow> (nat \<Rightarrow> nat) \<Rightarrow> deploy_event list \<Rightarrow> 'r deployment \<Rightarrow> nat" where
  "sent_for counted tasks home = trace_sum (deploy_step tasks home) (deploy_sends counted tasks home)"

definition holds_grant :: "string \<Rightarrow> 'r tasks \<Rightarrow> nat \<Rightarrow> stage option \<Rightarrow> bool" where
  "holds_grant user tasks k x \<longleftrightarrow> of_user user tasks k \<and> (case x of Some stage \<Rightarrow> is_called stage | None \<Rightarrow> False)"

definition deploy_granted :: "string \<Rightarrow> 'r tasks \<Rightarrow> 'r deployment \<Rightarrow> nat set" where
  "deploy_granted user tasks d = {k. holds_grant user tasks k (dp_stages d k)}"

definition deploy_inv :: "'r redis_api \<Rightarrow> int \<Rightarrow> string \<Rightarrow> 'r tasks \<Rightarrow> 'r deployment \<Rightarrow> bool" where
  "deploy_inv R lmax user tasks d \<longleftrightarrow> limits_ok R lmax \<and> (\<forall>k. task_ok R lmax (fst (tasks k)))
   \<and> (\<forall>k stage. dp_stages d k = Some stage \<longrightarrow> stage_ok lmax (fst (tasks k)) (snd (tasks k)) stage)
   \<and> quotas_ok (dp_db d) \<and> finite (deploy_granted user tasks d)"

lemma crash_stage_Some: "crash_stage x = Some stage \<Longrightarrow> x = Some stage"
  by (simp add: crash_stage_def split: option.splits if_splits)

lemma crash_granted: "deploy_granted user tasks (deploy_step tasks home (Crash p) d) \<subseteq> deploy_granted user tasks d"
  by (auto simp: deploy_granted_def holds_grant_def crash_stage_def split: option.splits if_splits)

lemma deploy_inv_step:
  assumes "deploy_inv R lmax user tasks d"
  shows "deploy_inv R lmax user tasks (deploy_step tasks home e d)"
proof (cases rule: deploy_cases [of e d tasks home])
  case idle
  then show ?thesis using assms by simp
next
  case (serve k stage stage' w)
  have ok: "task_ok R lmax (fst (tasks k))" "10 ^ 6 \<le> lmax" "lmax \<le> 10 ^ 14"
    "stage_ok lmax (fst (tasks k)) (snd (tasks k)) stage" "quotas_ok (w_db (view (home k) d))"
    using assms serve(2) by (simp_all add: deploy_inv_def limits_ok_def)
  have fin: "finite {j. holds_grant user tasks j (dp_stages d j)}"
    using assms by (simp add: deploy_inv_def deploy_granted_def)
  show ?thesis
    using assms task_step_ok [OF ok] card_fun_upd(1) [of "holds_grant user tasks", OF fin, of k "Some stage'"]
    unfolding serve(4) by (simp add: serve(3) deploy_inv_def deploy_granted_def)
next
  case written
  then show ?thesis using assms by (simp add: deploy_inv_def deploy_granted_def quotas_ok_def)
next
  case (crash p)
  then show ?thesis
    using assms finite_subset [OF crash_granted] by (auto simp: crash deploy_inv_def dest: crash_stage_Some)
qed

text \<open>The user's requests the limiter turns away.\<close>

fun denies :: "string \<Rightarrow> 'r env \<Rightarrow> stage \<Rightarrow> 'r \<Rightarrow> bool" where
  "denies user env (Limit_Read st user_id tier limit) r \<longleftrightarrow> user_id = user
     \<and> (case fst (redis_check (ev_redis env) (ev_check_dlv env) (ev_epoch env) (user_key user_id) limit 60 r) of
          Inr result \<Rightarrow> \<not> lr_allowed result | Inl e \<Rightarrow> True)"
| "denies user env stage r \<longleftrightarrow> False"

fun deploy_denials :: "string \<Rightarrow> 'r tasks \<Rightarrow> deploy_event \<Rightarrow> 'r deployment \<Rightarrow> nat" where
  "deploy_denials user tasks (Serve k) d =
     (case dp_stages d k of None \<Rightarrow> 0 | Some stage \<Rightarrow> of_bool (denies user (fst (tasks k)) stage (dp_redis d)))"
| "deploy_denials user tasks e d = 0"

definition turned_away :: "string \<Rightarrow> 'r tasks \<Rightarrow> (nat \<Rightarrow> nat) \<Rightarrow> deploy_event list \<Rightarrow> 'r deployment \<Rightarrow> nat" where
  "turned_away user tasks home = trace_sum (deploy_step tasks home) (deploy_denials user tasks)"

lemma denies_or_grants:
  assumes "hash_laws R" "task_ok R lmax env" "stage_ok lmax env rq stage" "hash_eq R r r'"
  shows "of_bool (denies user env stage r') + paid_by R (user_key user) (stage_calls env stage) r =
    length (user_clocks (user_key user) (stage_calls env stage))"
proof (cases stage)
  case (Limit_Read st u t limit)
  have env: "ev_redis env = R" "ev_check_dlv env = Delivered" using assms(2) by (simp_all add: task_ok_def)
  have "limit_ok limit" using assms(3) by (simp add: Limit_Read)
  note cong = redis_check_cong(1) [OF assms(1,4) this window_60, of "ev_epoch env" "user_key u"]
  show ?thesis
    using cong
    by (cases "redis_check R Delivered (ev_epoch env) (user_key u) limit 60 r")
      (auto simp: Limit_Read env paid_by_def user_clocks_def split: sum.split)
qed (simp_all add: user_clocks_def)

interpretation deployed: answered_traffic R lmax "user_key user" "deploy_step tasks home" "deploy_calls tasks"
    "deploy_sends (of_user user tasks) tasks home" "\<lambda>d. card (deploy_granted user tasks d)" dp_redis
    "deploy_inv R lmax user tasks" "\<lambda>e. True" "deploy_denials user tasks"
  for R lmax user tasks home
proof
  fix d r e c
  assume inv: "deploy_inv R lmax user tasks d"
  then have R: "hash_laws R" "separate_laws R" and tasks: "\<And>k. task_ok R lmax (fst (tasks k))"
    and stage: "\<And>k stage. dp_stages d k = Some stage \<Longrightarrow> stage_ok lmax (fst (tasks k)) (snd (tasks k)) stage"
    and fin: "finite {j. holds_grant user tasks j (dp_stages d j)}"
    by (simp_all add: deploy_inv_def limits_ok_def deploy_granted_def)
  show "hash_laws R \<and> 1 \<le> lmax" using inv by (simp add: deploy_inv_def limits_ok_def)
  show "deploy_inv R lmax user tasks (deploy_step tasks home e d)" using deploy_inv_step [OF inv] .
  show "script_valid lmax c \<and> fst (snd (snd c)) = 60" if "c \<in> set (deploy_calls tasks e d)"
    using that
  proof (cases rule: deploy_cases [of e d tasks home])
    case (serve k x)
    then show ?thesis using that stage_calls_valid [OF stage [OF serve(2)]] by simp
  qed simp_all
  assume eq: "hash_eq R r (dp_redis d)"
  have "hash_eq R (after_calls R (user_key user) (deploy_calls tasks e d) r) (dp_redis (deploy_step tasks home e d))
    \<and> deploy_sends (of_user user tasks) tasks home e d + card (deploy_granted user tasks (deploy_step tasks home e d))
      \<le> card (deploy_granted user tasks d) + paid_by R (user_key user) (deploy_calls tasks e d) r"
  proof (cases rule: deploy_cases [of e d tasks home])
    case (serve k stage stage' w)
    have "hash_eq R r (w_redis (view (home k) d))" using eq by simp
    note one = task_step_grants [OF R tasks stage [OF serve(2)] this, of user, unfolded serve(3)]
    note upd = card_fun_upd(2) [of "holds_grant user tasks", OF fin, of k "Some stage'"]
    have calls: "deploy_calls tasks e d = stage_calls (fst (tasks k)) stage" by (simp add: serve(1,2))
    have sends: "deploy_sends (of_user user tasks) tasks home e d =
        (if of_user user tasks k then length (w_outbox w) - length (dp_outbox d) else 0)"
      using serve(4) by (simp add: serve(1))
    show ?thesis
      using one upd unfolding calls sends serve(4)
      by (cases "of_user user tasks k")
        (simp_all add: serve(2) deploy_granted_def after_calls_def paid_by_def holds_grant_def of_user_def del: fun_upd_apply)
  next
    case (crash p)
    have "card (deploy_granted user tasks (deploy_step tasks home e d)) \<le> card (deploy_granted user tasks d)"
      unfolding crash using fin by (intro card_mono crash_granted) (simp add: deploy_granted_def)
    then show ?thesis using eq unfolding crash by simp
  qed (use eq in \<open>simp_all add: deploy_granted_def\<close>)
  then show "hash_eq R (after_calls R (user_key user) (deploy_calls tasks e d) r) (dp_redis (deploy_step tasks home e d))"
    "deploy_sends (of_user user tasks) tasks home e d + card (deploy_granted user tasks (deploy_step tasks home e d))
      \<le> card (deploy_granted user tasks d) + paid_by R (user_key user) (deploy_calls tasks e d) r"
    by blast+
  show "deploy_denials user tasks e d + paid_by R (user_key user) (deploy_calls tasks e d) r =
      length (user_clocks (user_key user) (deploy_calls tasks e d))"
  proof (cases rule: deploy_cases [of e d tasks home])
    case (serve k x)
    then show ?thesis using denies_or_grants [OF R(1) tasks stage [OF serve(2)] eq] by simp
  qed (simp_all add: user_clocks_def)
qed

text \<open>C1. The quota holds for the whole deployment: any number of worker processes, each with any number
  of requests in flight that are interrupted wherever they await Redis, the database or the
  upstream, with admin changes, background writes and dying workers in between. The upstream
  requests made with a user's token on paths that are not public, from all workers together,
  number at most \<open>lmax\<close>, the largest limit the configuration or an override can give, plus the
  refill for the time the limiter's clock moved forward over the user's limiter calls, in the
  order they reached Redis, plus rounding. More workers or restarts give a user nothing. All this
  while Redis answers the limiter's calls (\<open>task_ok\<close>); when it does not, they fail open.\<close>

theorem deployment_quota:
  assumes "hash_laws R" "separate_laws R" "10 ^ 6 \<le> lmax" "lmax \<le> 10 ^ 14"
    and "\<forall>k. task_ok R lmax (fst (tasks k))" "dp_stages d = (\<lambda>k. Some Arrived)"
    and "quotas_ok (dp_db d)" "hget R (dp_redis d) (user_key user) ''tokens'' = None"
  shows "of_nat (sent_for (of_user user tasks) tasks home es d) \<le>
    of_int lmax
      + of_int (clock_span (user_clocks (user_key user) (all_deploy_calls tasks home es d))) * refill_rate lmax 60
      + of_nat (length (user_clocks (user_key user) (all_deploy_calls tasks home es d)))
          * (6 / 10 ^ 14 * of_int lmax)"
proof -
  have "deploy_granted user tasks d = {}" using assms(6) by (simp add: deploy_granted_def holds_grant_def)
  moreover from this have "deploy_inv R lmax user tasks d" using assms by (simp add: deploy_inv_def limits_ok_def)
  ultimately show ?thesis
    using deployed.trace_quota [of R lmax user tasks d es home] assms(8)
    by (simp add: all_deploy_calls_def sent_for_def)
qed

text \<open>C19. Who conforms is served: in a deployment, a user with no bucket yet whose limit stays the same
  is never turned away as long as an exact bucket of one token less than the limit accepts the
  clock readings of the user's requests, whatever everyone else does on any worker, and though
  the code keeps the bucket in floats and prints it to 14 digits. In particular the requests of a
  user who keeps the pace of the limit (\<open>paced_conforms\<close>), and fewer requests than the limit
  however fast (\<open>burst_conforms\<close>). This holds for \<open>10 ^ 14 / (6 * max limit 60)\<close> requests, in which
  the roundings stay within the spare token (at 60 a minute, one a second for more than 8000 years).\<close>

theorem conforming_user_never_turned_away:
  assumes "hash_laws R" "separate_laws R" "10 ^ 6 \<le> lmax" "lmax \<le> 10 ^ 14"
    and "\<forall>k. task_ok R lmax (fst (tasks k))" "dp_stages d = (\<lambda>k. Some Arrived)"
    and "quotas_ok (dp_db d)" "hget R (dp_redis d) (user_key user) ''tokens'' = None"
    and "1 \<le> limit" "limit \<le> 10 ^ 14"
    and "\<forall>c\<in>set (all_deploy_calls tasks home es d). fst c = user_key user \<longrightarrow> fst (snd c) = limit"
    and "conforms limit 60 (user_clocks (user_key user) (all_deploy_calls tasks home es d))"
    and "6 * max limit 60 * int (length (user_clocks (user_key user) (all_deploy_calls tasks home es d))) \<le> 10 ^ 14"
  shows "turned_away user tasks home es d = 0"
proof -
  have "deploy_granted user tasks d = {}" using assms(6) by (simp add: deploy_granted_def holds_grant_def)
  then have "deploy_inv R lmax user tasks d" using assms(1-7) by (simp add: deploy_inv_def limits_ok_def)
  moreover have "limit_ok limit" using assms(9,10) by (simp add: limit_ok_def)
  ultimately show ?thesis
    using deployed.trace_not_denied [of R lmax user tasks d es limit home] assms(8,11-13)
    by (simp add: all_deploy_calls_def turned_away_def)
qed

section \<open>Examples\<close>

text \<open>Two workers, as in \<open>start.sh\<close>, which take the requests in turn.\<close>

definition demo_home :: "nat \<Rightarrow> nat" where
  "demo_home k = k mod 2"

definition demo_deployment :: "demo_redis deployment" where
  "demo_deployment =
     \<lparr>dp_redis = demo_empty, dp_db = \<lparr>db_quotas = Map.empty, db_logs = []\<rparr>, dp_outbox = [],
      dp_workers = (\<lambda>p. fresh_worker), dp_stages = (\<lambda>k. Some Arrived)\<rparr>"

lemma demo_home_less: "demo_home k < 2" by (simp add: demo_home_def)

lemma demo_deploy_calls:
  "user_clocks (user_key ''alice'') (all_deploy_calls demo_tasks demo_home
     [Serve 0, Serve 1, Serve 1, Serve 0, Serve 0, Serve 1, Crash 0] demo_deployment) = [1700000000, 1700000000]"
proof -
  obtain st f where first: "\<And>w. task_step demo_env (alice_request ''/get'') Arrived w = (Factor_Read (st w) ''alice'' ''free'' (f w), w)"
    using alice_first by metis
  have "\<exists>l. task_step demo_env rq (Factor_Read st u t f) w = (Limit_Read st u t l, w)" for rq st u t f w
    by (simp add: demo_env_def)
  then obtain l where second: "\<And>rq st u t f w. task_step demo_env rq (Factor_Read st u t f) w = (Limit_Read st u t (l rq st u t f w), w)"
    by metis
  have "ev_epoch demo_env = 1700000000" by (simp add: demo_env_def)
  then show ?thesis
    by (simp add: all_deploy_calls_def demo_deployment_def deploy_step.simps(1) first second user_clocks_def
        case_prod_unfold Let_def del: task_step.simps)
qed

theorem deployment_quota_witness:
  "of_nat (sent_for (of_user ''alice'' demo_tasks) demo_tasks demo_home
      [Serve 0, Serve 1, Serve 1, Serve 0, Serve 0, Serve 1, Crash 0] demo_deployment)
   \<le> (10 ^ 6 + 2 * (6 / 10 ^ 14 * 10 ^ 6) :: rat)"
proof -
  have tasks: "\<forall>k. task_ok demo_api (10 ^ 6) (fst (demo_tasks k))" using demo_task_ok by simp
  from deployment_quota [OF demo_hash_laws demo_separate_laws _ _ tasks, of demo_deployment "''alice''" demo_home
      "[Serve 0, Serve 1, Serve 1, Serve 0, Serve 0, Serve 1, Crash 0]"]
  show ?thesis unfolding demo_deploy_calls by (simp add: demo_deployment_def quotas_ok_def)
qed

text \<open>Alice's requests reach the limiter a second apart: the pace of her 60 a minute.\<close>

definition paced_tasks :: "demo_redis tasks" where
  "paced_tasks k = (demo_env\<lparr>ev_epoch := 1700000000 + int (k mod 2)\<rparr>, alice_request ''/get'')"

lemma paced_tasks_simps [simp]:
  "fst (paced_tasks k) = demo_env\<lparr>ev_epoch := 1700000000 + int (k mod 2)\<rparr>" "snd (paced_tasks k) = alice_request ''/get''"
  by (simp_all add: paced_tasks_def)

abbreviation empty_db :: db where
  "empty_db \<equiv> \<lparr>db_quotas = Map.empty, db_logs = []\<rparr>"

lemma paced_first:
  "\<exists>st. \<forall>w. w_redis w = demo_empty \<longrightarrow>
     task_step (demo_env\<lparr>ev_epoch := t\<rparr>) (alice_request ''/get'') Arrived w = (Factor_Read st ''alice'' ''free'' 1, w)"
proof -
  have env: "ev_redis demo_env = demo_api" "ev_factor_dlv demo_env = Delivered" "ev_factor_at demo_env = 1700000000"
    by (simp_all add: demo_env_def)
  have "authenticate (demo_env\<lparr>ev_epoch := t\<rparr>) (alice_request ''/get'') = Inr alice_claims"
    unfolding authenticate_alice [of "''/get''", symmetric] by (simp add: authenticate_def Let_def)
  then show ?thesis using path_get(1) by (simp add: alice_claims_def Let_def env alice_factor)
qed

lemma paced_second:
  "w_db w = empty_db \<Longrightarrow>
   task_step (demo_env\<lparr>ev_epoch := t\<rparr>) rq (Factor_Read st ''alice'' ''free'' 1) w = (Limit_Read st ''alice'' ''free'' 60, w)"
  using alice_limit by (simp add: demo_env_def effective_60)

lemma view_stages: "view p (d\<lparr>dp_stages := x\<rparr>) = view p d"
  by (simp add: view_def)

lemma put_back_view: "put_back p (view p d) (d\<lparr>dp_stages := x\<rparr>) = d\<lparr>dp_stages := x\<rparr>" "put_back p (view p d) d = d"
  by (auto simp: put_back_def view_def intro!: deployment.equality ext)

lemma paced_deploy_calls:
  "all_deploy_calls paced_tasks demo_home
     [Serve 0, Serve 1, Serve 1, Serve 0, Serve 0, Serve 1, Crash 0] demo_deployment =
   [(user_key ''alice'', 60, 60, 1700000000), (user_key ''alice'', 60, 60, 1700000001)]"
proof -
  obtain st where first: "\<And>t w. w_redis w = demo_empty \<Longrightarrow>
      task_step (demo_env\<lparr>ev_epoch := t\<rparr>) (alice_request ''/get'') Arrived w =
        (Factor_Read (st t) ''alice'' ''free'' 1, w)"
    using paced_first by metis
  have d: "dp_redis demo_deployment = demo_empty" "dp_db demo_deployment = empty_db"
    "dp_stages demo_deployment = (\<lambda>k. Some Arrived)"
    by (simp_all add: demo_deployment_def)
  show ?thesis
    by (simp add: all_deploy_calls_def d deploy_step.simps(1) first paced_second view_stages put_back_view
        case_prod_unfold Let_def del: task_step.simps)
qed

theorem conforming_user_never_turned_away_witness:
  "turned_away ''alice'' paced_tasks demo_home
     [Serve 0, Serve 1, Serve 1, Serve 0, Serve 0, Serve 1, Crash 0] demo_deployment = 0"
proof -
  have tasks: "\<forall>k. task_ok demo_api (10 ^ 6) (fst (paced_tasks k))"
    using demo_task_ok by (auto simp: task_ok_def sane_clock_def demo_env_def intro: order_trans [of _ 1])
  let ?run = "[Serve 0, Serve 1, Serve 1, Serve 0, Serve 0, Serve 1, Crash 0]"
  from conforming_user_never_turned_away [OF demo_hash_laws demo_separate_laws _ _ tasks,
      of demo_deployment "''alice''" 60 demo_home ?run]
  show ?thesis unfolding paced_deploy_calls
    by (simp add: user_clocks_def conforms_def exact_refill_def demo_deployment_def quotas_ok_def demo_missing)
qed

end
