(* ===== verification/Workers.thy ===== *)
theory Workers
  imports Deployment
begin

text \<open>
  What the workers of a deployment keep for themselves: each its own circuit breaker
  (\<open>infra/circuit_breaker.py\<close>), its own Prometheus counters (\<open>middleware/metrics.py\<close>) and its own
  scheduled log writes (\<open>services/logging_service.py\<close>). The breaker of a worker runs as theory
  Circuit_Breaker says, but only on what its own requests saw; the counters count the worker's own
  verdicts; the log gets the entry of each reply at most once.
\<close>

section \<open>Each worker has its own breaker\<close>

definition waits :: "(nat \<Rightarrow> nat) \<Rightarrow> nat \<Rightarrow> nat \<Rightarrow> stage option \<Rightarrow> bool" where
  "waits home p k x \<longleftrightarrow> home k = p \<and> (case x of Some stage \<Rightarrow> is_sent stage | None \<Rightarrow> False)"

definition waiting :: "(nat \<Rightarrow> nat) \<Rightarrow> nat \<Rightarrow> 'r deployment \<Rightarrow> nat set" where
  "waiting home p d = {k. waits home p k (dp_stages d k)}"

text \<open>A worker's breaker and the number of its requests that wait for the upstream are a state of theory
  Circuit_Breaker; the events are those of its own requests.\<close>

definition worker_view :: "(nat \<Rightarrow> nat) \<Rightarrow> nat \<Rightarrow> 'r deployment \<Rightarrow> cb_sys" where
  "worker_view home p d = \<lparr>brk = wk_breaker (dp_workers d p), inflight = card (waiting home p d)\<rparr>"

fun worker_events :: "'r tasks \<Rightarrow> (nat \<Rightarrow> nat) \<Rightarrow> nat \<Rightarrow> deploy_event \<Rightarrow> cb_event set" where
  "worker_events tasks home p (Serve k) = (if home k = p then breaker_events (fst (tasks k)) else {})"
| "worker_events tasks home p e = {}"

lemma waiting_eq:
  "(\<And>k. home k = p \<Longrightarrow> dp_stages d' k = dp_stages d k) \<Longrightarrow> waiting home p d' = waiting home p d"
  by (auto simp: waiting_def waits_def)

lemma deploy_step_breaker:
  fixes home p d
  defines "v \<equiv> worker_view home p" and "sends \<equiv> deploy_sends (\<lambda>k. home k = p)"
  assumes fin: "finite (waiting home p d)" and alive: "e \<noteq> Crash p"
  shows "finite (waiting home p (deploy_step tasks home e d))
    \<and> (v (deploy_step tasks home e d) = v d \<and> sends tasks home e d = 0
       \<or> (\<exists>ev\<in>worker_events tasks home p e. cb_step (v d) ev (v (deploy_step tasks home e d))
            \<and> (is_Admit ev \<or> sends tasks home e d = 0)))"
proof (cases "event_worker home e = p")
  case False
  have "dp_stages (deploy_step tasks home e d) k = dp_stages d k" if "home k = p" for k
    using False that by (intro other_stage) auto
  then have "waiting home p (deploy_step tasks home e d) = waiting home p d" by (rule waiting_eq)
  moreover have "sends tasks home e d = 0" using False by (cases e) (simp_all add: sends_def)
  ultimately show ?thesis using fin other_worker [OF False, of tasks d] by (simp add: v_def worker_view_def)
next
  case True
  show ?thesis
  proof (cases rule: deploy_cases [of e d tasks home])
    case (idle k)
    then show ?thesis using fin by (simp add: v_def sends_def)
  next
    case (serve k stage stage' w)
    have home: "home k = p" using True serve(1) by simp
    note fin' = fin [unfolded waiting_def]
    note upd = card_fun_upd [of "waits home p", OF fin', of k "Some stage'"]
    define n where "n = card (waiting home p d) - of_bool (is_sent stage)"
    have "waits home p k (dp_stages d k) = is_sent stage" "waits home p k (Some stage') = is_sent stage'"
      by (simp_all add: waits_def home serve(2))
    then have n: "card (waiting home p d) = n + of_bool (is_sent stage)"
      "card {j. waits home p j (((dp_stages d)(k \<mapsto> stage')) j)} = n + of_bool (is_sent stage')"
      using upd(2) of_bool_le_card [OF fin, of k] by (simp_all add: n_def waiting_def)
    have sends: "sends tasks home e d = length (w_outbox w) - length (dp_outbox d)"
      using serve(4) by (simp add: serve(1) home sends_def)
    show ?thesis
      using task_step_breaker [OF serve(3), of n] upd(1) n
      unfolding serve(4) sends v_def worker_view_def waiting_def by (auto simp: serve(1) home)
  next
    case (written q i up row t)
    then show ?thesis using True fin by (simp add: v_def sends_def worker_view_def waiting_def)
  qed (use True alive in simp)
qed

text \<open>C22. Every worker uses its breaker as theory Circuit_Breaker says a breaker is used, and on its own:
  as long as the worker lives, whatever the deployment does, its breaker goes through a run of
  that step relation in which exactly its requests that wait for the upstream are in flight, and
  whose events are those of the requests it serves. What is proved there of every run (the
  invariant, the threshold, the recovery time) holds of each worker, and what the upstream did to
  the other workers does not show.\<close>

theorem worker_runs_breaker:
  assumes "finite (waiting home p d)" "Crash p \<notin> set es"
  shows "\<exists>evs. cb_run (worker_view home p d) evs (worker_view home p (run_deployment tasks home es d))
    \<and> set evs \<subseteq> (\<Union>e\<in>set es. worker_events tasks home p e)"
  using assms
proof (induction es arbitrary: d)
  case Nil
  then show ?case by (intro exI [of _ "[]"]) (simp add: cb_run_Nil)
next
  case (Cons e es)
  let ?d = "deploy_step tasks home e d"
  have "e \<noteq> Crash p" using Cons.prems(2) by auto
  note one = deploy_step_breaker [OF Cons.prems(1) this, of tasks]
  obtain evs where evs: "cb_run (worker_view home p ?d) evs (worker_view home p (run_deployment tasks home (e # es) d))"
    "set evs \<subseteq> (\<Union>e\<in>set es. worker_events tasks home p e)"
    using Cons.IH [of ?d] one Cons.prems(2) by auto
  from one consider "worker_view home p ?d = worker_view home p d"
    | ev where "ev \<in> worker_events tasks home p e" "cb_step (worker_view home p d) ev (worker_view home p ?d)" by blast
  then show ?case
  proof cases
    case 1
    then show ?thesis using evs by (intro exI [of _ evs]) auto
  next
    case (2 ev)
    then show ?thesis using evs by (intro exI [of _ "ev # evs"]) (auto intro: cb_run.intros)
  qed
qed

text \<open>C21. An open circuit stops its worker's traffic: from when it opened until its recovery time has
  passed, none of the requests the worker serves is sent upstream, whatever requests are in
  flight, arrive or come back anywhere, and the circuit stays open.\<close>

theorem open_worker_sends_nothing:
  assumes "finite (waiting home p d)" "Crash p \<notin> set es"
    and "cb_inv (wk_breaker (dp_workers d p))" "cb_state (wk_breaker (dp_workers d p)) = OPEN"
    and "\<forall>k. Serve k \<in> set es \<and> home k = p \<longrightarrow>
      within_recovery (wk_breaker (dp_workers d p)) (ev_admit_at (fst (tasks k)))
      \<and> within_recovery (wk_breaker (dp_workers d p)) (ev_end_at (fst (tasks k)))"
  shows "sent_for (\<lambda>k. home k = p) tasks home es d = 0
    \<and> cb_state (wk_breaker (dp_workers (run_deployment tasks home es d) p)) = OPEN"
proof -
  let ?b = "wk_breaker (dp_workers d p)"
  have "sent_for (\<lambda>k. home k = p) tasks home es x = 0 \<and> still_open ?b (brk (worker_view home p (run_deployment tasks home es x)))"
    if "finite (waiting home p x)" "still_open ?b (brk (worker_view home p x))" for x
    using that assms(2,5)
  proof (induction es arbitrary: x)
    case Nil
    then show ?case by (simp add: sent_for_def)
  next
    case (Cons e es)
    let ?x = "deploy_step tasks home e x"
    have "e \<noteq> Crash p" using Cons.prems(3) by auto
    note one = deploy_step_breaker [OF Cons.prems(1) this, of tasks]
    have within: "event_within ?b ev" if "ev \<in> worker_events tasks home p e" for ev
      using that Cons.prems(4) by (cases e) (auto simp: breaker_events_def split: if_splits)
    have "still_open ?b (brk (worker_view home p ?x)) \<and> deploy_sends (\<lambda>k. home k = p) tasks home e x = 0"
      using one Cons.prems(2) within still_open_step by metis
    then show ?case using Cons.IH [of ?x] one Cons.prems(3,4) by (simp add: sent_for_def)
  qed
  from this [of d] show ?thesis
    using assms(1,3,4) by (simp add: still_open_def cb_inv_def worker_view_def)
qed

section \<open>Each worker has its own counters\<close>

text \<open>The verdicts the limiter gives a worker's requests of a tier, read off the limiter's answers.\<close>

fun verdict_step :: "'r env \<Rightarrow> string \<Rightarrow> bool \<Rightarrow> stage \<Rightarrow> 'r \<Rightarrow> bool" where
  "verdict_step env tier yes (Limit_Read st user_id t limit) r \<longleftrightarrow>
     t = tier \<and> (case fst (redis_check (ev_redis env) (ev_check_dlv env) (ev_epoch env) (user_key user_id) limit 60 r) of
       Inr result \<Rightarrow> lr_allowed result = yes | Inl e \<Rightarrow> False)"
| "verdict_step env tier yes stage r \<longleftrightarrow> False"

fun verdicts :: "'r tasks \<Rightarrow> (nat \<Rightarrow> nat) \<Rightarrow> nat \<Rightarrow> string \<Rightarrow> bool \<Rightarrow> deploy_event \<Rightarrow> 'r deployment \<Rightarrow> nat" where
  "verdicts tasks home p tier yes (Serve k) d =
     (case dp_stages d k of
        Some stage \<Rightarrow> of_bool (home k = p \<and> verdict_step (fst (tasks k)) tier yes stage (dp_redis d))
      | None \<Rightarrow> 0)"
| "verdicts tasks home p tier yes e d = 0"

lemma task_step_counters:
  assumes "task_step env rq stage w = (stage', w')"
  shows "w_allowed w' tier = w_allowed w tier + of_bool (verdict_step env tier True stage (w_redis w))
    \<and> w_limited w' tier = w_limited w tier + of_bool (verdict_step env tier False stage (w_redis w))"
proof (cases stage)
  case Arrived
  then show ?thesis using assms by (auto simp: Let_def split: if_splits sum.splits option.splits)
next
  case (Factor_Read st u t f)
  then show ?thesis using assms by (auto split: if_splits)
next
  case (Limit_Read st u t limit)
  then show ?thesis using assms by (auto simp: Let_def inc_counter_def split: prod.splits sum.splits if_splits)
next
  case (Called st)
  show ?thesis
  proof (cases "\<exists>path. route_of (rq_method rq) (rq_path rq) = Full (Proxy_Route path)")
    case True
    then show ?thesis using assms by (auto simp: Called do_upstream_request_def split: prod.splits bool.splits)
  next
    case False
    obtain res st1 w1 where r: "router env rq st w = (res, st1, w1)" using prod_cases3 by blast
    then have "w' = w1" using assms False by (auto simp: Called split: match.splits endpoint.splits)
    then show ?thesis using router_keeps [OF False _ r, of w_allowed] router_keeps [OF False _ r, of w_limited]
      by (simp add: Called)
  qed
next
  case (Sent st path)
  then show ?thesis using assms by (auto simp: Let_def split: func_end.splits http_exc.splits)
next
  case (Recording st success res)
  then show ?thesis using assms by (auto simp: record_result_def)
next
  case (Leaving st res)
  then show ?thesis using assms by (auto simp: leave_stack_def schedule_log_def split: sum.splits)
next
  case (Replied st res)
  then show ?thesis using assms by auto
qed

lemma deploy_step_counters:
  assumes "e \<noteq> Crash p"
  shows "wk_allowed (dp_workers (deploy_step tasks home e d) p) tier =
      wk_allowed (dp_workers d p) tier + verdicts tasks home p tier True e d"
    and "wk_limited (dp_workers (deploy_step tasks home e d) p) tier =
      wk_limited (dp_workers d p) tier + verdicts tasks home p tier False e d"
proof -
  have "wk_allowed (dp_workers (deploy_step tasks home e d) p) tier =
      wk_allowed (dp_workers d p) tier + verdicts tasks home p tier True e d
    \<and> wk_limited (dp_workers (deploy_step tasks home e d) p) tier =
      wk_limited (dp_workers d p) tier + verdicts tasks home p tier False e d"
  proof (cases "event_worker home e = p")
    case False
    then have "verdicts tasks home p tier v e d = 0" for v by (cases e) (simp_all split: option.split)
    then show ?thesis using other_worker [OF False, of tasks d] by simp
  next
    case True
    show ?thesis
    proof (cases rule: deploy_cases [of e d tasks home])
      case (serve k stage stage' w)
      then show ?thesis using True task_step_counters [OF serve(3), of tier] by (simp add: serve(1,2))
    qed (use True assms in simp_all)
  qed
  then show "wk_allowed (dp_workers (deploy_step tasks home e d) p) tier =
      wk_allowed (dp_workers d p) tier + verdicts tasks home p tier True e d"
    "wk_limited (dp_workers (deploy_step tasks home e d) p) tier =
      wk_limited (dp_workers d p) tier + verdicts tasks home p tier False e d" by blast+
qed

text \<open>C38. What \<open>/metrics\<close> counts: as long as a worker lives, its two counters for a tier have grown by
  exactly the requests of that tier that the limiter allowed and denied on this worker. The
  workers' counters add up to the deployment's, so a scrape, which one worker answers, shows the
  share of that worker.\<close>

theorem counters_count_own_verdicts:
  assumes "Crash p \<notin> set es"
  shows "wk_allowed (dp_workers (run_deployment tasks home es d) p) tier =
      wk_allowed (dp_workers d p) tier + trace_sum (deploy_step tasks home) (verdicts tasks home p tier True) es d
    \<and> wk_limited (dp_workers (run_deployment tasks home es d) p) tier =
      wk_limited (dp_workers d p) tier + trace_sum (deploy_step tasks home) (verdicts tasks home p tier False) es d"
  using assms
proof (induction es arbitrary: d)
  case (Cons e es)
  have "e \<noteq> Crash p" using Cons.prems by auto
  then show ?case using Cons deploy_step_counters [of e p tasks home d tier] by simp
qed simp

section \<open>A request is logged at most once\<close>

text \<open>The entry of a request that was replied to, the entries a worker still has to write, and the
  entries in the database.\<close>

fun reply_entry :: "'r env \<Rightarrow> request \<Rightarrow> stage \<Rightarrow> LogEntry multiset" where
  "reply_entry env rq (Replied st (Inr rs)) = {#log_entry env rq st (rs_status rs)#}"
| "reply_entry env rq (Replied st (Inl e)) = {#log_entry env rq st 500#}"
| "reply_entry env rq stage = {#}"

definition reply_entries :: "'r tasks \<Rightarrow> nat \<Rightarrow> 'r deployment \<Rightarrow> LogEntry multiset" where
  "reply_entries tasks n d =
     (\<Sum>k<n. case dp_stages d k of None \<Rightarrow> {#} | Some stage \<Rightarrow> reply_entry (fst (tasks k)) (snd (tasks k)) stage)"

definition pending_entries :: "nat \<Rightarrow> 'r deployment \<Rightarrow> LogEntry multiset" where
  "pending_entries m d = (\<Sum>p<m. mset (wk_tasks (dp_workers d p)))"

definition stored_entries :: "'r deployment \<Rightarrow> LogEntry multiset" where
  "stored_entries d = mset (map entry_of_row (db_logs (dp_db d)))"

lemma status_of_reply [simp]: "rs_status (add_security_headers S (set_header h v rs)) = rs_status rs"
  by (simp add: add_security_headers_def set_header_def Let_def)

lemma reply_entry_leave_route [simp]: "reply_entry env rq (leave_route env' st res) = {#}"
  by (simp add: leave_route_def)

text \<open>A step of a request schedules the entry of its reply, when it is replied to.\<close>

lemma task_step_entries:
  assumes "task_step env rq stage w = (stage', w')"
  shows "db_logs (w_db w') = db_logs (w_db w)
    \<and> mset (w_tasks w') + reply_entry env rq stage = mset (w_tasks w) + reply_entry env rq stage'"
proof (cases stage)
  case Arrived
  then show ?thesis using assms by (auto simp: Let_def split: if_splits sum.splits option.splits)
next
  case (Factor_Read st u t f)
  then show ?thesis using assms by (auto split: if_splits)
next
  case (Limit_Read st u t limit)
  then show ?thesis using assms by (auto simp: Let_def split: prod.splits sum.splits if_splits)
next
  case (Called st)
  show ?thesis
  proof (cases "\<exists>path. route_of (rq_method rq) (rq_path rq) = Full (Proxy_Route path)")
    case True
    then show ?thesis using assms by (auto simp: Called do_upstream_request_def split: prod.splits bool.splits)
  next
    case False
    obtain res st1 w1 where r: "router env rq st w = (res, st1, w1)" using prod_cases3 by blast
    then have "stage' = leave_route env st1 res" "w' = w1"
      using assms False by (auto simp: Called split: match.splits endpoint.splits)
    then show ?thesis using router_keeps [OF False _ r, of w_tasks] router_keeps [OF False _ r, of "\<lambda>w. db_logs (w_db w)"]
      by (simp add: Called)
  qed
next
  case (Sent st path)
  then show ?thesis using assms by (auto simp: Let_def split: func_end.splits http_exc.splits)
next
  case (Recording st success res)
  then show ?thesis using assms by (auto simp: record_result_def)
next
  case (Leaving st res)
  then show ?thesis using assms by (cases res) (auto simp: leave_stack_def schedule_log_def)
next
  case (Replied st res)
  then show ?thesis using assms by auto
qed

lemma sum_fun_upd:
  fixes g :: "nat \<Rightarrow> 'a \<Rightarrow> 'b :: comm_monoid_add"
  assumes "k < n"
  shows "(\<Sum>j<n. g j ((f(k := x)) j)) + g k (f k) = (\<Sum>j<n. g j (f j)) + g k x"
proof -
  have "(\<Sum>j<n. g j ((f(k := y)) j)) = g k y + (\<Sum>j\<in>{..<n} - {k}. g j (f j))" for y
    using assms by (subst sum.remove [of _ k]) (auto intro: sum.cong)
  from this [of x] this [of "f k"] show ?thesis by (simp add: add.assoc add.commute add.left_commute)
qed

lemma pending_put_back:
  assumes "p < m"
  shows "pending_entries m (put_back p w d) + mset (wk_tasks (dp_workers d p)) = pending_entries m d + mset (w_tasks w)"
  using sum_fun_upd [OF assms, of "\<lambda>p x. mset (wk_tasks x)" "dp_workers d"]
  by (simp add: pending_entries_def put_back_def)

lemma pending_stages [simp]: "pending_entries m (d\<lparr>dp_stages := x\<rparr>) = pending_entries m d"
  and stored_stages [simp]: "stored_entries (d\<lparr>dp_stages := x\<rparr>) = stored_entries d"
  by (simp_all add: pending_entries_def stored_entries_def)

lemma pending_crash:
  assumes "p < m"
  shows "pending_entries m (deploy_step tasks home (Crash p) d) \<subseteq># pending_entries m d"
proof -
  have "pending_entries m (deploy_step tasks home (Crash p) d) + mset (wk_tasks (dp_workers d p)) = pending_entries m d"
    using sum_fun_upd [OF assms, of "\<lambda>p x. mset (wk_tasks x)" "dp_workers d" fresh_worker]
    by (simp add: pending_entries_def fresh_worker_def)
  then show ?thesis by (metis mset_subset_eq_add_left)
qed

text \<open>The events of workers below \<open>m\<close> and requests below \<open>n\<close>.\<close>

fun event_below :: "nat \<Rightarrow> nat \<Rightarrow> deploy_event \<Rightarrow> bool" where
  "event_below m n (Serve k) \<longleftrightarrow> k < n"
| "event_below m n (Write p i up row t) \<longleftrightarrow> p < m"
| "event_below m n (Crash p) \<longleftrightarrow> p < m"

fun loses_nothing :: "deploy_event \<Rightarrow> bool" where
  "loses_nothing (Serve k) \<longleftrightarrow> True"
| "loses_nothing (Write p i up row t) \<longleftrightarrow> up"
| "loses_nothing (Crash p) \<longleftrightarrow> False"

lemma reply_crash:
  "(case crash_stage x of None \<Rightarrow> {#} | Some stage \<Rightarrow> reply_entry env rq stage) =
   (case x of None \<Rightarrow> {#} | Some stage \<Rightarrow> reply_entry env rq stage)"
proof (cases x)
  case (Some stage)
  then show ?thesis by (cases stage) (simp_all add: crash_stage_def)
qed (simp add: crash_stage_def)

lemma mset_exchange:
  fixes a :: "'a multiset"
  assumes "a' + x = a + y"
  shows "b' + y = b + x \<Longrightarrow> a' + b' = a + b" and "b' + y \<subseteq># b + x \<Longrightarrow> a' + b' \<subseteq># a + b"
proof -
  have a: "count a' z + count x z = count a z + count y z" for z
    using arg_cong [OF assms, of "\<lambda>M. count M z"] by simp
  show "a' + b' = a + b" if "b' + y = b + x"
  proof (rule multiset_eqI)
    fix z
    show "count (a' + b') z = count (a + b) z" using a [of z] arg_cong [OF that, of "\<lambda>M. count M z"] by simp
  qed
  show "a' + b' \<subseteq># a + b" if "b' + y \<subseteq># b + x"
  proof (rule mset_subset_eqI)
    fix z
    show "count (a' + b') z \<le> count (a + b) z" using a [of z] mset_subset_eq_count [OF that, of z] by simp
  qed
qed

lemma deploy_step_entries:
  fixes d tasks home
  assumes "\<forall>k. home k < m" "event_below m n e"
  defines "d' \<equiv> deploy_step tasks home e d"
  shows "stored_entries d' + pending_entries m d' + reply_entries tasks n d
      \<subseteq># stored_entries d + pending_entries m d + reply_entries tasks n d'
    \<and> (loses_nothing e \<longrightarrow>
        stored_entries d' + filter_mset entry_fits (pending_entries m d' + reply_entries tasks n d) =
        stored_entries d + filter_mset entry_fits (pending_entries m d + reply_entries tasks n d'))"
proof (cases rule: deploy_cases [of e d tasks home])
  case (idle k)
  then show ?thesis by (simp add: d'_def)
next
  case (serve k stage stage' w)
  note one = task_step_entries [OF serve(3)]
  let ?g = "\<lambda>k x. case x of None \<Rightarrow> {#} | Some stage \<Rightarrow> reply_entry (fst (tasks k)) (snd (tasks k)) stage"
  have "k < n" using assms(2) serve(1) by simp
  from sum_fun_upd [OF this, of ?g "dp_stages d" "Some stage'"]
  have replies: "reply_entries tasks n d + reply_entry (fst (tasks k)) (snd (tasks k)) stage' =
      reply_entries tasks n d' + reply_entry (fst (tasks k)) (snd (tasks k)) stage"
    unfolding d'_def serve(4) reply_entries_def by (simp add: serve(2))
  have pend: "pending_entries m d' + mset (wk_tasks (dp_workers d (home k))) = pending_entries m d + mset (w_tasks w)"
    unfolding d'_def serve(4) using pending_put_back [of "home k" m w d] assms(1) by simp
  have "mset (w_tasks w) + reply_entry (fst (tasks k)) (snd (tasks k)) stage =
      mset (wk_tasks (dp_workers d (home k))) + reply_entry (fst (tasks k)) (snd (tasks k)) stage'" using one by simp
  then have eq: "pending_entries m d' + reply_entries tasks n d = pending_entries m d + reply_entries tasks n d'"
    by (intro mset_exchange(1) [OF pend] mset_exchange(1) [OF replies])
  have s: "stored_entries d' = stored_entries d"
    unfolding d'_def serve(4) stored_entries_def using one by simp
  show ?thesis unfolding s add.assoc eq by simp
next
  case (written p i up row t)
  let ?w = "view p d" and ?w' = "run_log_write i up row t (view p d)"
  have reply: "reply_entries tasks n d' = reply_entries tasks n d"
    and stored: "stored_entries d' = mset (map entry_of_row (db_logs (w_db ?w')))"
    "stored_entries d = mset (map entry_of_row (db_logs (w_db ?w)))"
    unfolding d'_def written(2) by (simp_all add: reply_entries_def stored_entries_def)
  have "p < m" using assms(2) written(1) by simp
  note pend = pending_put_back [OF this, of ?w' d, folded written(2), folded d'_def]
  show ?thesis
  proof (cases "i < length (w_tasks ?w)")
    case True
    note one = log_write_entries [where up = up and row_id = row and t = t, OF True refl]
    have pend: "pending_entries m d' + mset (w_tasks ?w) = pending_entries m d + mset (w_tasks ?w')" using pend by simp
    have "pending_entries m d' + stored_entries d' \<subseteq># pending_entries m d + stored_entries d"
      using mset_exchange(2) [OF pend] one(2) unfolding stored by simp
    moreover have "filter_mset entry_fits (pending_entries m d') + stored_entries d' =
        filter_mset entry_fits (pending_entries m d) + stored_entries d" if up
      using mset_exchange(1) [OF arg_cong [OF pend, of "filter_mset entry_fits", unfolded filter_union_mset]
        one(3) [OF that]] unfolding stored .
    ultimately show ?thesis unfolding reply by (simp add: written(1) ac_simps)
  next
    case False
    then have "?w' = ?w" by (simp add: run_log_write_def)
    then show ?thesis using pend unfolding reply stored by simp
  qed
next
  case (crash p)
  have reply: "reply_entries tasks n d' = reply_entries tasks n d"
    unfolding d'_def crash reply_entries_def
    by (intro sum.cong refl) (simp add: reply_crash)
  have "pending_entries m d' \<subseteq># pending_entries m d"
    unfolding d'_def crash using pending_crash assms(2) by (simp add: crash)
  moreover have "stored_entries d' = stored_entries d" by (simp add: d'_def crash stored_entries_def)
  ultimately show ?thesis unfolding reply by (simp add: crash)
qed

text \<open>C14. A request is logged at most once, as what it was answered: in any run of a deployment of \<open>m\<close>
  workers, the entries in the database and those still to be written, counted together, have
  grown by at most one for each request that got its reply, the entry of that reply. And nothing
  is lost in a run in which no worker dies and every write finds the database up, but entries that
  do not fit their columns.\<close>

theorem logged_at_most_once:
  assumes "\<forall>k. home k < m" "\<forall>e\<in>set es. event_below m n e"
  shows "stored_entries (run_deployment tasks home es d) + pending_entries m (run_deployment tasks home es d)
        + reply_entries tasks n d
      \<subseteq># stored_entries d + pending_entries m d + reply_entries tasks n (run_deployment tasks home es d)
    \<and> ((\<forall>e\<in>set es. loses_nothing e) \<longrightarrow>
        stored_entries (run_deployment tasks home es d)
          + filter_mset entry_fits (pending_entries m (run_deployment tasks home es d) + reply_entries tasks n d) =
        stored_entries d + filter_mset entry_fits (pending_entries m d
          + reply_entries tasks n (run_deployment tasks home es d)))"
  using assms(2)
proof (induction es arbitrary: d)
  case (Cons e es)
  let ?d = "deploy_step tasks home e d" and ?f = "run_deployment tasks home (e # es) d"
  have "event_below m n e" using Cons.prems by simp
  note one = deploy_step_entries [OF assms(1) this, of tasks d]
  have IH: "stored_entries ?f + pending_entries m ?f + reply_entries tasks n ?d
      \<subseteq># stored_entries ?d + pending_entries m ?d + reply_entries tasks n ?f"
    "(\<forall>e\<in>set es. loses_nothing e) \<Longrightarrow>
      stored_entries ?f + filter_mset entry_fits (pending_entries m ?f + reply_entries tasks n ?d) =
      stored_entries ?d + filter_mset entry_fits (pending_entries m ?d + reply_entries tasks n ?f)"
    using Cons.IH [of ?d] Cons.prems by simp_all
  let ?F = "filter_mset entry_fits"
  have "stored_entries ?f + pending_entries m ?f + reply_entries tasks n d
      \<subseteq># stored_entries d + pending_entries m d + reply_entries tasks n ?f"
    using subset_mset.add_mono [OF IH(1) conjunct1 [OF one]] by (simp add: ac_simps)
  moreover have "stored_entries ?f + ?F (pending_entries m ?f + reply_entries tasks n d) =
      stored_entries d + ?F (pending_entries m d + reply_entries tasks n ?f)" if "\<forall>e\<in>set (e # es). loses_nothing e"
    using arg_cong2 [OF IH(2) conjunct2 [OF one, rule_format], of "(+)"] that by (simp add: ac_simps)
  ultimately show ?case by blast
qed simp

section \<open>Failures spread over the workers\<close>

lemma view_put_back [simp]: "view p (put_back p w d) = w" "view p (d\<lparr>dp_stages := x\<rparr>) = view p d"
  by (simp_all add: view_def put_back_def)

lemma put_back_twice [simp]:
  "put_back p w' ((put_back p w d)\<lparr>dp_stages := x\<rparr>) = (put_back p w' d)\<lparr>dp_stages := x\<rparr>"
  by (simp add: put_back_def)

text \<open>A request that runs without interruption runs as in theory Interleaving, on its worker.\<close>

lemma serve_alone:
  assumes "dp_stages d k = Some stage"
  shows "\<exists>stage' w. task_steps (Suc n) (fst (tasks k)) (snd (tasks k)) (stage, view (home k) d) = (stage', w)
    \<and> run_deployment tasks home (replicate (Suc n) (Serve k)) d =
        (put_back (home k) w d)\<lparr>dp_stages := (dp_stages d)(k \<mapsto> stage')\<rparr>"
  using assms
proof (induction n arbitrary: d stage)
  case 0
  then show ?case by (cases "task_step (fst (tasks k)) (snd (tasks k)) stage (view (home k) d)") (simp add: deploy_step.simps(1) del: fun_upd_apply)
next
  case (Suc n)
  obtain stage1 w1 where t: "task_step (fst (tasks k)) (snd (tasks k)) stage (view (home k) d) = (stage1, w1)" by fastforce
  let ?d = "(put_back (home k) w1 d)\<lparr>dp_stages := (dp_stages d)(k \<mapsto> stage1)\<rparr>"
  have d: "deploy_step tasks home (Serve k) d = ?d" using Suc.prems t by (simp add: deploy_step.simps(1))
  have "dp_stages ?d k = Some stage1" by simp
  from Suc.IH [OF this] obtain stage' w where
    "task_steps (Suc n) (fst (tasks k)) (snd (tasks k)) (stage1, w1) = (stage', w)"
    "run_deployment tasks home (replicate (Suc n) (Serve k)) ?d = (put_back (home k) w d)\<lparr>dp_stages := (dp_stages d)(k \<mapsto> stage')\<rparr>"
    by (auto simp del: fun_upd_apply replicate.simps task_steps.simps)
  then show ?case using t d by (intro exI [of _ stage'] exI [of _ w]) (simp del: fun_upd_apply)
qed

definition fails_publicly :: "'r env \<Rightarrow> request \<Rightarrow> bool" where
  "fails_publicly env rq \<longleftrightarrow> is_public AUTH_PUBLIC_PATH_PREFIXES (rq_path rq)
   \<and> (\<exists>path msg. route_of (rq_method rq) (rq_path rq) = Full (Proxy_Route path)
        \<and> ev_upstream env (upstream_call (ev_settings env) path rq) = Raises (RequestError msg))"

lemma failing_steps:
  assumes "fails_publicly env rq" "cb_state (w_breaker w) = CLOSED"
    and "cb_failures (w_breaker w) + 1 < cb_threshold (w_breaker w)"
  shows "\<exists>stage call w'. task_steps 7 env rq (Arrived, w) = (stage, w')
    \<and> w_breaker w' = (w_breaker w)\<lparr>cb_failures := cb_failures (w_breaker w) + 1\<rparr> \<and> w_outbox w' = w_outbox w @ [call]"
proof -
  obtain path msg where up: "route_of (rq_method rq) (rq_path rq) = Full (Proxy_Route path)"
    "ev_upstream env (upstream_call (ev_settings env) path rq) = Raises (RequestError msg)"
    using assms(1) by (auto simp: fails_publicly_def)
  have "is_public AUTH_PUBLIC_PATH_PREFIXES (rq_path rq)" using assms(1) by (simp add: fails_publicly_def)
  then show ?thesis
    using assms(2,3) up
    by (simp add: numeral_eq_Suc cb_admit_def cb_failure_def do_upstream_request_def record_result_def leave_route_def
        handle_exception_def limit_headers_def leave_stack_def schedule_log_def start_state_def fresh_state_def Let_def)
qed

text \<open>Of requests that fail one after the other, with the upstream down, no worker's circuit opens while
  each worker has served fewer than five: the failures of the deployment do not add up.\<close>

lemma failures_spread:
  assumes "\<forall>k<n. fails_publicly (fst (tasks k)) (snd (tasks k))"
    and "\<forall>p. card {k. k < n \<and> home k = p} < 5"
    and "dp_workers d = (\<lambda>p. fresh_worker)" "dp_stages d = (\<lambda>k. Some Arrived)"
  shows "length (dp_outbox (run_deployment tasks home (concat (map (\<lambda>k. replicate 7 (Serve k)) [0..<n])) d)) =
      length (dp_outbox d) + n
    \<and> (\<forall>p. wk_breaker (dp_workers (run_deployment tasks home (concat (map (\<lambda>k. replicate 7 (Serve k)) [0..<n])) d) p) =
        upstream_breaker\<lparr>cb_failures := int (card {k. k < n \<and> home k = p})\<rparr>)"
proof -
  let ?run = "\<lambda>i. run_deployment tasks home (concat (map (\<lambda>k. replicate 7 (Serve k)) [0..<i])) d"
  let ?b = "\<lambda>i p. upstream_breaker\<lparr>cb_failures := int (card {k. k < i \<and> home k = p})\<rparr>"
  have "(\<forall>k\<ge>i. dp_stages (?run i) k = Some Arrived) \<and> length (dp_outbox (?run i)) = length (dp_outbox d) + i
      \<and> (\<forall>p. wk_breaker (dp_workers (?run i) p) = ?b i p)" if "i \<le> n" for i
    using that
  proof (induction i)
    case 0
    have "upstream_breaker\<lparr>cb_failures := 0\<rparr> = upstream_breaker" by (simp add: upstream_breaker_def new_breaker_def)
    then show ?case using assms(3,4) by (simp add: fresh_worker_def)
  next
    case (Suc i)
    let ?d = "?run i"
    have fin: "finite {k. k < n \<and> home k = home i}" by simp
    have "{k. k < Suc i \<and> home k = p} = (if home i = p then insert i {k. k < i \<and> home k = p} else {k. k < i \<and> home k = p})" for p
      by (auto simp: less_Suc_eq)
    then have card: "card {k. k < Suc i \<and> home k = p} = card {k. k < i \<and> home k = p} + of_bool (home i = p)" for p by simp
    have "card {k. k < Suc i \<and> home k = home i} \<le> card {k. k < n \<and> home k = home i}"
      using Suc.prems by (intro card_mono fin) auto
    then have below: "card {k. k < i \<and> home k = home i} + 1 < 5"
      using assms(2) [rule_format, of "home i"] card [of "home i"] by simp
    have arrived: "dp_stages ?d i = Some Arrived" and b: "w_breaker (view (home i) ?d) = ?b i (home i)"
      using Suc by simp_all
    have closed: "cb_state (w_breaker (view (home i) ?d)) = CLOSED"
      "cb_failures (w_breaker (view (home i) ?d)) + 1 < cb_threshold (w_breaker (view (home i) ?d))"
      unfolding b using below by (simp_all add: upstream_breaker_def new_breaker_def)
    have "fails_publicly (fst (tasks i)) (snd (tasks i))" using assms(1) Suc.prems by simp
    from failing_steps [OF this closed] obtain stage call w where
      w: "task_steps 7 (fst (tasks i)) (snd (tasks i)) (Arrived, view (home i) ?d) = (stage, w)"
      "w_breaker w = ?b (Suc i) (home i)" "w_outbox w = dp_outbox ?d @ [call]"
      unfolding b by (auto simp: card)
    have "?run (Suc i) = run_deployment tasks home (replicate 7 (Serve i)) ?d"
      by (simp add: run_deployment_def)
    also have "\<dots> = (put_back (home i) w ?d)\<lparr>dp_stages := (dp_stages ?d)(i \<mapsto> stage)\<rparr>"
      using serve_alone [OF arrived, of 6 tasks home] w(1) by (simp del: replicate.simps task_steps.simps)
    finally have run: "?run (Suc i) = (put_back (home i) w ?d)\<lparr>dp_stages := (dp_stages ?d)(i \<mapsto> stage)\<rparr>" .
    have "wk_breaker (dp_workers (?run (Suc i)) p) = ?b (Suc i) p" for p
      unfolding run using w(2) Suc card [of p] by (cases "p = home i") simp_all
    then show ?case unfolding run using w(3) Suc by simp
  qed
  then show ?thesis by blast
qed

section \<open>Examples\<close>

lemma demo_waiting: "waiting demo_home p demo_deployment = {}"
  by (simp add: waiting_def waits_def demo_deployment_def)

theorem worker_runs_breaker_witness:
  "\<exists>evs. cb_run (start_sys 5 60) evs (worker_view demo_home 0 (run_deployment demo_tasks demo_home
      (concat (replicate 7 [Serve 0, Serve 1]) @ [Crash 1]) demo_deployment))"
proof -
  have "worker_view demo_home 0 demo_deployment = start_sys 5 60"
    unfolding worker_view_def demo_waiting
    by (simp add: demo_deployment_def fresh_worker_def start_sys_def upstream_breaker_def)
  moreover have "finite (waiting demo_home 0 demo_deployment)" by (simp add: demo_waiting)
  ultimately show ?thesis
    using worker_runs_breaker [of demo_home 0 demo_deployment "concat (replicate 7 [Serve 0, Serve 1]) @ [Crash 1]" demo_tasks]
    by auto
qed

theorem open_worker_sends_nothing_witness:
  "sent_for (\<lambda>k. demo_home k = 0) demo_tasks demo_home (concat (replicate 7 [Serve 0, Serve 1]) @ [Crash 1])
     (demo_deployment\<lparr>dp_workers := (\<lambda>p. fresh_worker\<lparr>wk_breaker := (new_breaker 5 60)\<lparr>cb_state := OPEN, cb_failures := 5,
         cb_opened_at := 490\<rparr>\<rparr>)\<rparr>) = 0"
proof -
  let ?b = "(new_breaker 5 60)\<lparr>cb_state := OPEN, cb_failures := 5, cb_opened_at := 490\<rparr>"
  let ?d = "demo_deployment\<lparr>dp_workers := (\<lambda>p. fresh_worker\<lparr>wk_breaker := ?b\<rparr>)\<rparr>"
  have "fl64 10 = 10" using fl64_int [of 10] by simp
  then have "within_recovery ?b 500" by (simp add: within_recovery_def new_breaker_def)
  then have times: "within_recovery ?b (ev_admit_at demo_env)" "within_recovery ?b (ev_end_at demo_env)"
    by (simp_all add: demo_env_def)
  have "finite (waiting demo_home 0 ?d)" by (simp add: waiting_def waits_def demo_deployment_def)
  moreover have "cb_inv (wk_breaker (dp_workers ?d 0))" "cb_state (wk_breaker (dp_workers ?d 0)) = OPEN"
    by (simp_all add: cb_inv_def new_breaker_def)
  ultimately show ?thesis
    using open_worker_sends_nothing [of demo_home 0 ?d "concat (replicate 7 [Serve 0, Serve 1]) @ [Crash 1]" demo_tasks] times
    by simp
qed

theorem counters_count_own_verdicts_witness:
  "wk_allowed (dp_workers (run_deployment demo_tasks demo_home (concat (replicate 7 [Serve 0, Serve 1]) @ [Crash 1])
      demo_deployment) 0) ''free'' =
    trace_sum (deploy_step demo_tasks demo_home) (verdicts demo_tasks demo_home 0 ''free'' True)
      (concat (replicate 7 [Serve 0, Serve 1]) @ [Crash 1]) demo_deployment"
proof -
  have "Crash 0 \<notin> set (concat (replicate 7 [Serve 0, Serve 1]) @ [Crash 1])" by simp
  from counters_count_own_verdicts [OF this, of demo_tasks demo_home demo_deployment "''free''"]
  have "wk_allowed (dp_workers (run_deployment demo_tasks demo_home (concat (replicate 7 [Serve 0, Serve 1]) @ [Crash 1])
      demo_deployment) 0) ''free'' = wk_allowed (dp_workers demo_deployment 0) ''free'' +
    trace_sum (deploy_step demo_tasks demo_home) (verdicts demo_tasks demo_home 0 ''free'' True)
      (concat (replicate 7 [Serve 0, Serve 1]) @ [Crash 1]) demo_deployment" by (rule conjunct1)
  moreover have "wk_allowed (dp_workers demo_deployment 0) ''free'' = 0" by (simp add: demo_deployment_def fresh_worker_def)
  ultimately show ?thesis by (simp only: add_0)
qed

theorem logged_at_most_once_witness:
  "stored_entries (run_deployment demo_tasks demo_home (concat (replicate 7 [Serve 0, Serve 1]) @ [Crash 1, Write 0 0 True 1 7])
      demo_deployment)
   \<subseteq># reply_entries demo_tasks 2 (run_deployment demo_tasks demo_home
        (concat (replicate 7 [Serve 0, Serve 1]) @ [Crash 1, Write 0 0 True 1 7]) demo_deployment)"
proof -
  let ?es = "concat (replicate 7 [Serve 0, Serve 1]) @ [Crash 1, Write 0 0 True 1 7]"
  have "\<forall>k. demo_home k < 2" "\<forall>e\<in>set ?es. event_below 2 2 e" by (simp_all add: demo_home_less)
  note subset = conjunct1 [OF logged_at_most_once [OF this, of demo_tasks demo_deployment]]
  have none: "stored_entries demo_deployment = {#}" "pending_entries 2 demo_deployment = {#}"
    by (simp_all add: stored_entries_def pending_entries_def demo_deployment_def fresh_worker_def)
  show ?thesis
    by (rule subset_mset.order_trans [OF mset_subset_eq_add_left subset [unfolded none add_0 add.assoc]])
qed

text \<open>Eight failures one after the other, and both circuits closed.\<close>

lemma failures_spread_witness:
  "let tasks = (\<lambda>k. (demo_env\<lparr>ev_upstream := (\<lambda>call. Raises (RequestError ''connection refused''))\<rparr>,
                     sample_request ''GET'' ''/authors'' []));
       d = run_deployment tasks demo_home (concat (map (\<lambda>k. replicate 7 (Serve k)) [0..<8])) demo_deployment
   in length (dp_outbox d) = 8 \<and> (\<forall>p. cb_state (wk_breaker (dp_workers d p)) = CLOSED)"
proof -
  let ?tasks = "\<lambda>k :: nat. (demo_env\<lparr>ev_upstream := (\<lambda>call. Raises (RequestError ''connection refused''))\<rparr>,
      sample_request ''GET'' ''/authors'' [])"
  have "\<forall>k<8. fails_publicly (fst (?tasks k)) (snd (?tasks k))"
    using path_get(2,4) by (simp add: fails_publicly_def sample_request_def)
  moreover have "card {k. k < 8 \<and> demo_home k = p} < 5" for p
  proof -
    have "{k. k < 8 \<and> demo_home k = p} = set (filter (\<lambda>k. demo_home k = p) [0..<8])" by auto
    also have "card \<dots> \<le> length (filter (\<lambda>k. demo_home k = p) [0..<8])" by (rule card_length)
    also have "\<dots> < 5" by (cases "p = 0"; cases "p = 1") (simp_all add: demo_home_def upt_rec)
    finally show ?thesis .
  qed
  ultimately show ?thesis
    using failures_spread [of 8 ?tasks demo_home demo_deployment] unfolding Let_def
    by (simp add: demo_deployment_def upstream_breaker_def new_breaker_def del: upt_rec_numeral concat.simps list.map)
qed

end
