(* ===== verification/Gateway_History.thy ===== *)
theory Gateway_History
  imports Gateway_Quota
begin

text \<open>
  Two facts about whole histories of the gateway, in the steps of theory Gateway_Quota: what the
  tables hold always fits their columns, and the scheduled log writes run dry.
\<close>

definition history ::
  "(string list \<Rightarrow> 'r middleware) \<Rightarrow> (string list \<Rightarrow> 'r middleware) \<Rightarrow> 'r event list \<Rightarrow> 'r world \<Rightarrow> 'r world" where
  "history trusted_host cors es w = fold (step trusted_host cors) es w"

lemma history_simps [simp]:
  "history trusted_host cors [] w = w"
  "history trusted_host cors (e # es) w = history trusted_host cors es (step trusted_host cors e w)"
  by (simp_all add: history_def)

section \<open>The tables fit their columns\<close>

definition db_typed :: "db \<Rightarrow> bool" where
  "db_typed d \<longleftrightarrow> quotas_ok d \<and> (\<forall>r\<in>set (db_logs d). row_fits r)"

fun plain_event ::
  "(string list \<Rightarrow> 'r middleware) \<Rightarrow> (string list \<Rightarrow> 'r middleware) \<Rightarrow> 'r event \<Rightarrow> bool" where
  "plain_event trusted_host cors (Request env rq) \<longleftrightarrow> plain_request env trusted_host cors rq"
| "plain_event trusted_host cors (Background _ _ _ _) \<longleftrightarrow> True"

lemma store_write_typed: "db_typed d \<Longrightarrow> db_typed (store_write up i t e d)"
  by (auto simp: db_typed_def store_write_def Let_def quotas_ok_def)

lemma step_typed:
  assumes "plain_event trusted_host cors e" "db_typed (w_db w)"
  shows "db_typed (w_db (step trusted_host cors e w))"
proof (cases e)
  case (Request env rq)
  have "plain_request env trusted_host cors rq" using assms(1) by (simp add: Request)
  from app_effect [OF this, of w] show ?thesis
    using assms(2) unfolding Request step.simps route_effect.simps db_typed_def by metis
next
  case (Background i up row_id t)
  then show ?thesis using assms(2) store_write_typed by (simp add: run_log_write_def safe_write_def)
qed

interpretation tables: kept_by_steps "step trusted_host cors" "plain_event trusted_host cors" "\<lambda>w. db_typed (w_db w)"
  for trusted_host cors
  by unfold_locales (rule step_typed)

text \<open>C13. The database stays well typed: over any history of requests and background writes, whatever the
  requests contain, every quota row is filed under its user id and holds a limit from 1 to a
  million and texts within their columns, and every log row fits the columns of its table.\<close>

theorem database_typed:
  assumes "\<forall>e\<in>set es. plain_event trusted_host cors e" "db_typed (w_db w)"
  shows "db_typed (w_db (history trusted_host cors es w))"
  unfolding history_def by (rule tables.history_keeps [OF assms])

theorem database_typed_witness:
  "db_typed (w_db (history keep keep [Request demo_env (alice_request ''/get''), Background 0 True 1 7]
     (demo_world demo_empty)))"
  by (rule database_typed)
     (auto simp: demo_plain db_typed_def quotas_ok_def demo_world_def)

section \<open>The log writes run dry\<close>

text \<open>Background runs of some of the scheduled writes, in any order, each of which finds a write to
  run.\<close>

fun runs_left :: "nat \<Rightarrow> 'r event list \<Rightarrow> bool" where
  "runs_left n [] \<longleftrightarrow> True"
| "runs_left n (Request env rq # es) \<longleftrightarrow> False"
| "runs_left n (Background i up row_id t # es) \<longleftrightarrow> i < n \<and> runs_left (n - 1) es"

fun finds_db_up :: "'r event \<Rightarrow> bool" where
  "finds_db_up (Request env rq) \<longleftrightarrow> True"
| "finds_db_up (Background i up row_id t) \<longleftrightarrow> up"

lemma background_step:
  assumes "i < length (w_tasks w)" "w' = step trusted_host cors (Background i up row_id t) w"
  shows "length (w_tasks w') = length (w_tasks w) - 1"
    and "up \<Longrightarrow> mset (map entry_of_row (db_logs (w_db w'))) + filter_mset entry_fits (mset (w_tasks w')) =
      mset (map entry_of_row (db_logs (w_db w))) + filter_mset entry_fits (mset (w_tasks w))"
  using log_write_entries [OF assms(1)] assms(2) by simp_all

text \<open>No log write is left behind, lost or doubled: any order of background runs comes to an end after
  at most as many runs as there are scheduled writes, and when all have run and the database was
  up, nothing is scheduled any more and the log has gained exactly the entries that fit their
  columns, each once.\<close>

lemma log_writes_run_dry:
  assumes "runs_left (length (w_tasks w)) es"
  shows "length es \<le> length (w_tasks w)
    \<and> length (w_tasks (history trusted_host cors es w)) = length (w_tasks w) - length es
    \<and> (length es = length (w_tasks w) \<and> (\<forall>e\<in>set es. finds_db_up e) \<longrightarrow>
        mset (map entry_of_row (db_logs (w_db (history trusted_host cors es w)))) =
        mset (map entry_of_row (db_logs (w_db w))) + filter_mset entry_fits (mset (w_tasks w)))"
proof -
  have gen: "length es \<le> length (w_tasks w)
      \<and> length (w_tasks (history trusted_host cors es w)) = length (w_tasks w) - length es
      \<and> ((\<forall>e\<in>set es. finds_db_up e) \<longrightarrow>
          mset (map entry_of_row (db_logs (w_db (history trusted_host cors es w))))
            + filter_mset entry_fits (mset (w_tasks (history trusted_host cors es w))) =
          mset (map entry_of_row (db_logs (w_db w))) + filter_mset entry_fits (mset (w_tasks w)))"
    using assms
  proof (induction es arbitrary: w)
    case (Cons e es)
    then obtain i up row_id t where e: "e = Background i up row_id t" and i: "i < length (w_tasks w)"
      and left: "runs_left (length (w_tasks w) - 1) es" by (cases e) simp_all
    let ?w = "step trusted_host cors e w"
    note step = background_step [OF i refl, where trusted_host = trusted_host and cors = cors and up = up and row_id = row_id and t = t, folded e]
    from Cons.IH [of ?w] left show ?case
      using i step unfolding history_simps by (auto simp: e)
  qed simp
  show ?thesis
  proof (intro conjI impI)
    assume all: "length es = length (w_tasks w) \<and> (\<forall>e\<in>set es. finds_db_up e)"
    then have "w_tasks (history trusted_host cors es w) = []" using gen by simp
    then show "mset (map entry_of_row (db_logs (w_db (history trusted_host cors es w)))) =
        mset (map entry_of_row (db_logs (w_db w))) + filter_mset entry_fits (mset (w_tasks w))"
      using gen all by simp
  qed (use gen in simp_all)
qed

lemma log_writes_run_dry_witness:
  "let e = \<lparr>le_request_id = ''r'', le_user_id = ''a'', le_endpoint = ''/x'', le_method = ''GET'',
            le_status_code = 200, le_latency_ms = 3, le_rate_limited = False, le_ip = None\<rparr>;
       w = (demo_world demo_empty)\<lparr>w_tasks := [e, e\<lparr>le_user_id := ''b''\<rparr>]\<rparr>
   in mset (map entry_of_row (db_logs (w_db (history keep keep [Background 1 True 1 7, Background 0 True 2 8] w)))) =
      filter_mset entry_fits (mset (w_tasks w))"
proof -
  let ?e = "\<lparr>le_request_id = ''r'', le_user_id = ''a'', le_endpoint = ''/x'', le_method = ''GET'',
     le_status_code = 200, le_latency_ms = 3, le_rate_limited = False, le_ip = None\<rparr>"
  let ?w = "(demo_world demo_empty)\<lparr>w_tasks := [?e, ?e\<lparr>le_user_id := ''b''\<rparr>]\<rparr>"
  have "runs_left (length (w_tasks ?w)) [Background 1 True 1 7, Background 0 True 2 8 :: demo_redis event]" by simp
  from log_writes_run_dry [OF this, of keep keep] have "mset (map entry_of_row (db_logs (w_db
        (history keep keep [Background 1 True 1 7, Background 0 True 2 8] ?w)))) =
      mset (map entry_of_row (db_logs (w_db ?w))) + filter_mset entry_fits (mset (w_tasks ?w))" by simp
  moreover have "mset (map entry_of_row (db_logs (w_db ?w))) = {#}" by (simp add: demo_world_def)
  ultimately show ?thesis unfolding Let_def by (simp only: add_0)
qed

end
