(* ===== verification/Response_Types.thy ===== *)
theory Response_Types
  imports App_Properties
begin

text \<open>
  The response schemas of \<open>app/models/schemas.py\<close> as types of JSON values, and what the assembled
  application sends: the routes with a \<open>response_model\<close>, and the error bodies.
\<close>

section \<open>Types of JSON values\<close>

text \<open>\<open>Model_T\<close> lists a model's fields with whether they must be there; no other key may be.\<close>

datatype json_type =
    Str_T
  | Int_T
  | Float_T
  | Bool_T
  | Dict_T
  | Literal_T string
  | Optional_T json_type
  | List_T json_type
  | Model_T "entry list"
and entry = Entry string bool json_type

fun entry_name :: "entry \<Rightarrow> string" where
  "entry_name (Entry name required ty) = name"

fun has_type :: "json_type \<Rightarrow> json \<Rightarrow> bool"
  and has_entries :: "entry list \<Rightarrow> (string \<times> json) list \<Rightarrow> bool" where
  "has_type Str_T j \<longleftrightarrow> (case j of JStr s \<Rightarrow> True | _ \<Rightarrow> False)"
| "has_type Int_T j \<longleftrightarrow> (case j of JInt n \<Rightarrow> True | _ \<Rightarrow> False)"
| "has_type Float_T j \<longleftrightarrow> (case j of JFloat x \<Rightarrow> True | JInt n \<Rightarrow> True | _ \<Rightarrow> False)"
| "has_type Bool_T j \<longleftrightarrow> (case j of JBool b \<Rightarrow> True | _ \<Rightarrow> False)"
| "has_type Dict_T j \<longleftrightarrow> (case j of JObj kvs \<Rightarrow> True | _ \<Rightarrow> False)"
| "has_type (Literal_T l) j \<longleftrightarrow> j = JStr l"
| "has_type (Optional_T ty) j \<longleftrightarrow> j = JNull \<or> has_type ty j"
| "has_type (List_T ty) j \<longleftrightarrow> (case j of JArr js \<Rightarrow> list_all (has_type ty) js | _ \<Rightarrow> False)"
| "has_type (Model_T entries) j \<longleftrightarrow>
     (case j of
        JObj kvs \<Rightarrow> list_all (\<lambda>(k, v). k \<in> set (map entry_name entries)) kvs \<and> has_entries entries kvs
      | _ \<Rightarrow> False)"
| "has_entries [] kvs \<longleftrightarrow> True"
| "has_entries (Entry name required ty # entries) kvs \<longleftrightarrow>
     (case map_of kvs name of None \<Rightarrow> \<not> required | Some v \<Rightarrow> has_type ty v) \<and> has_entries entries kvs"

section \<open>The schemas\<close>

text \<open>A \<open>datetime\<close> is sent as a string.\<close>

definition TokenResponse :: json_type where
  "TokenResponse = Model_T
     [Entry ''access_token'' True Str_T, Entry ''token_type'' True (Literal_T ''bearer''),
      Entry ''expires_in'' True Int_T]"

definition QuotaOverrideResponse :: json_type where
  "QuotaOverrideResponse = Model_T
     [Entry ''user_id'' True Str_T, Entry ''custom_limit'' True Int_T, Entry ''reason'' True (Optional_T Str_T),
      Entry ''created_at'' True Str_T, Entry ''expires_at'' True (Optional_T Str_T)]"

definition RequestLogResponse :: json_type where
  "RequestLogResponse = Model_T
     [Entry ''request_id'' True Str_T, Entry ''user_id'' True Str_T, Entry ''endpoint'' True Str_T,
      Entry ''method'' True Str_T, Entry ''status_code'' True Int_T, Entry ''latency_ms'' True Int_T,
      Entry ''rate_limited'' True Bool_T, Entry ''ip'' True (Optional_T Str_T), Entry ''created_at'' True Str_T]"

definition StatsResponse :: json_type where
  "StatsResponse = Model_T
     [Entry ''total_requests'' True Int_T, Entry ''total_rate_limited'' True Int_T,
      Entry ''avg_latency_ms'' True Float_T, Entry ''period_start'' True Str_T, Entry ''period_end'' True Str_T]"

definition ErrorBody :: json_type where
  "ErrorBody = Model_T
     [Entry ''code'' True Str_T, Entry ''message'' True Str_T, Entry ''details'' False (Optional_T Dict_T)]"

definition ErrorResponse :: json_type where
  "ErrorResponse = Model_T
     [Entry ''error'' True ErrorBody, Entry ''request_id'' False (Optional_T Str_T)]"

text \<open>The \<open>response_model\<close> of a route.\<close>

fun response_model :: "endpoint \<Rightarrow> json_type option" where
  "response_model Token_Route = Some TokenResponse"
| "response_model (Put_Quota u) = Some QuotaOverrideResponse"
| "response_model (Get_Quota u) = Some QuotaOverrideResponse"
| "response_model Logs_Route = Some (List_T RequestLogResponse)"
| "response_model Stats_Route = Some StatsResponse"
| "response_model _ = None"

lemmas schema_simps = TokenResponse_def QuotaOverrideResponse_def RequestLogResponse_def StatsResponse_def
  ErrorBody_def ErrorResponse_def

section \<open>What the routes build\<close>

lemma token_response_type: "has_type TokenResponse (token_response t n)"
  by (simp add: schema_simps token_response_def)

lemma quota_response_type: "has_type QuotaOverrideResponse (quota_response C q)"
  by (simp add: schema_simps quota_response_def split: option.split)

lemma log_response_type: "has_type RequestLogResponse (log_response C e)"
  by (simp add: schema_simps log_response_def split: option.split)

lemma error_response_type: "has_type ErrorResponse (build_error_response exc request_id)"
  by (simp add: schema_simps build_error_response_def split: option.split)

lemma endpoint_type:
  assumes "run_endpoint env e rq st w = (Inr rs, st', w')" "response_model e = Some ty"
  shows "\<exists>j. rs_status rs = 200 \<and> rs_body rs = JsonBody j \<and> has_type ty j"
proof (cases e)
  case Stats_Route
  then show ?thesis
    using assms by (auto simp: run_endpoint_def require_admin_def get_stats_def schema_simps Let_def split: if_splits)
next
  case Logs_Route
  then show ?thesis
    using assms by (auto simp: run_endpoint_def require_admin_def list_logs_def log_response_type list_all_iff Let_def
        split: if_splits option.splits)
next
  case Token_Route
  then show ?thesis
    using assms by (auto simp: run_endpoint_def with_body_def token_dependencies_def require_admin_def mint_token_def
        token_response_type split: if_splits body_in.splits option.splits sum.splits prod.splits)
next
  case (Put_Quota u)
  then show ?thesis
    using assms by (auto simp: run_endpoint_def with_body_def require_admin_def upsert_quota_def Let_def
        quota_response_type split: if_splits body_in.splits option.splits)
next
  case (Get_Quota u)
  then show ?thesis
    using assms by (auto simp: run_endpoint_def require_admin_def get_quota_def quota_response_type
        split: if_splits option.splits)
qed (use assms in simp_all)

section \<open>What the application sends\<close>

text \<open>Routes that answer with a body of their own whatever the status.\<close>

fun free_answer :: "endpoint \<Rightarrow> bool" where
  "free_answer (Docs_Page path) = True"
| "free_answer Ready_Route = True"
| "free_answer Metrics_Route = True"
| "free_answer _ = False"

definition detail_object :: "json \<Rightarrow> bool" where
  "detail_object j \<longleftrightarrow> (\<exists>d. j = JObj [(''detail'', d)])"

definition typed_answer :: "match \<Rightarrow> bool \<Rightarrow> response \<Rightarrow> bool" where
  "typed_answer m quiet rs \<longleftrightarrow>
     (\<forall>e ty. m = Full e \<and> response_model e = Some ty \<and> rs_status rs = 200 \<longrightarrow>
        (\<exists>j. rs_body rs = JsonBody j \<and> has_type ty j))
   \<and> (quiet \<and> 400 \<le> rs_status rs \<and> (\<forall>e. m = Full e \<longrightarrow> \<not> free_answer e) \<longrightarrow>
        (\<exists>j. rs_body rs = JsonBody j \<and> (has_type ErrorResponse j \<or> detail_object j)))"

lemma typed_answer_same:
  "typed_answer m quiet rs \<Longrightarrow> rs_status rs' = rs_status rs \<Longrightarrow> rs_body rs' = rs_body rs \<Longrightarrow> typed_answer m quiet rs'"
  unfolding typed_answer_def by metis

lemma json_error_typed:
  "status \<noteq> 200 \<Longrightarrow> has_type ErrorResponse j \<or> detail_object j \<Longrightarrow> typed_answer m quiet (json_response status j headers)"
  by (auto simp: typed_answer_def)

lemma gateway_error_typed: "typed_answer m quiet (handle_gateway_error request_id exc)"
proof -
  have "status_code (exc_class exc) \<noteq> 200" by (cases "exc_class exc") simp_all
  then show ?thesis unfolding handle_gateway_error_def by (rule json_error_typed) (simp add: error_response_type)
qed

lemma endpoint_success:
  assumes "run_endpoint env e rq st w = (Inr rs, st', w')" "\<not> free_answer e"
  shows "rs_status rs < 400 \<or> w_outbox w' \<noteq> w_outbox w"
proof (cases e)
  case (Proxy_Route path)
  obtain adm b where adm: "cb_admit (ev_admit_at env) (w_breaker w) = (adm, b)" by fastforce
  have "proxy env path rq st w = (Inr rs, st', w')" using assms(1) by (simp add: Proxy_Route run_endpoint_def)
  moreover from this have adm_True: "adm" using adm by (cases adm) (simp_all add: proxy_rejected)
  ultimately show ?thesis using proxy_outbox [of env path rq st w] adm by simp
qed (use assms in \<open>auto simp: run_endpoint_def with_body_def token_dependencies_def require_admin_def mint_token_def
       upsert_quota_def get_quota_def delete_quota_def list_logs_def get_stats_def upstream_health_def
       health_def no_content_def Let_def
       split: if_splits body_in.splits option.splits sum.splits prod.splits\<close>)

lemma endpoint_http_status:
  assumes "run_endpoint env e rq st w = (Inl (HTTPException code d h), st', w')"
  shows "code \<noteq> 200"
proof (cases e)
  case (Proxy_Route path)
  obtain adm b where adm: "cb_admit (ev_admit_at env) (w_breaker w) = (adm, b)" by fastforce
  then show ?thesis using assms
    by (cases adm) (auto simp: Proxy_Route run_endpoint_def proxy_rejected proxy_admitted Let_def split: func_end.splits http_exc.splits)
qed (use assms in \<open>auto simp: run_endpoint_def with_body_def token_dependencies_def require_admin_def mint_token_def
       upsert_quota_def get_quota_def delete_quota_def list_logs_def get_stats_def upstream_health_def
       health_def ready_def metrics_def Let_def
       split: if_splits body_in.splits option.splits sum.splits prod.splits\<close>)

lemma routes_typed:
  assumes "routes env rq st w = (Inr rs, st', w')"
  shows "typed_answer (route_of (rq_method rq) (rq_path rq)) (w_outbox w' = w_outbox w) rs"
proof -
  obtain res st1 w1 where r: "router env rq st w = (res, st1, w1)" using prod_cases3 by blast
  have w1: "w' = w1" using assms final_exception_handlers [of env "router env" rq st w] by (simp add: routes_def r)
  show ?thesis
  proof (cases res)
    case (Inl x)
    have http: "code \<noteq> 200" if "x = HTTPException code d h" for code d h
      using r Inl that endpoint_http_status [of env _ rq st w code d h st1 w1]
      by (auto simp: router_def split: match.splits)
    show ?thesis
      using assms r Inl gateway_error_typed http
      by (cases x) (auto simp: routes_def exception_handlers_def detail_object_def intro!: json_error_typed)
  next
    case (Inr rs1)
    then obtain e where e: "route_of (rq_method rq) (rq_path rq) = Full e"
      "run_endpoint env e rq st w = (Inr rs, st1, w1)"
      using r assms by (auto simp: router_def routes_def exception_handlers_def split: match.splits)
    show ?thesis
      using endpoint_type [OF e(2)] endpoint_success [OF e(2)] by (auto simp: typed_answer_def e(1) w1)
  qed
qed

text \<open>An exception that reaches the client as a 500 is none of those with a handler.\<close>

lemma inner_unhandled:
  assumes "inner env rq st w = (Inl e, st', w')"
  shows "\<not> has_handler e"
proof (cases rule: inner_cases [of rq env st w])
  case public
  then show ?thesis using assms routes_unhandled by metis
next
  case (allowed c user_id tier result r)
  then show ?thesis using assms by (auto simp: on_response_def split: prod.splits sum.splits dest: routes_unhandled)
qed (use assms in auto)

text \<open>C12. Responses have their types: a route that declares a response model answers 200 only with a JSON
  body of that model, fields and no others; and an error of the gateway (a status from 400 on,
  without an upstream request, on no route that reports a state of its own) has a JSON body that
  is an \<open>ErrorResponse\<close> or FastAPI's object with a \<open>detail\<close>, which is not one; but when the
  application raises, for a reason that has no handler (the database is down, the token cannot be
  minted), the client gets a 500 in plain text, which is neither.\<close>

theorem responses_typed:
  assumes "plain_request env trusted_host cors rq"
    and "app env trusted_host cors rq w = (res, st, w')" "received res = Some rs"
  shows "(\<forall>e ty. route_of (rq_method rq) (rq_path rq) = Full e \<and> response_model e = Some ty \<and> rs_status rs = 200 \<longrightarrow>
        (\<exists>j. rs_body rs = JsonBody j \<and> has_type ty j))
    \<and> (w_outbox w' = w_outbox w \<and> 400 \<le> rs_status rs
        \<and> (\<forall>e. route_of (rq_method rq) (rq_path rq) = Full e \<longrightarrow> \<not> free_answer e) \<longrightarrow>
        (case res of
           Inr rs' \<Rightarrow> rs = rs' \<and> (\<exists>j. rs_body rs = JsonBody j
             \<and> (has_type ErrorResponse j \<and> \<not> detail_object j \<or> detail_object j \<and> \<not> has_type ErrorResponse j))
         | Inl e \<Rightarrow> \<not> has_handler e \<and> rs_status rs = 500 \<and> rs_body rs = RawBody ''Internal Server Error''))"
proof (cases res)
  case raised: (Inl e)
  obtain res1 st1 w1 where i: "inner env rq (start_state env rq) w = (res1, st1, w1)" using prod_cases3 by blast
  then have "res1 = Inl e" using assms(2) app_inner [OF assms(1) i] by (cases res1) (auto simp: raised)
  then have "\<not> has_handler e" using inner_unhandled i by metis
  moreover have "rs = server_error" using assms(3) by (simp add: received_Some raised)
  ultimately show ?thesis by (simp add: raised server_error_def)
next
  case answered: (Inr rs')
  have rs: "rs = rs'" using assms(3) by (simp add: received_Some answered)
  have a: "app env trusted_host cors rq w = (Inr rs, st, w')" using assms(2) by (simp add: answered rs)
  let ?m = "route_of (rq_method rq) (rq_path rq)"
  have detail: "\<not> (has_type ErrorResponse j \<and> detail_object j)" for j
    by (auto simp: detail_object_def schema_simps)
  obtain res st1 w1 where i: "inner env rq (start_state env rq) w = (res, st1, w1)" using prod_cases3 by blast
  then obtain rs1 where res: "res = Inr rs1" and same: "rs_status rs = rs_status rs1" "rs_body rs = rs_body rs1"
    and out: "w_outbox w' = w_outbox w1"
    using a app_inner [OF assms(1) i]
    by (cases res) (auto simp: add_security_headers_def schedule_log_def Let_def)
  have "typed_answer ?m (w_outbox w1 = w_outbox w) rs1"
  proof (cases rule: inner_cases [of rq env "start_state env rq" w])
    case public
    then show ?thesis using routes_typed i res by metis
  next
    case (refused exc)
    moreover have "status_code (exc_class exc) = 401" using authenticate_Inl [OF refused(2)] by simp
    ultimately show ?thesis
      using i res by (auto simp: auth_failure_response_def error_response_type intro!: json_error_typed)
  next
    case no_db
    then show ?thesis using i res by simp
  next
    case (limited c user_id tier result r)
    then show ?thesis
      using i res
      by (auto simp: limited_response_def limit_exceeded_def new_error_def error_response_type intro!: json_error_typed)
  next
    case (allowed c user_id tier result r)
    let ?st = "(start_state env rq)\<lparr>st_user_id := Some user_id, st_tier := Some tier, st_rate_limit_info := Some result\<rparr>"
    let ?w = "w\<lparr>w_redis := r, w_allowed := inc_counter tier (w_allowed w)\<rparr>"
    obtain res2 st2 w2 where rt: "routes env rq ?st ?w = (res2, st2, w2)" using prod_cases3 by blast
    then obtain rs2 where rs2: "res2 = Inr rs2" "rs1 = add_limit_headers result rs2" "w1 = w2"
      using i res allowed(8) by (cases res2) auto
    have "typed_answer ?m (w_outbox w2 = w_outbox w) rs2" using routes_typed [OF rt [unfolded rs2(1)]] by simp
    then show ?thesis
      unfolding rs2(2,3) by (rule typed_answer_same) (simp_all add: add_limit_headers_def Let_def)
  qed
  then have "(\<forall>e ty. ?m = Full e \<and> response_model e = Some ty \<and> rs_status rs = 200 \<longrightarrow>
        (\<exists>j. rs_body rs = JsonBody j \<and> has_type ty j))
    \<and> (w_outbox w' = w_outbox w \<and> 400 \<le> rs_status rs \<and> (\<forall>e. ?m = Full e \<longrightarrow> \<not> free_answer e) \<longrightarrow>
        (\<exists>j. rs_body rs = JsonBody j
           \<and> (has_type ErrorResponse j \<and> \<not> detail_object j \<or> detail_object j \<and> \<not> has_type ErrorResponse j)))"
    using detail by (auto simp: typed_answer_def same out)
  then show ?thesis unfolding answered sum.case rs [symmetric] by blast
qed

theorem responses_typed_witness:
  "(case fst (app demo_env keep keep (sample_request ''GET'' ''/get'' []) (demo_world demo_empty)) of
      Inr rs \<Rightarrow> (\<exists>j. rs_body rs = JsonBody j \<and> (has_type ErrorResponse j \<or> detail_object j))
    | Inl e \<Rightarrow> False)
   \<and> (\<exists>rs. received (fst (app (demo_env\<lparr>ev_db_up := False\<rparr>) keep keep (alice_request ''/get'') (demo_world demo_empty))) = Some rs
      \<and> rs_status rs = 500 \<and> rs_body rs = RawBody ''Internal Server Error'')"
proof
  let ?rq = "sample_request ''GET'' ''/get'' []"
  have path: "\<not> is_public AUTH_PUBLIC_PATH_PREFIXES (rq_path ?rq)" using path_get(1) by (simp add: sample_request_def)
  have no_token: "authenticate demo_env ?rq = Inl (new_error InvalidTokenError ''Missing or malformed Authorization header.'' None)"
    by (simp add: authenticate_def sample_request_def get_header_def startswith_def)
  obtain rs st w' where a: "app demo_env keep keep ?rq (demo_world demo_empty) = (Inr rs, st, w')"
    and status: "rs_status rs = 401" and out: "w_outbox w' = w_outbox (demo_world demo_empty)"
  proof -
    have i: "inner demo_env ?rq (start_state demo_env ?rq) (demo_world demo_empty) =
        (Inr (auth_failure_response (start_state demo_env ?rq)
           (new_error InvalidTokenError ''Missing or malformed Authorization header.'' None)),
         start_state demo_env ?rq, demo_world demo_empty)"
      using path no_token by (simp add: inner_def auth_dispatch_eq)
    show thesis
      using app_inner [OF demo_plain i]
      by (intro that) (auto simp: auth_failure_response_def new_error_def add_security_headers_def schedule_log_def Let_def)
  qed
  have "\<forall>e. route_of (rq_method ?rq) (rq_path ?rq) = Full e \<longrightarrow> \<not> free_answer e"
    using path_get by (simp add: sample_request_def)
  then show "case fst (app demo_env keep keep (sample_request ''GET'' ''/get'' []) (demo_world demo_empty)) of
      Inr rs \<Rightarrow> (\<exists>j. rs_body rs = JsonBody j \<and> (has_type ErrorResponse j \<or> detail_object j))
    | Inl e \<Rightarrow> False"
    using responses_typed [OF demo_plain a, of rs] status out a by (auto simp: received_Some)
next
  let ?env = "demo_env\<lparr>ev_db_up := False\<rparr>" and ?rq = "alice_request ''/get''"
  obtain res st w' where a: "app ?env keep keep ?rq (demo_world demo_empty) = (res, st, w')" using prod_cases3 by blast
  have res: "res = Inl Db_Exn" using alice_no_db(1) by (simp add: a)
  have plain: "plain_request ?env keep keep ?rq" using demo_plain [of ?rq] by (simp add: plain_request_def)
  have "w_outbox w' = w_outbox (demo_world demo_empty)" using alice_no_db(2) by (simp add: a)
  moreover have "\<forall>e. route_of (rq_method ?rq) (rq_path ?rq) = Full e \<longrightarrow> \<not> free_answer e" using path_get by simp
  moreover have "received res = Some server_error" "400 \<le> rs_status server_error"
    by (simp_all add: res received_Some server_error_def)
  ultimately show "\<exists>rs. received (fst (app ?env keep keep ?rq (demo_world demo_empty))) = Some rs
      \<and> rs_status rs = 500 \<and> rs_body rs = RawBody ''Internal Server Error''"
    using responses_typed [OF plain a, of server_error] a by (auto simp: res)
qed

end
