(* ===== verification/Quota_Races.thy ===== *)
theory Quota_Races
  imports Admin
begin

text \<open>
  \<open>PUT /admin/quota/{user_id}\<close> of \<open>app/routes/admin.py\<close> is three statements of the database with
  the event loop, and other workers, running in between: the SELECT, the flush and commit, and the
  refresh. Theory Admin runs them in one piece; here they are steps that interleave with those of
  other requests. A statement sees what is committed (PostgreSQL's default isolation); a flush
  that waits for a row or key of another transaction goes on when that one has committed, so flush
  and commit are one step.
\<close>

section \<open>Requests in flight\<close>

text \<open>A \<open>PUT\<close>: whose override, its body, and the server's clock at its commit.\<close>

record put =
  pt_user :: string
  pt_body :: QuotaOverrideCreate
  pt_now :: int

datatype put_pc =
    Not_Started
  | Selected "UserQuotaOverride option"
  | Flushed
  | Answered "UserQuotaOverride option"

type_synonym quotas = "string \<rightharpoonup> UserQuotaOverride"

text \<open>The UPDATE that the flush emits names the columns whose value is not the selected one, and
  is not emitted when there is none.\<close>

definition changed_columns :: "QuotaOverrideCreate \<Rightarrow> UserQuotaOverride \<Rightarrow> bool" where
  "changed_columns body old \<longleftrightarrow>
     qc_custom_limit body \<noteq> q_custom_limit old \<or> qc_reason body \<noteq> q_reason old
   \<or> qc_expires_at body \<noteq> q_expires_at old"

definition update_row :: "QuotaOverrideCreate \<Rightarrow> UserQuotaOverride \<Rightarrow> UserQuotaOverride \<Rightarrow> UserQuotaOverride" where
  "update_row body old row =
     row\<lparr>q_custom_limit := (if qc_custom_limit body \<noteq> q_custom_limit old then qc_custom_limit body else q_custom_limit row),
         q_reason := (if qc_reason body \<noteq> q_reason old then qc_reason body else q_reason row),
         q_expires_at := (if qc_expires_at body \<noteq> q_expires_at old then qc_expires_at body else q_expires_at row)\<rparr>"

definition new_row :: "put \<Rightarrow> UserQuotaOverride" where
  "new_row p =
     \<lparr>q_user_id = pt_user p, q_custom_limit = qc_custom_limit (pt_body p), q_reason = qc_reason (pt_body p),
      q_created_at = pt_now p, q_expires_at = qc_expires_at (pt_body p)\<rparr>"

text \<open>One step of a \<open>PUT\<close>. \<open>Answered None\<close> is the exception that becomes status 500: the INSERT of a
  key that exists or is too long, an UPDATE or a refresh that finds no row.\<close>

fun put_step :: "put \<Rightarrow> put_pc \<Rightarrow> quotas \<Rightarrow> put_pc \<times> quotas" where
  "put_step p Not_Started Q = (Selected (Q (pt_user p)), Q)"
| "put_step p (Selected None) Q =
     (if Q (pt_user p) \<noteq> None \<or> 128 < length (pt_user p) then (Answered None, Q)
      else (Flushed, Q(pt_user p \<mapsto> new_row p)))"
| "put_step p (Selected (Some old)) Q =
     (if \<not> changed_columns (pt_body p) old then (Flushed, Q)
      else case Q (pt_user p) of
        None \<Rightarrow> (Answered None, Q)
      | Some row \<Rightarrow> (Flushed, Q(pt_user p \<mapsto> update_row (pt_body p) old row)))"
| "put_step p Flushed Q = (Answered (Q (pt_user p)), Q)"
| "put_step p (Answered a) Q = (Answered a, Q)"

text \<open>Events of a run: a step of the \<open>i\<close>-th \<open>PUT\<close>, or a \<open>DELETE\<close>, which is one statement.\<close>

datatype race_event = Put_Step nat | Delete_Row string

fun race_step :: "(nat \<Rightarrow> put) \<Rightarrow> race_event \<Rightarrow> (nat \<Rightarrow> put_pc) \<times> quotas \<Rightarrow> (nat \<Rightarrow> put_pc) \<times> quotas" where
  "race_step puts (Put_Step i) (pcs, Q) = (let (pc, Q') = put_step (puts i) (pcs i) Q in (pcs(i := pc), Q'))"
| "race_step puts (Delete_Row u) (pcs, Q) = (pcs, Q(u := None))"

definition race :: "(nat \<Rightarrow> put) \<Rightarrow> race_event list \<Rightarrow> (nat \<Rightarrow> put_pc) \<times> quotas \<Rightarrow> (nat \<Rightarrow> put_pc) \<times> quotas" where
  "race puts evs s = fold (race_step puts) evs s"

lemma race_simps [simp]: "race puts [] s = s" "race puts (e # evs) s = race puts evs (race_step puts e s)"
  by (simp_all add: race_def)

section \<open>The table stays valid\<close>

definition valid_put :: "put \<Rightarrow> bool" where
  "valid_put p \<longleftrightarrow> 1 \<le> qc_custom_limit (pt_body p) \<and> qc_custom_limit (pt_body p) \<le> 1000000
     \<and> (case qc_reason (pt_body p) of None \<Rightarrow> True | Some s \<Rightarrow> length s \<le> 512)"

definition rows_ok :: "quotas \<Rightarrow> bool" where
  "rows_ok Q \<longleftrightarrow> (\<forall>u q. Q u = Some q \<longrightarrow> quota_row_ok u q)"

lemma update_row_ok:
  "valid_put p \<Longrightarrow> quota_row_ok u row \<Longrightarrow> quota_row_ok u (update_row (pt_body p) old row)"
  by (auto simp: valid_put_def quota_row_ok_def update_row_def)

lemma new_row_ok: "valid_put p \<Longrightarrow> length (pt_user p) \<le> 128 \<Longrightarrow> quota_row_ok (pt_user p) (new_row p)"
  by (simp add: valid_put_def quota_row_ok_def new_row_def)

lemma rows_ok_upd: "rows_ok Q \<Longrightarrow> quota_row_ok u row \<Longrightarrow> rows_ok (Q(u \<mapsto> row))"
  by (simp add: rows_ok_def)

lemma put_step_rows_ok:
  assumes "valid_put p" "rows_ok Q"
  shows "rows_ok (snd (put_step p pc Q))"
proof (cases "(p, pc, Q)" rule: put_step.cases)
  case (2 p Q)
  then show ?thesis using assms by (simp add: rows_ok_upd new_row_ok not_less)
next
  case (3 p old Q)
  have "quota_row_ok (pt_user p) row" if "Q (pt_user p) = Some row" for row
    using assms(2) that 3 by (simp add: rows_ok_def)
  then show ?thesis using assms 3 by (auto simp: rows_ok_upd update_row_ok split: option.split)
qed (use assms in simp_all)

lemma race_step_rows_ok:
  "\<forall>i. valid_put (puts i) \<Longrightarrow> rows_ok (snd s) \<Longrightarrow> rows_ok (snd (race_step puts e s))"
proof (cases "(puts, e, s)" rule: race_step.cases)
  case (1 puts' i pcs Q)
  then show "\<forall>i. valid_put (puts i) \<Longrightarrow> rows_ok (snd s) \<Longrightarrow> rows_ok (snd (race_step puts e s))"
    using put_step_rows_ok [of "puts i" Q "pcs i"] by (simp add: case_prod_unfold Let_def)
next
  case (2 puts' u pcs Q)
  then show "\<forall>i. valid_put (puts i) \<Longrightarrow> rows_ok (snd s) \<Longrightarrow> rows_ok (snd (race_step puts e s))"
    by (simp add: rows_ok_def)
qed

interpretation quota_race: kept_by_steps "race_step puts" "\<lambda>e. \<forall>i. valid_put (puts i)" "\<lambda>s. rows_ok (snd s)" for puts
  by unfold_locales (rule race_step_rows_ok)

text \<open>C28. However puts and deletes interleave, the table stays valid: every row is filed under its own
  user, with a user id, a limit and a reason that the columns and the schema admit.\<close>

theorem concurrent_puts_keep_table:
  assumes "\<forall>i. valid_put (puts i)" "rows_ok Q"
  shows "rows_ok (snd (race puts evs (pcs, Q)))"
  unfolding race_def by (rule quota_race.history_keeps) (simp_all add: assms)

section \<open>Every put is answered\<close>

fun steps_left :: "put_pc \<Rightarrow> nat" where
  "steps_left Not_Started = 3"
| "steps_left (Selected old) = 2"
| "steps_left Flushed = 1"
| "steps_left (Answered a) = 0"

lemma steps_left_0: "steps_left pc = 0 \<longleftrightarrow> (\<exists>a. pc = Answered a)"
  by (cases pc) simp_all

lemma put_step_progress: "steps_left (fst (put_step p pc Q)) \<le> steps_left pc - 1"
  by (cases "(p, pc, Q)" rule: put_step.cases) (auto split: option.split)

lemma race_step_progress:
  "steps_left (fst (race_step puts e s) i) \<le> steps_left (fst s i) - count_list [e] (Put_Step i)"
proof (cases "(puts, e, s)" rule: race_step.cases)
  case (1 puts' j pcs Q)
  then show ?thesis using put_step_progress [of "puts j" "pcs j" Q] by (auto simp: case_prod_unfold Let_def)
qed simp

text \<open>Every put is answered after three steps of its own, whatever runs in between: it cannot be
  held up or starved by other requests, only fail.\<close>

lemma put_answers_in_three_steps:
  assumes "3 \<le> count_list evs (Put_Step i)"
  shows "\<exists>answer. fst (race puts evs (pcs, Q)) i = Answered answer"
proof -
  have "steps_left (fst (race puts evs s) i) \<le> steps_left (fst s i) - count_list evs (Put_Step i)" for s
  proof (induction evs arbitrary: s)
    case (Cons e evs)
    from Cons [of "race_step puts e s"] race_step_progress [of puts e s i]
    show ?case by (auto split: if_splits)
  qed simp
  from this [of "(pcs, Q)"]
  have "steps_left (fst (race puts evs (pcs, Q)) i) \<le> steps_left (pcs i) - count_list evs (Put_Step i)" by simp
  moreover have "steps_left (pcs i) \<le> 3" by (cases "pcs i") simp_all
  ultimately have "steps_left (fst (race puts evs (pcs, Q)) i) = 0" using assms by linarith
  then show ?thesis by (simp add: steps_left_0)
qed

section \<open>Alone, and in a race\<close>

text \<open>Uninterrupted, the three steps are the \<open>PUT\<close> of theory Admin: the same answer, an exception
  or the row, and the same table.\<close>

lemma uninterrupted_put_is_upsert:
  assumes "ev_db_up env" "pcs i = Not_Started"
    and "puts i = \<lparr>pt_user = user_id, pt_body = body, pt_now = ev_instant env\<rparr>"
  shows "\<exists>answer. fst (race puts [Put_Step i, Put_Step i, Put_Step i] (pcs, db_quotas (w_db w))) i = Answered answer
    \<and> fst (upsert_quota env user_id body rq st w) =
        (case answer of
           None \<Rightarrow> Inl Db_Exn
         | Some row \<Rightarrow> Inr (json_response 200 (quota_response (ev_codec env) row) []))
    \<and> db_quotas (w_db (snd (snd (upsert_quota env user_id body rq st w)))) =
        snd (race puts [Put_Step i, Put_Step i, Put_Step i] (pcs, db_quotas (w_db w)))"
proof (cases "db_quotas (w_db w) user_id")
  case None
  then show ?thesis using assms by (simp add: upsert_quota_def Let_def new_row_def)
next
  case (Some old)
  show ?thesis
  proof (cases "changed_columns body old")
    case True
    have "update_row body old old = old\<lparr>q_custom_limit := qc_custom_limit body, q_reason := qc_reason body,
        q_expires_at := qc_expires_at body\<rparr>" by (simp add: update_row_def)
    then show ?thesis using assms Some True by (simp add: upsert_quota_def Let_def)
  next
    case False
    then have "old\<lparr>q_custom_limit := qc_custom_limit body, q_reason := qc_reason body,
        q_expires_at := qc_expires_at body\<rparr> = old" by (simp add: changed_columns_def)
    then show ?thesis using assms Some False by (simp add: upsert_quota_def Let_def fun_upd_idem)
  qed
qed

text \<open>C30. The upsert is not atomic: of two puts for a user without an override that both look before
  either writes, whichever writes first gets its row back and the other is answered with an internal
  error, although either alone succeeds.\<close>

theorem concurrent_first_puts_collide:
  assumes "i \<noteq> j" "pt_user (puts i) = u" "pt_user (puts j) = u" "length u \<le> 128" "Q u = None"
    and "pcs i = Not_Started" "pcs j = Not_Started"
  shows "(\<exists>pcs'. race puts [Put_Step i, Put_Step j, Put_Step i, Put_Step j, Put_Step i] (pcs, Q) =
        (pcs', Q(u \<mapsto> new_row (puts i)))
      \<and> pcs' i = Answered (Some (new_row (puts i))) \<and> pcs' j = Answered None)
    \<and> (\<exists>pcs'. race puts [Put_Step i, Put_Step j, Put_Step j, Put_Step i, Put_Step j] (pcs, Q) =
        (pcs', Q(u \<mapsto> new_row (puts j)))
      \<and> pcs' j = Answered (Some (new_row (puts j))) \<and> pcs' i = Answered None)
    \<and> (\<forall>k\<in>{i, j}. \<exists>pcs'. race puts [Put_Step k, Put_Step k, Put_Step k] (pcs, Q) = (pcs', Q(u \<mapsto> new_row (puts k)))
      \<and> pcs' k = Answered (Some (new_row (puts k))))"
  using assms by (auto simp: Let_def)

text \<open>Two puts that each change one field of the same override are both answered with success, and
  leave a mixture that neither asked for.\<close>

lemma concurrent_puts_mix:
  assumes "i \<noteq> j" "pt_user (puts i) = u" "pt_user (puts j) = u" "Q u = Some old"
    and "pcs i = Not_Started" "pcs j = Not_Started"
    and "qc_custom_limit (pt_body (puts i)) \<noteq> q_custom_limit old" "qc_reason (pt_body (puts i)) = q_reason old"
      "qc_custom_limit (pt_body (puts j)) = q_custom_limit old" "qc_reason (pt_body (puts j)) \<noteq> q_reason old"
    and "qc_expires_at (pt_body (puts i)) = q_expires_at old" "qc_expires_at (pt_body (puts j)) = q_expires_at old"
  shows "\<exists>pcs' row. race puts [Put_Step i, Put_Step j, Put_Step i, Put_Step j, Put_Step i, Put_Step j] (pcs, Q) =
        (pcs', Q(u \<mapsto> row))
      \<and> q_custom_limit row = qc_custom_limit (pt_body (puts i)) \<and> q_reason row = qc_reason (pt_body (puts j))
      \<and> pcs' i = Answered (Some row) \<and> pcs' j = Answered (Some row)"
  using assms by (auto simp: Let_def changed_columns_def update_row_def)

section \<open>Examples\<close>

text \<open>Two puts for alice, the second with another limit and reason.\<close>

definition demo_puts :: "nat \<Rightarrow> put" where
  "demo_puts i =
     \<lparr>pt_user = ''alice'',
      pt_body = (if i = 0 then \<lparr>qc_custom_limit = 20, qc_reason = None, qc_expires_at = None\<rparr>
                 else \<lparr>qc_custom_limit = 10, qc_reason = Some ''abuse'', qc_expires_at = None\<rparr>),
      pt_now = int i\<rparr>"

definition demo_old :: UserQuotaOverride where
  "demo_old = \<lparr>q_user_id = ''alice'', q_custom_limit = 10, q_reason = None, q_created_at = 0, q_expires_at = None\<rparr>"

theorem concurrent_puts_keep_table_witness:
  "rows_ok (snd (race demo_puts [Put_Step 0, Put_Step 1, Delete_Row ''alice'', Put_Step 1] (\<lambda>_. Not_Started, Map.empty)))"
  by (rule concurrent_puts_keep_table) (simp_all add: valid_put_def demo_puts_def rows_ok_def)

lemma put_answers_in_three_steps_witness:
  "\<exists>answer. fst (race demo_puts [Put_Step 0, Put_Step 1, Put_Step 0, Delete_Row ''alice'', Put_Step 0]
       (\<lambda>_. Not_Started, Map.empty)) 0 = Answered answer"
  by (rule put_answers_in_three_steps) simp

lemma uninterrupted_put_is_upsert_witness:
  "db_quotas (w_db (snd (snd (upsert_quota demo_env ''alice'' (pt_body (demo_puts 0))
       (sample_request ''PUT'' ''/admin/quota/alice'' []) fresh_state (demo_world demo_empty))))) =
   snd (race (\<lambda>_. \<lparr>pt_user = ''alice'', pt_body = pt_body (demo_puts 0), pt_now = ev_instant demo_env\<rparr>)
     [Put_Step 0, Put_Step 0, Put_Step 0] (\<lambda>_. Not_Started, db_quotas (w_db (demo_world demo_empty))))"
proof -
  have "ev_db_up demo_env" by (simp add: demo_env_def)
  from uninterrupted_put_is_upsert [OF this, of "\<lambda>_. Not_Started" 0
      "\<lambda>_. \<lparr>pt_user = ''alice'', pt_body = pt_body (demo_puts 0), pt_now = ev_instant demo_env\<rparr>"]
  show ?thesis by blast
qed

theorem concurrent_first_puts_collide_witness:
  "\<exists>pcs'. race demo_puts [Put_Step 0, Put_Step 1, Put_Step 0, Put_Step 1, Put_Step 0] (\<lambda>_. Not_Started, Map.empty) =
     (pcs', [''alice'' \<mapsto> new_row (demo_puts 0)]) \<and> pcs' 1 = Answered None"
proof -
  have users: "pt_user (demo_puts 0) = ''alice''" "pt_user (demo_puts 1) = ''alice''" "length ''alice'' \<le> 128"
    by (simp_all add: demo_puts_def)
  have "(0 :: nat) \<noteq> 1" by simp
  from concurrent_first_puts_collide [OF this users, of Map.empty "\<lambda>_. Not_Started"] show ?thesis by blast
qed

lemma concurrent_puts_mix_witness:
  "\<exists>row. snd (race demo_puts [Put_Step 0, Put_Step 1, Put_Step 0, Put_Step 1, Put_Step 0, Put_Step 1]
       (\<lambda>_. Not_Started, [''alice'' \<mapsto> demo_old])) = [''alice'' \<mapsto> row]
     \<and> q_custom_limit row = 20 \<and> q_reason row = Some ''abuse''"
proof -
  let ?Q = "[''alice'' \<mapsto> demo_old]"
  have users: "pt_user (demo_puts 0) = ''alice''" "pt_user (demo_puts 1) = ''alice''" "?Q ''alice'' = Some demo_old"
    by (simp_all add: demo_puts_def)
  have fields: "qc_custom_limit (pt_body (demo_puts 0)) \<noteq> q_custom_limit demo_old"
    "qc_reason (pt_body (demo_puts 0)) = q_reason demo_old"
    "qc_custom_limit (pt_body (demo_puts 1)) = q_custom_limit demo_old"
    "qc_reason (pt_body (demo_puts 1)) \<noteq> q_reason demo_old"
    "qc_expires_at (pt_body (demo_puts 0)) = q_expires_at demo_old"
    "qc_expires_at (pt_body (demo_puts 1)) = q_expires_at demo_old"
    and asked: "qc_custom_limit (pt_body (demo_puts 0)) = 20" "qc_reason (pt_body (demo_puts 1)) = Some ''abuse''"
    by (simp_all add: demo_puts_def demo_old_def)
  have "(0 :: nat) \<noteq> 1" by simp
  from concurrent_puts_mix [where puts = demo_puts and i = 0 and j = 1 and u = "''alice''" and Q = ?Q and old = demo_old
      and pcs = "\<lambda>_. Not_Started", OF this users refl refl fields]
  obtain pcs' row where r: "race demo_puts [Put_Step 0, Put_Step 1, Put_Step 0, Put_Step 1, Put_Step 0, Put_Step 1]
      (\<lambda>_. Not_Started, ?Q) = (pcs', ?Q(''alice'' \<mapsto> row))"
    "q_custom_limit row = 20" "q_reason row = Some ''abuse''"
    unfolding asked by blast
  then show ?thesis by (intro exI [of _ row]) simp
qed

end
