(* ===== verification/Sessions.thy ===== *)
theory Sessions
  imports Quota_Races
begin

text \<open>
  Database sessions, statement by statement: the factory and the dependency \<open>get_db_session\<close> of
  \<open>app/infra/database.py\<close>, the session blocks of \<open>infra/log_store/postgres_log_store.py\<close>, and the
  routes and services that run statements in them (\<open>routes/admin.py\<close>,
  \<open>services/rate_limit_service.py\<close>). Any statement may fail, at a commit also after the server has
  done it. A session writes nothing before its commit (\<open>autoflush=False\<close>), a commit writes all or
  nothing, and closing the session drops what was not committed: this is SQLAlchemy's and
  PostgreSQL's documented behaviour. The rest of the development uses the one-step models, which
  are what the statements do when none fails.
\<close>

section \<open>Sessions and statements\<close>

text \<open>What a session has added, changed or deleted and not committed yet.\<close>

datatype change =
    Insert_Quota put
  | Update_Quota put UserQuotaOverride
  | Delete_Quota_Row string
  | Insert_Log int int LogEntry

definition set_quota :: "string \<Rightarrow> UserQuotaOverride option \<Rightarrow> db \<Rightarrow> db" where
  "set_quota user_id row d = d\<lparr>db_quotas := (db_quotas d)(user_id := row)\<rparr>"

fun apply_change :: "change \<Rightarrow> db \<Rightarrow> db option" where
  "apply_change (Insert_Quota p) d =
     (if db_quotas d (pt_user p) \<noteq> None \<or> 128 < length (pt_user p) then None
      else Some (set_quota (pt_user p) (Some (new_row p)) d))"
| "apply_change (Update_Quota p old) d =
     (if \<not> changed_columns (pt_body p) old then Some d
      else case db_quotas d (pt_user p) of
        None \<Rightarrow> None
      | Some row \<Rightarrow> Some (set_quota (pt_user p) (Some (update_row (pt_body p) old row)) d))"
| "apply_change (Delete_Quota_Row user_id) d = Some (set_quota user_id None d)"
| "apply_change (Insert_Log row_id created_at e) d =
     (let row = row_of_entry row_id created_at e
      in if row_fits row then Some (d\<lparr>db_logs := db_logs d @ [row]\<rparr>) else None)"

fun apply_changes :: "change list \<Rightarrow> db \<Rightarrow> db option" where
  "apply_changes [] d = Some d"
| "apply_changes (c # cs) d = (case apply_change c d of None \<Rightarrow> None | Some d \<Rightarrow> apply_changes cs d)"

text \<open>How a statement ends: it succeeds, it fails, or the server does it and the connection breaks
  before the answer. The statements of a run end as listed, and succeed after the list.\<close>

datatype stmt_end = Succeeds | Fails | Unheard

record session_state =
  ss_ends :: "stmt_end list"
  ss_changes :: "change list"
  ss_db :: db

definition pop_end :: "session_state \<Rightarrow> stmt_end \<times> session_state" where
  "pop_end s = (case ss_ends s of [] \<Rightarrow> (Succeeds, s) | e # es \<Rightarrow> (e, s\<lparr>ss_ends := es\<rparr>))"

definition execute_select :: "(db \<Rightarrow> 'a) \<Rightarrow> session_state \<Rightarrow> (exn + 'a) \<times> session_state" where
  "execute_select query s =
     (case pop_end s of (Succeeds, s) \<Rightarrow> (Inr (query (ss_db s)), s) | (_, s) \<Rightarrow> (Inl Db_Exn, s))"

definition session_add :: "change \<Rightarrow> session_state \<Rightarrow> session_state" where
  "session_add c s = s\<lparr>ss_changes := ss_changes s @ [c]\<rparr>"

definition execute_change :: "change \<Rightarrow> session_state \<Rightarrow> (exn + unit) \<times> session_state" where
  "execute_change c s =
     (case pop_end s of (Succeeds, s) \<Rightarrow> (Inr (), session_add c s) | (_, s) \<Rightarrow> (Inl Db_Exn, s))"

definition session_commit :: "session_state \<Rightarrow> (exn + unit) \<times> session_state" where
  "session_commit s =
     (case pop_end s of
        (Fails, s) \<Rightarrow> (Inl Db_Exn, s)
      | (e, s) \<Rightarrow>
          (case apply_changes (ss_changes s) (ss_db s) of
             None \<Rightarrow> (Inl Db_Exn, s)
           | Some d \<Rightarrow> (if e = Unheard then Inl Db_Exn else Inr (), s\<lparr>ss_db := d, ss_changes := []\<rparr>)))"

definition session_refresh :: "string \<Rightarrow> session_state \<Rightarrow> (exn + UserQuotaOverride) \<times> session_state" where
  "session_refresh user_id s =
     (case execute_select (\<lambda>d. db_quotas d user_id) s of
        (Inl e, s) \<Rightarrow> (Inl e, s)
      | (Inr None, s) \<Rightarrow> (Inl Db_Exn, s)
      | (Inr (Some row), s) \<Rightarrow> (Inr row, s))"

text \<open>\<open>get_db_session\<close>: a session of the request's own, closed when the block is left, with or without
  an exception. \<open>_session_factory()()\<close> in the log store gives the same.\<close>

definition with_session :: "(session_state \<Rightarrow> (exn + 'a) \<times> session_state) \<Rightarrow> stmt_end list \<Rightarrow> db \<Rightarrow> (exn + 'a) \<times> db" where
  "with_session block ends d =
     (case block \<lparr>ss_ends = ends, ss_changes = [], ss_db = d\<rparr> of (res, s) \<Rightarrow> (res, ss_db s))"

definition session_factory :: "(session_state \<Rightarrow> (exn + 'a) \<times> session_state) \<Rightarrow> stmt_end list \<Rightarrow> db \<Rightarrow> (exn + 'a) \<times> db" where
  "session_factory = with_session"

section \<open>The blocks\<close>

definition upsert_block :: "put \<Rightarrow> session_state \<Rightarrow> (exn + UserQuotaOverride) \<times> session_state" where
  "upsert_block p s =
     (case execute_select (\<lambda>d. db_quotas d (pt_user p)) s of
        (Inl e, s) \<Rightarrow> (Inl e, s)
      | (Inr existing, s) \<Rightarrow>
          (case session_commit (session_add (case existing of None \<Rightarrow> Insert_Quota p | Some old \<Rightarrow> Update_Quota p old) s) of
             (Inl e, s) \<Rightarrow> (Inl e, s)
           | (Inr _, s) \<Rightarrow> session_refresh (pt_user p) s))"

definition get_block :: "string \<Rightarrow> session_state \<Rightarrow> (exn + UserQuotaOverride) \<times> session_state" where
  "get_block user_id s =
     (case execute_select (\<lambda>d. db_quotas d user_id) s of
        (Inl e, s) \<Rightarrow> (Inl e, s)
      | (Inr None, s) \<Rightarrow>
          (Inl (Gateway_Exn (new_error NotFoundError
             (''No quota override for user '' @ [CHR 0x27] @ user_id @ [CHR 0x27] @ ''.'') None)), s)
      | (Inr (Some q), s) \<Rightarrow> (Inr q, s))"

definition delete_block :: "string \<Rightarrow> session_state \<Rightarrow> (exn + unit) \<times> session_state" where
  "delete_block user_id s =
     (case execute_change (Delete_Quota_Row user_id) s of
        (Inl e, s) \<Rightarrow> (Inl e, s)
      | (Inr _, s) \<Rightarrow> session_commit s)"

definition lookup_block :: "int \<Rightarrow> string \<Rightarrow> session_state \<Rightarrow> (exn + int option) \<times> session_state" where
  "lookup_block now user_id s =
     (case execute_select (\<lambda>d. db_quotas d user_id) s of
        (Inl e, s) \<Rightarrow> (Inl e, s)
      | (Inr None, s) \<Rightarrow> (Inr None, s)
      | (Inr (Some q), s) \<Rightarrow>
          (case q_expires_at q of
             Some e \<Rightarrow> (Inr (if e < now then None else Some (q_custom_limit q)), s)
           | None \<Rightarrow> (Inr (Some (q_custom_limit q)), s)))"

text \<open>\<open>write\<close> catches what its block raises.\<close>

definition write_block :: "int \<Rightarrow> int \<Rightarrow> LogEntry \<Rightarrow> session_state \<Rightarrow> (exn + unit) \<times> session_state" where
  "write_block row_id created_at e s = session_commit (session_add (Insert_Log row_id created_at e) s)"

definition write_session :: "int \<Rightarrow> int \<Rightarrow> LogEntry \<Rightarrow> stmt_end list \<Rightarrow> db \<Rightarrow> db" where
  "write_session row_id created_at e ends d = snd (session_factory (write_block row_id created_at e) ends d)"

definition query_block :: "sql \<Rightarrow> string option \<Rightarrow> nat \<Rightarrow> session_state \<Rightarrow> (exn + LogEntry list) \<times> session_state" where
  "query_block Q user_id limit s =
     (case execute_select (\<lambda>d. take limit (order_newest Q (filter (for_user user_id) (db_logs d)))) s of
        (Inl e, s) \<Rightarrow> (Inl e, s)
      | (Inr rows, s) \<Rightarrow> (Inr (map entry_of_row rows), s))"

text \<open>Other sessions may commit between the three statements, and each statement sees what is committed
  when it runs (PostgreSQL's default, \<open>READ COMMITTED\<close>): \<open>d2\<close> and \<open>d3\<close> are what the second and the
  third see. The first, like every single statement of a block, sees the database of the session.\<close>

definition stats_block :: "sql \<Rightarrow> int \<Rightarrow> string option \<Rightarrow> db \<Rightarrow> db \<Rightarrow> session_state \<Rightarrow> (exn + LogStats) \<times> session_state" where
  "stats_block Q now user_id d2 d3 s =
     (let start = now - day_us;
          base = (\<lambda>d. filter (\<lambda>r. start \<le> rl_created_at r \<and> for_user user_id r) (db_logs d))
      in case execute_select (\<lambda>d. length (base d)) s of
        (Inl e, s) \<Rightarrow> (Inl e, s)
      | (Inr requests, s) \<Rightarrow>
          (case execute_select (\<lambda>_. length (filter rl_rate_limited (base d2))) s of
             (Inl e, s) \<Rightarrow> (Inl e, s)
           | (Inr limited, s) \<Rightarrow>
               (case execute_select (\<lambda>_. if base d3 = [] then None else Some (sql_avg Q (map rl_latency_ms (base d3)))) s of
                  (Inl e, s) \<Rightarrow> (Inl e, s)
                | (Inr avg, s) \<Rightarrow>
                    (Inr \<lparr>total_requests = requests, total_rate_limited = limited,
                          avg_latency_ms = (case avg of None \<Rightarrow> 0 | Some x \<Rightarrow> fl64 x),
                          period_start = start, period_end = now\<rparr>, s))))"

lemmas statement_defs = execute_select_def execute_change_def session_add_def session_commit_def session_refresh_def
  pop_end_def with_session_def session_factory_def

section \<open>Without faults\<close>

text \<open>The database being down is a failure of the first statement.\<close>

definition ends_of :: "bool \<Rightarrow> stmt_end list" where
  "ends_of db_up = (if db_up then [] else [Fails])"

definition quota_answer :: "codec \<Rightarrow> exn + UserQuotaOverride \<Rightarrow> exn + response" where
  "quota_answer C res = map_sum id (\<lambda>row. json_response 200 (quota_response C row) []) res"

lemma update_all_columns:
  "update_row body old old = old\<lparr>q_custom_limit := qc_custom_limit body, q_reason := qc_reason body,
     q_expires_at := qc_expires_at body\<rparr>"
  by (simp add: update_row_def)

lemma unchanged_columns:
  "\<not> changed_columns body old \<Longrightarrow> old\<lparr>q_custom_limit := qc_custom_limit body, q_reason := qc_reason body,
     q_expires_at := qc_expires_at body\<rparr> = old"
  by (simp add: changed_columns_def)

lemma upsert_session_is_upsert:
  assumes "p = \<lparr>pt_user = user_id, pt_body = body, pt_now = ev_instant env\<rparr>"
    and "with_session (upsert_block p) (ends_of (ev_db_up env)) (w_db w) = (res, d)"
  shows "upsert_quota env user_id body rq st w = (quota_answer (ev_codec env) res, st, w\<lparr>w_db := d\<rparr>)"
proof (cases "ev_db_up env")
  case False
  then show ?thesis using assms(2)
    by (auto simp: upsert_quota_def quota_answer_def upsert_block_def statement_defs ends_of_def)
next
  case True
  show ?thesis
  proof (cases "db_quotas (w_db w) user_id")
    case None
    then show ?thesis using assms True
      by (auto simp: upsert_quota_def quota_answer_def upsert_block_def statement_defs ends_of_def set_quota_def
          new_row_def Let_def)
  next
    case (Some old)
    show ?thesis
    proof (cases "changed_columns body old")
      case True
      then show ?thesis using assms Some \<open>ev_db_up env\<close>
        by (auto simp: upsert_quota_def quota_answer_def upsert_block_def statement_defs ends_of_def set_quota_def
            update_all_columns Let_def)
    next
      case False
      then show ?thesis using assms Some \<open>ev_db_up env\<close> unchanged_columns [OF False]
        by (auto simp: upsert_quota_def quota_answer_def upsert_block_def statement_defs ends_of_def Let_def fun_upd_idem)
    qed
  qed
qed

section \<open>With faults\<close>

text \<open>However the statements end, a block does all it would do without faults, or nothing, and answers
  with a result only if it did all, the result it would have.\<close>

definition all_or_nothing :: "(session_state \<Rightarrow> (exn + 'a) \<times> session_state) \<Rightarrow> stmt_end list \<Rightarrow> db \<Rightarrow> bool" where
  "all_or_nothing block ends d =
     (case (with_session block ends d, with_session block [] d) of
        ((res, d'), (res0, d0)) \<Rightarrow>
          (d' = d \<or> d' = d0) \<and> (case res of Inl e \<Rightarrow> True | Inr a \<Rightarrow> res = res0 \<and> d' = d0))"

definition unchanged :: "(session_state \<Rightarrow> (exn + 'a) \<times> session_state) \<Rightarrow> stmt_end list \<Rightarrow> db \<Rightarrow> bool" where
  "unchanged block ends d \<longleftrightarrow> snd (with_session block ends d) = d"

lemma all_or_nothing_upsert: "all_or_nothing (upsert_block p) ends d"
  by (auto simp: all_or_nothing_def upsert_block_def statement_defs
      split: list.split stmt_end.split option.split prod.split sum.split)

lemma all_or_nothing_write: "all_or_nothing (write_block row_id created_at e) ends d"
  by (auto simp: all_or_nothing_def write_block_def statement_defs Let_def split: list.split stmt_end.split)

text \<open>Every exception of the blocks that write is the database's.\<close>

lemma block_errors:
  "fst (with_session (upsert_block p) ends d) = Inl e \<Longrightarrow> e = Db_Exn"
  "fst (with_session (delete_block user_id) ends d) = Inl e \<Longrightarrow> e = Db_Exn"
  by (auto simp: upsert_block_def delete_block_def statement_defs
      split: list.splits stmt_end.splits option.splits if_splits)

lemma delete_all_or_nothing: "all_or_nothing (delete_block user_id) ends d"
  by (auto simp: all_or_nothing_def delete_block_def statement_defs split: list.split stmt_end.split)

lemma block_outcomes:
  assumes "all_or_nothing block ends d" "\<And>e. fst (with_session block ends d) = Inl e \<Longrightarrow> e = Db_Exn"
  shows "with_session block ends d \<in> {with_session block [] d, (Inl Db_Exn, d), (Inl Db_Exn, snd (with_session block [] d))}"
  using assms by (auto simp: all_or_nothing_def split: prod.splits sum.splits)

text \<open>C29. The one-step models of the rest of the development are what the statements do: the put, get
  and delete of a quota and the log write give, statement by statement, the same answer and the
  same database when no statement fails and when the database is down; and however the statements
  of a put or a delete fail, the outcome is that of the one-step model with the database up, that
  with the database down, or, when only the answer of a commit or what follows it is lost, the
  error of the latter with the database of the former; a log write is one of the two.\<close>

theorem statements_are_one_step_models:
  "upsert_quota env user_id body rq st w =
     (let (res, d) = with_session (upsert_block \<lparr>pt_user = user_id, pt_body = body, pt_now = ev_instant env\<rparr>)
        (ends_of (ev_db_up env)) (w_db w)
      in (quota_answer (ev_codec env) res, st, w\<lparr>w_db := d\<rparr>))
   \<and> get_quota env user_id rq st w =
     (let (res, d) = with_session (get_block user_id) (ends_of (ev_db_up env)) (w_db w)
      in (quota_answer (ev_codec env) res, st, w\<lparr>w_db := d\<rparr>))
   \<and> delete_quota env user_id rq st w =
     (let (res, d) = with_session (delete_block user_id) (ends_of (ev_db_up env)) (w_db w)
      in (map_sum id (\<lambda>_. no_content) res, st, w\<lparr>w_db := d\<rparr>))
   \<and> store_write db_up row_id created_at e d = write_session row_id created_at e (ends_of db_up) d
   \<and> (let (res, d) = with_session (upsert_block \<lparr>pt_user = user_id, pt_body = body, pt_now = ev_instant env\<rparr>) ends (w_db w);
          up = upsert_quota (env\<lparr>ev_db_up := True\<rparr>) user_id body rq st w;
          down = upsert_quota (env\<lparr>ev_db_up := False\<rparr>) user_id body rq st w
      in (quota_answer (ev_codec env) res, st, w\<lparr>w_db := d\<rparr>) \<in> {up, down, (fst down, st, snd (snd up))})
   \<and> (let (res, d) = with_session (delete_block user_id) ends (w_db w);
          up = delete_quota (env\<lparr>ev_db_up := True\<rparr>) user_id rq st w;
          down = delete_quota (env\<lparr>ev_db_up := False\<rparr>) user_id rq st w
      in (map_sum id (\<lambda>_. no_content) res, st, w\<lparr>w_db := d\<rparr>) \<in> {up, down, (fst down, st, snd (snd up))})
   \<and> write_session row_id created_at e ends d \<in> {store_write True row_id created_at e d, store_write False row_id created_at e d}"
proof (intro conjI)
  let ?p = "\<lparr>pt_user = user_id, pt_body = body, pt_now = ev_instant env\<rparr>"
  have upsert: "upsert_quota env user_id body rq st w =
     (let (res, d) = with_session (upsert_block \<lparr>pt_user = user_id, pt_body = body, pt_now = ev_instant env\<rparr>)
        (ends_of (ev_db_up env)) (w_db w)
      in (quota_answer (ev_codec env) res, st, w\<lparr>w_db := d\<rparr>))" for env :: "'a env"
    using upsert_session_is_upsert [OF refl surjective_pairing] by (simp add: case_prod_unfold Let_def)
  then show "upsert_quota env user_id body rq st w =
     (let (res, d) = with_session (upsert_block ?p) (ends_of (ev_db_up env)) (w_db w)
      in (quota_answer (ev_codec env) res, st, w\<lparr>w_db := d\<rparr>))" .
  have delete: "delete_quota env user_id rq st w =
     (let (res, d) = with_session (delete_block user_id) (ends_of (ev_db_up env)) (w_db w)
      in (map_sum id (\<lambda>_. no_content) res, st, w\<lparr>w_db := d\<rparr>))" for env :: "'a env"
    by (simp add: delete_quota_def delete_block_def statement_defs ends_of_def set_quota_def)
  then show "delete_quota env user_id rq st w =
     (let (res, d) = with_session (delete_block user_id) (ends_of (ev_db_up env)) (w_db w)
      in (map_sum id (\<lambda>_. no_content) res, st, w\<lparr>w_db := d\<rparr>))" .
  show "get_quota env user_id rq st w =
     (let (res, d) = with_session (get_block user_id) (ends_of (ev_db_up env)) (w_db w)
      in (quota_answer (ev_codec env) res, st, w\<lparr>w_db := d\<rparr>))"
    by (simp add: get_quota_def get_block_def quota_answer_def statement_defs ends_of_def split: option.split)
  have logged: "store_write db_up row_id created_at e d = write_session row_id created_at e (ends_of db_up) d" for db_up
    by (simp add: store_write_def write_session_def write_block_def statement_defs ends_of_def Let_def)
  then show "store_write db_up row_id created_at e d = write_session row_id created_at e (ends_of db_up) d" .
  have down: "with_session (upsert_block ?p) [Fails] d = (Inl Db_Exn, d)"
    "with_session (delete_block user_id) [Fails] d = (Inl Db_Exn, d)" for d
    by (simp_all add: upsert_block_def delete_block_def statement_defs)
  have "with_session (upsert_block ?p) ends (w_db w) \<in> {with_session (upsert_block ?p) [] (w_db w), (Inl Db_Exn, w_db w),
      (Inl Db_Exn, snd (with_session (upsert_block ?p) [] (w_db w)))}"
    by (rule block_outcomes [OF all_or_nothing_upsert block_errors(1)])
  then show "let (res, d) = with_session (upsert_block ?p) ends (w_db w);
          up = upsert_quota (env\<lparr>ev_db_up := True\<rparr>) user_id body rq st w;
          down = upsert_quota (env\<lparr>ev_db_up := False\<rparr>) user_id body rq st w
      in (quota_answer (ev_codec env) res, st, w\<lparr>w_db := d\<rparr>) \<in> {up, down, (fst down, st, snd (snd up))}"
    unfolding upsert [of "env\<lparr>ev_db_up := True\<rparr>"] upsert [of "env\<lparr>ev_db_up := False\<rparr>"]
    by (auto simp: ends_of_def down quota_answer_def Let_def case_prod_unfold)
  have "with_session (delete_block user_id) ends (w_db w) \<in> {with_session (delete_block user_id) [] (w_db w), (Inl Db_Exn, w_db w),
      (Inl Db_Exn, snd (with_session (delete_block user_id) [] (w_db w)))}"
    by (rule block_outcomes [OF delete_all_or_nothing block_errors(2)])
  then show "let (res, d) = with_session (delete_block user_id) ends (w_db w);
          up = delete_quota (env\<lparr>ev_db_up := True\<rparr>) user_id rq st w;
          down = delete_quota (env\<lparr>ev_db_up := False\<rparr>) user_id rq st w
      in (map_sum id (\<lambda>_. no_content) res, st, w\<lparr>w_db := d\<rparr>) \<in> {up, down, (fst down, st, snd (snd up))}"
    unfolding delete [of "env\<lparr>ev_db_up := True\<rparr>"] delete [of "env\<lparr>ev_db_up := False\<rparr>"]
    by (auto simp: ends_of_def down Let_def case_prod_unfold)
  have "snd (with_session (write_block row_id created_at e) ends d) \<in> {snd (with_session (write_block row_id created_at e) [] d), d}"
    using all_or_nothing_write [of row_id created_at e ends d] by (auto simp: all_or_nothing_def split: prod.splits)
  moreover have "store_write False row_id created_at e d = d" by (simp add: store_write_def)
  ultimately show "write_session row_id created_at e ends d \<in>
      {store_write True row_id created_at e d, store_write False row_id created_at e d}"
    using logged [of True] by (auto simp: write_session_def ends_of_def session_factory_def)
qed

text \<open>The blocks that read answer, when no statement fails and when the database is down, as the one-step
  models do, and otherwise as if nothing had failed, or with the failure.\<close>

lemma reads_are_one_step_models:
  "session_factory (query_block Q user limit) (ends_of up) d = (if up then Inr (store_query Q user limit d) else Inl Db_Exn, d)"
  "session_factory (stats_block Q now user d2 d3) (ends_of up) d =
     (if up then Inr (store_stats Q now user d d2 d3) else Inl Db_Exn, d)"
  "with_session (lookup_block now user_id) (ends_of up) d = (if up then Inr (lookup_override now d user_id) else Inl Db_Exn, d)"
proof -
  show "session_factory (query_block Q user limit) (ends_of up) d = (if up then Inr (store_query Q user limit d) else Inl Db_Exn, d)"
    by (simp add: store_query_def query_block_def statement_defs ends_of_def)
  show "session_factory (stats_block Q now user d2 d3) (ends_of up) d =
     (if up then Inr (store_stats Q now user d d2 d3) else Inl Db_Exn, d)"
    by (simp add: store_stats_def day_rows_def stats_block_def statement_defs Let_def ends_of_def)
  show "with_session (lookup_block now user_id) (ends_of up) d = (if up then Inr (lookup_override now d user_id) else Inl Db_Exn, d)"
    by (simp add: lookup_override_def lookup_block_def statement_defs ends_of_def split: option.split)
qed

lemma sessions_read:
  "fst (session_factory (query_block Q user limit) ends d) \<in> {Inl Db_Exn, Inr (store_query Q user limit d)}"
  "fst (session_factory (stats_block Q now user d2 d3) ends d) \<in> {Inl Db_Exn, Inr (store_stats Q now user d d2 d3)}"
  by (auto simp: query_block_def store_query_def stats_block_def store_stats_def day_rows_def statement_defs Let_def
      split: list.split stmt_end.split)

text \<open>C32. Any statement may fail, the commit also after the server has done it, and still each block that
  writes leaves the database as it was or as if nothing had failed, and a result is only returned
  when everything was done: the put, the delete and the log write. The blocks that only read leave
  the database alone whatever happens, for the session is closed without a commit.\<close>

theorem sessions_all_or_nothing:
  "all_or_nothing (upsert_block p) ends d \<and> all_or_nothing (delete_block user_id) ends d
   \<and> all_or_nothing (write_block row_id created_at e) ends d
   \<and> all_or_nothing (get_block user_id) ends d \<and> unchanged (get_block user_id) ends d
   \<and> all_or_nothing (lookup_block now user_id) ends d \<and> unchanged (lookup_block now user_id) ends d
   \<and> all_or_nothing (query_block Q user limit) ends d \<and> unchanged (query_block Q user limit) ends d
   \<and> all_or_nothing (stats_block Q now user d2 d3) ends d \<and> unchanged (stats_block Q now user d2 d3) ends d"
proof (intro conjI)
  show "all_or_nothing (upsert_block p) ends d" by (rule all_or_nothing_upsert)
  show "all_or_nothing (delete_block user_id) ends d"
    by (rule delete_all_or_nothing)
  show "all_or_nothing (write_block row_id created_at e) ends d" by (rule all_or_nothing_write)
  show "all_or_nothing (get_block user_id) ends d" "unchanged (get_block user_id) ends d"
    by (auto simp: all_or_nothing_def unchanged_def get_block_def statement_defs
        split: list.split stmt_end.split option.split)
  show "all_or_nothing (lookup_block now user_id) ends d" "unchanged (lookup_block now user_id) ends d"
    by (auto simp: all_or_nothing_def unchanged_def lookup_block_def statement_defs
        split: list.split stmt_end.split option.split)
  show "all_or_nothing (query_block Q user limit) ends d" "unchanged (query_block Q user limit) ends d"
    by (auto simp: all_or_nothing_def unchanged_def query_block_def statement_defs split: list.split stmt_end.split)
  show "all_or_nothing (stats_block Q now user d2 d3) ends d" "unchanged (stats_block Q now user d2 d3) ends d"
    by (auto simp: all_or_nothing_def unchanged_def stats_block_def statement_defs Let_def
        split: list.split stmt_end.split)
qed

text \<open>A put may be answered with an internal error and be in force: the commit has gone through when
  the refresh fails.\<close>

lemma put_failed_but_in_force:
  assumes "db_quotas d (pt_user p) = None" "length (pt_user p) \<le> 128"
  shows "with_session (upsert_block p) [Succeeds, Succeeds, Fails] d = (Inl Db_Exn, set_quota (pt_user p) (Some (new_row p)) d)"
  using assms by (simp add: upsert_block_def statement_defs)

lemma put_failed_but_in_force_witness:
  "fst (with_session (upsert_block (demo_puts 0)) [Succeeds, Succeeds, Fails] \<lparr>db_quotas = Map.empty, db_logs = []\<rparr>) = Inl Db_Exn
   \<and> db_quotas (snd (with_session (upsert_block (demo_puts 0)) [Succeeds, Succeeds, Fails]
       \<lparr>db_quotas = Map.empty, db_logs = []\<rparr>)) ''alice'' = Some (new_row (demo_puts 0))"
  using put_failed_but_in_force [of "\<lparr>db_quotas = Map.empty, db_logs = []\<rparr>" "demo_puts 0"]
  by (simp add: demo_puts_def set_quota_def)

end
