(* ===== verification/Contracts.thy ===== *)
theory Contracts
  imports Sessions
begin

text \<open>
  The two abstract classes of the infrastructure, \<open>infra/rate_limiter/base.py\<close> and
  \<open>infra/log_store/base.py\<close>, their implementations (\<open>redis_limiter.py\<close>, \<open>postgres_log_store.py\<close>) and
  the providers of \<open>dependencies.py\<close> that hand them out. A class is the record of its methods; what
  its documentation promises is a locale, interpreted on the implementation. The clients (the
  limit service, the admin's log routes) see only the interface.
\<close>

section \<open>The classes\<close>

record 'r RateLimiter =
  rl_check :: "string \<Rightarrow> int \<Rightarrow> int \<Rightarrow> 'r \<Rightarrow> (py_exc + LimitResult) \<times> 'r"

text \<open>The client and the registered script; the delivery and the clock are those of the call.\<close>

definition RedisRateLimiter :: "'r redis_api \<Rightarrow> delivery \<Rightarrow> int \<Rightarrow> 'r RateLimiter" where
  "RedisRateLimiter redis_client dlv now =
     \<lparr>rl_check = (\<lambda>key limit window_seconds. redis_check redis_client dlv now key limit window_seconds)\<rparr>"

text \<open>A call of the store is made in surroundings \<open>'e\<close> and on a content \<open>'d\<close>. \<open>write\<close> returns nothing and
  raises nothing; the others may raise.\<close>

record ('e, 'd) LogStore =
  ls_write :: "'e \<Rightarrow> LogEntry \<Rightarrow> 'd \<Rightarrow> 'd"
  ls_query :: "'e \<Rightarrow> string option \<Rightarrow> nat \<Rightarrow> 'd \<Rightarrow> exn + LogEntry list"
  ls_stats :: "'e \<Rightarrow> string option \<Rightarrow> 'd \<Rightarrow> exn + LogStats"

text \<open>The surroundings of a call of the PostgreSQL store: how its statements end, the id the server would
  give a row, the clock, and what others make of the database before the second and before the third
  statement of a call that has several.\<close>

record connection =
  cn_ends :: "stmt_end list"
  cn_row_id :: int
  cn_now :: int
  cn_later :: "db \<Rightarrow> db \<times> db"

definition PostgresLogStore :: "sql \<Rightarrow> (connection, db) LogStore" where
  "PostgresLogStore Q =
     \<lparr>ls_write = (\<lambda>c e d. write_session (cn_row_id c) (cn_now c) e (cn_ends c) d),
      ls_query = (\<lambda>c user_id limit d. fst (session_factory (query_block Q user_id limit) (cn_ends c) d)),
      ls_stats = (\<lambda>c user_id d. fst (session_factory
          (stats_block Q (cn_now c) user_id (fst (cn_later c d)) (snd (cn_later c d))) (cn_ends c) d))\<rparr>"

definition get_rate_limiter :: "'r redis_api \<Rightarrow> delivery \<Rightarrow> int \<Rightarrow> 'r RateLimiter" where
  "get_rate_limiter redis_client dlv now = RedisRateLimiter redis_client dlv now"

definition get_log_store :: "sql \<Rightarrow> (connection, db) LogStore" where
  "get_log_store Q = PostgresLogStore Q"

section \<open>The clients\<close>

definition check_with :: "'r RateLimiter \<Rightarrow> settings \<Rightarrow> int \<Rightarrow> db \<Rightarrow> string \<Rightarrow> string \<Rightarrow> rat \<Rightarrow> 'r \<Rightarrow> (py_exc + LimitResult) \<times> 'r" where
  "check_with limiter S now d user_id tier health_factor r =
     (let base_limit = resolve_limit S now d user_id tier
      in rl_check limiter (user_key user_id) (effective_limit base_limit health_factor) 60 r)"

lemma check_rate_limit_client:
  "check_rate_limit S R dlv now epoch d user_id tier f r = check_with (get_rate_limiter R dlv epoch) S now d user_id tier f r"
  by (simp add: check_rate_limit_def check_with_def get_rate_limiter_def RedisRateLimiter_def)

definition list_logs_with :: "('e, 'd) LogStore \<Rightarrow> 'e \<Rightarrow> codec \<Rightarrow> request \<Rightarrow> 'd \<Rightarrow> exn + LogEntry list" where
  "list_logs_with store c C rq d =
     (case logs_limit C rq of
        None \<Rightarrow> Inl RequestValidationError
      | Some limit \<Rightarrow> ls_query store c (query_param C rq ''user_id'') limit d)"

definition connection_of :: "'r env \<Rightarrow> connection" where
  "connection_of env = \<lparr>cn_ends = ends_of (ev_db_up env), cn_row_id = 0, cn_now = ev_instant env,
     cn_later = ev_later env\<rparr>"

definition entries_answer :: "codec \<Rightarrow> exn + LogEntry list \<Rightarrow> exn + response" where
  "entries_answer C = map_sum id (\<lambda>entries. json_response 200 (JArr (map (log_response C) entries)) [])"

definition stats_answer :: "codec \<Rightarrow> exn + LogStats \<Rightarrow> exn + response" where
  "stats_answer C = map_sum id (\<lambda>s. json_response 200 (JObj
     [(''total_requests'', JInt (int (total_requests s))),
      (''total_rate_limited'', JInt (int (total_rate_limited s))),
      (''avg_latency_ms'', JFloat (avg_latency_ms s)),
      (''period_start'', JStr (iso C (period_start s))),
      (''period_end'', JStr (iso C (period_end s)))]) [])"

lemma list_logs_client:
  "list_logs env rq st w =
     (entries_answer (ev_codec env)
        (list_logs_with (get_log_store (ev_sql env)) (connection_of env) (ev_codec env) rq (w_db w)), st, w)"
  by (simp add: list_logs_def list_logs_with_def entries_answer_def get_log_store_def PostgresLogStore_def connection_of_def
      ends_of_def query_block_def store_query_def statement_defs Let_def split: option.split)

lemma get_stats_client:
  "get_stats env rq st w =
     (stats_answer (ev_codec env)
        (ls_stats (get_log_store (ev_sql env)) (connection_of env) (query_param (ev_codec env) rq ''user_id'') (w_db w)), st, w)"
  by (simp add: get_stats_def stats_answer_def get_log_store_def PostgresLogStore_def connection_of_def
      ends_of_def stats_block_def store_stats_def day_rows_def statement_defs Let_def)

section \<open>The contract of a rate limiter\<close>

text \<open>For one key: a state in which \<open>k\<close> requests are left is one in which a check is allowed if \<open>k\<close> is
  not 0 and leaves one less, and the checks of other keys leave it as it is. \<open>laws\<close> is what the
  implementation itself relies on.\<close>

locale rate_limiter =
  fixes limiter :: "'r RateLimiter"
    and key :: string and limit :: int and window :: int
    and left :: "nat \<Rightarrow> 'r \<Rightarrow> bool"
    and admissible :: "int \<Rightarrow> int \<Rightarrow> bool"
    and laws :: bool
  assumes check_own: "laws \<Longrightarrow> left k r \<Longrightarrow>
      \<exists>res r'. rl_check limiter key limit window r = (Inr res, r') \<and> lr_allowed res = (1 \<le> k) \<and> left (k - 1) r'"
    and check_other: "laws \<Longrightarrow> left k r \<Longrightarrow> key' \<noteq> key \<Longrightarrow> admissible limit' window' \<Longrightarrow>
      left k (snd (rl_check limiter key' limit' window' r))"
begin

fun own_grants :: "(string \<times> int \<times> int) list \<Rightarrow> 'r \<Rightarrow> nat" where
  "own_grants [] r = 0"
| "own_grants ((key', limit', window') # cs) r =
     (case rl_check limiter key' limit' window' r of
        (Inr res, r') \<Rightarrow> of_bool (key' = key \<and> lr_allowed res) + own_grants cs r'
      | (Inl e, r') \<Rightarrow> own_grants cs r')"

lemma grants_exact:
  assumes "laws" "left k r"
    and "\<forall>(key', limit', window')\<in>set cs. if key' = key then limit' = limit \<and> window' = window else admissible limit' window'"
  shows "own_grants cs r = min (length (filter (\<lambda>c. fst c = key) cs)) k"
  using assms(2,3)
proof (induction cs arbitrary: k r)
  case (Cons c cs)
  obtain key' limit' window' where c: "c = (key', limit', window')" by (cases c)
  show ?case
  proof (cases "key' = key")
    case True
    obtain res r' where res: "rl_check limiter key limit window r = (Inr res, r')" "lr_allowed res = (1 \<le> k)" "left (k - 1) r'"
      using check_own [OF assms(1) Cons.prems(1)] by blast
    have "own_grants cs r' = min (length (filter (\<lambda>c. fst c = key) cs)) (k - 1)"
      using Cons.IH [OF res(3)] Cons.prems(2) by simp
    then show ?thesis using res Cons.prems(2) True by (cases k) (simp_all add: c)
  next
    case False
    have "left k (snd (rl_check limiter key' limit' window' r))"
      using check_other [OF assms(1) Cons.prems(1) False] Cons.prems(2) False by (simp add: c)
    then show ?thesis
      using Cons.IH [of k] Cons.prems(2) False
      by (cases "rl_check limiter key' limit' window' r"; cases "fst (rl_check limiter key' limit' window' r)") (simp_all add: c)
  qed
qed simp

text \<open>The promise of \<open>base.py\<close>: two checks of the key never both succeed if only one token is left.\<close>

lemma one_left_one_succeeds:
  assumes "laws" "left 1 r" "rl_check limiter key limit window r = (Inr a, r')" "rl_check limiter key limit window r' = (b, r'')"
  shows "lr_allowed a \<and> (\<exists>res. b = Inr res \<and> \<not> lr_allowed res)"
  using check_own [OF assms(1,2)] check_own [OF assms(1), of 0 r'] assms(3,4) by auto

end

definition script_admissible :: "int \<Rightarrow> int \<Rightarrow> bool" where
  "script_admissible limit window \<longleftrightarrow> limit_ok limit \<and> window_ok window"

interpretation redis_limiter: rate_limiter "RedisRateLimiter R Delivered now" key limit window
    "\<lambda>k r. whole_tokens R key limit k now r" script_admissible
    "hash_laws R \<and> limit_ok limit \<and> window_ok window \<and> sane_clock now"
  for R now key limit window
proof
  fix k r
  assume laws: "hash_laws R \<and> limit_ok limit \<and> window_ok window \<and> sane_clock now" and k: "whole_tokens R key limit k now r"
  note step = whole_tokens_step [of R limit window now key k r]
  obtain res r' where c: "redis_check R Delivered now key limit window r = (res, r')" by fastforce
  have "\<exists>a. res = Inr a"
    using redis_check_reply [of limit window R now key r] laws c by (simp split: sum.splits)
  then show "\<exists>res r'. rl_check (RedisRateLimiter R Delivered now) key limit window r = (Inr res, r') \<and>
      lr_allowed res = (1 \<le> k) \<and> whole_tokens R key limit (k - 1) now r'"
    using step laws k c by (auto simp: RedisRateLimiter_def)
  fix key' limit' window'
  assume "key' \<noteq> key" "script_admissible limit' window'"
  then show "whole_tokens R key limit k now (snd (rl_check (RedisRateLimiter R Delivered now) key' limit' window' r))"
    using k laws check_other_key [of R limit' window' key key' now]
    by (simp add: RedisRateLimiter_def whole_tokens_def script_admissible_def)
qed

lemma one_token_one_success:
  assumes "hash_laws R" "limit_ok limit" "window_ok window" "sane_clock now" "whole_tokens R key limit 1 now r"
    and "rl_check (get_rate_limiter R Delivered now) key limit window r = (Inr a, r')"
    and "rl_check (get_rate_limiter R Delivered now) key limit window r' = (b, r'')"
  shows "lr_allowed a \<and> (\<exists>res. b = Inr res \<and> \<not> lr_allowed res)"
  using redis_limiter.one_left_one_succeeds [of R limit window now key r a r' b r''] assms
  by (simp add: get_rate_limiter_def)

section \<open>The contract of a log store\<close>







end
