(* ===== verification/Url.thy ===== *)
theory Url
  imports Http
begin

text \<open>
  What \<open>app/infra/database.py\<close> uses of Python's \<open>urllib.parse\<close> (3.12, the version of the
  Dockerfile): \<open>urlparse\<close>, \<open>urlunparse\<close>, \<open>parse_qs\<close> with blank values kept, and \<open>urlencode\<close>. The
  Unicode tables behind them are a parameter (\<open>unicode\<close>): UTF-8 with \<open>errors='replace'\<close>, and the
  check of host parts with brackets or non-ASCII characters.
\<close>

section \<open>Percent encoding\<close>

record unicode =
  utf8_encode :: "string \<Rightarrow> string"
  utf8_decode :: "string \<Rightarrow> string"
  netloc_check :: "string \<Rightarrow> bool"

definition ascii_char :: "char \<Rightarrow> bool" where
  "ascii_char c \<longleftrightarrow> (of_char c :: nat) < 128"

definition ascii :: "string \<Rightarrow> bool" where
  "ascii s \<longleftrightarrow> list_all ascii_char s"

text \<open>Decoding inverts encoding, and both leave ASCII alone; a host part in ASCII without brackets
  passes the check.\<close>

definition unicode_laws :: "unicode \<Rightarrow> bool" where
  "unicode_laws U \<longleftrightarrow>
     (\<forall>s. utf8_decode U (utf8_encode U s) = s)
   \<and> (\<forall>s. ascii s \<longrightarrow> utf8_encode U s = s \<and> utf8_decode U s = s)
   \<and> (\<forall>s. ascii s \<and> CHR ''['' \<notin> set s \<and> CHR '']'' \<notin> set s \<longrightarrow> netloc_check U s)"

definition hex_digit :: "nat \<Rightarrow> char" where
  "hex_digit d = (if d < 10 then char_of (48 + d) else char_of (55 + d))"

text \<open>\<open>_ALWAYS_SAFE\<close>: letters, digits and four marks.\<close>

definition always_safe :: "char \<Rightarrow> bool" where
  "always_safe c \<longleftrightarrow> is_alpha c \<or> is_digit c \<or> c \<in> {CHR ''_'', CHR ''.'', CHR ''-'', CHR ''~''}"

definition quote_byte :: "char \<Rightarrow> string" where
  "quote_byte c =
     (if c = CHR '' '' then ''+''
      else if always_safe c then [c]
      else [CHR ''%'', hex_digit (of_char c div 16), hex_digit (of_char c mod 16)])"

definition quote_plus :: "unicode \<Rightarrow> string \<Rightarrow> string" where
  "quote_plus U s = concat (map quote_byte (utf8_encode U s))"

text \<open>\<open>%xx\<close> with two hexadecimal digits is a byte, any other \<open>%\<close> stays.\<close>

fun unquote_to_bytes :: "string \<Rightarrow> string" where
  "unquote_to_bytes [] = []"
| "unquote_to_bytes (c # s) =
     (if c = CHR ''%'' then
        (case s of
           a # b # r \<Rightarrow>
             (case (hex_val a, hex_val b) of
                (Some x, Some y) \<Rightarrow> char_of (16 * x + y) # unquote_to_bytes r
              | _ \<Rightarrow> c # unquote_to_bytes s)
         | _ \<Rightarrow> c # unquote_to_bytes s)
      else c # unquote_to_bytes s)"

text \<open>The runs of ASCII characters are decoded one by one, what is between them stays.\<close>

function unquote_runs :: "unicode \<Rightarrow> string \<Rightarrow> string" where
  "unquote_runs U s =
     (let rest = dropWhile (Not \<circ> ascii_char) s
      in takeWhile (Not \<circ> ascii_char) s @
         (if rest = [] then []
          else utf8_decode U (unquote_to_bytes (takeWhile ascii_char rest))
               @ unquote_runs U (dropWhile ascii_char rest)))"
  by pat_completeness auto
termination
proof (relation "measure (length \<circ> snd)")
  fix U :: unicode and s rest :: string
  assume rest: "rest = dropWhile (Not \<circ> ascii_char) s" "rest \<noteq> []"
  have "length (dropWhile ascii_char rest) < length rest"
  proof (cases rest)
    case (Cons c r)
    then have "ascii_char c" using rest hd_dropWhile [of "Not \<circ> ascii_char" s] by simp
    then show ?thesis using Cons by (simp add: length_dropWhile_le le_imp_less_Suc)
  qed (use rest in simp)
  also have "length rest \<le> length s" unfolding rest(1) by (rule length_dropWhile_le)
  finally show "((U, dropWhile ascii_char rest), U, s) \<in> measure (length \<circ> snd)" by simp
qed simp

declare unquote_runs.simps [simp del]

definition unquote :: "unicode \<Rightarrow> string \<Rightarrow> string" where
  "unquote U s = (if CHR ''%'' \<notin> set s then s else unquote_runs U s)"

definition unquote_plus :: "unicode \<Rightarrow> string \<Rightarrow> string" where
  "unquote_plus U s = unquote U (map (\<lambda>c. if c = CHR ''+'' then CHR '' '' else c) s)"

section \<open>Query strings\<close>

text \<open>\<open>s.partition(c)\<close>, without the separator.\<close>

definition cut :: "char \<Rightarrow> string \<Rightarrow> string \<times> string" where
  "cut c s = (takeWhile ((\<noteq>) c) s, drop 1 (dropWhile ((\<noteq>) c) s))"

definition parse_qsl :: "unicode \<Rightarrow> string \<Rightarrow> (string \<times> string) list" where
  "parse_qsl U qs =
     [(unquote_plus U (fst (cut (CHR ''='') nv)), unquote_plus U (snd (cut (CHR ''='') nv))).
        nv \<leftarrow> split_on (CHR ''&'') qs, nv \<noteq> []]"

text \<open>\<open>parsed_result[name].append(value)\<close>, in a dictionary that keeps insertion order.\<close>

fun add_value :: "string \<Rightarrow> string \<Rightarrow> (string \<times> string list) list \<Rightarrow> (string \<times> string list) list" where
  "add_value k v [] = [(k, [v])]"
| "add_value k v ((k', vs) # d) = (if k' = k then (k', vs @ [v]) # d else (k', vs) # add_value k v d)"

definition parse_qs :: "unicode \<Rightarrow> string \<Rightarrow> (string \<times> string list) list" where
  "parse_qs U qs = fold (\<lambda>(k, v). add_value k v) (parse_qsl U qs) []"

definition urlencode :: "unicode \<Rightarrow> (string \<times> string) list \<Rightarrow> string" where
  "urlencode U kvs = join ''&'' (map (\<lambda>(k, v). quote_plus U k @ ''='' @ quote_plus U v) kvs)"

section \<open>URLs\<close>

record url =
  u_scheme :: string
  u_netloc :: string
  u_path :: string
  u_params :: string
  u_query :: string
  u_fragment :: string

definition scheme_char :: "char \<Rightarrow> bool" where
  "scheme_char c \<longleftrightarrow> is_alpha c \<or> is_digit c \<or> c \<in> {CHR ''+'', CHR ''-'', CHR ''.''}"

definition uses_netloc :: "string set" where
  "uses_netloc = {'''', ''ftp'', ''http'', ''gopher'', ''nntp'', ''telnet'', ''imap'', ''wais'', ''file'',
     ''mms'', ''https'', ''shttp'', ''snews'', ''prospero'', ''rtsp'', ''rtsps'', ''rtspu'', ''rsync'',
     ''svn'', ''svn+ssh'', ''sftp'', ''nfs'', ''git'', ''git+ssh'', ''ws'', ''wss'', ''itms-services''}"

definition uses_params :: "string set" where
  "uses_params = {'''', ''ftp'', ''hdl'', ''prospero'', ''http'', ''imap'', ''https'', ''shttp'', ''rtsp'',
     ''rtsps'', ''rtspu'', ''sip'', ''sips'', ''mms'', ''sftp'', ''tel''}"

text \<open>Leading control characters and blanks go, tabs and line ends go everywhere.\<close>

definition clean_url :: "string \<Rightarrow> string" where
  "clean_url s = filter (\<lambda>c. c \<notin> {CHR 0x09, CHR 0x0D, CHR 0x0A})
                   (dropWhile (\<lambda>c. (of_char c :: nat) \<le> 32) s)"

definition split_scheme :: "string \<Rightarrow> string \<times> string" where
  "split_scheme s =
     (let (name, rest) = cut (CHR '':'') s
      in if CHR '':'' \<in> set s \<and> name \<noteq> [] \<and> is_alpha (hd name) \<and> list_all scheme_char name
         then (lower name, rest) else ([], s))"

definition in_netloc :: "char \<Rightarrow> bool" where
  "in_netloc c \<longleftrightarrow> c \<notin> {CHR ''/'', CHR ''?'', CHR ''#''}"

definition split_netloc :: "string \<Rightarrow> string \<times> string" where
  "split_netloc s =
     (if startswith s ''//'' then (takeWhile in_netloc (drop 2 s), dropWhile in_netloc (drop 2 s)) else ([], s))"

definition split_params :: "string \<Rightarrow> string \<times> string" where
  "split_params s =
     (let (last, params) = cut (CHR '';'') (rev (takeWhile ((\<noteq>) (CHR ''/'')) (rev s)))
      in (rev (dropWhile ((\<noteq>) (CHR ''/'')) (rev s)) @ last, params))"

definition netloc_ok :: "unicode \<Rightarrow> string \<Rightarrow> bool" where
  "netloc_ok U netloc \<longleftrightarrow> (CHR ''['' \<in> set netloc \<longleftrightarrow> CHR '']'' \<in> set netloc) \<and> netloc_check U netloc"

definition urlparse :: "unicode \<Rightarrow> string \<Rightarrow> py_exc + url" where
  "urlparse U s =
     (let (scheme, s1) = split_scheme (clean_url s);
          (netloc, s2) = split_netloc s1;
          (s3, fragment) = cut (CHR ''#'') s2;
          (s4, query) = cut (CHR ''?'') s3;
          (path, params) = (if scheme \<in> uses_params then split_params s4 else (s4, []))
      in if \<not> netloc_ok U netloc then Inl ValueError
         else Inr \<lparr>u_scheme = scheme, u_netloc = netloc, u_path = path, u_params = params,
                   u_query = query, u_fragment = fragment\<rparr>)"

definition urlunparse :: "url \<Rightarrow> string" where
  "urlunparse p =
     (let path = (if u_params p = [] then u_path p else u_path p @ '';'' @ u_params p);
          full = (if u_netloc p \<noteq> [] then
                    ''//'' @ u_netloc p @ (if path \<noteq> [] \<and> \<not> startswith path ''/'' then ''/'' @ path else path)
                  else if startswith path ''//'' then ''//'' @ path
                  else if u_scheme p \<noteq> [] \<and> u_scheme p \<in> uses_netloc \<and> (path = [] \<or> startswith path ''/'')
                  then ''//'' @ path
                  else path)
      in (if u_scheme p = [] then [] else u_scheme p @ '':'') @ full
         @ (if u_query p = [] then [] else ''?'' @ u_query p)
         @ (if u_fragment p = [] then [] else ''#'' @ u_fragment p))"

section \<open>What is encoded is decoded\<close>

definition plus_to_space :: "char \<Rightarrow> char" where
  "plus_to_space c = (if c = CHR ''+'' then CHR '' '' else c)"

definition quoted_char :: "char \<Rightarrow> bool" where
  "quoted_char c \<longleftrightarrow> always_safe c \<or> c = CHR ''+'' \<or> c = CHR ''%''"

lemma hex_val_digit: "d < 16 \<Longrightarrow> hex_val (hex_digit d) = Some d"
  by (simp add: hex_val_def hex_digit_def of_char_small)

lemma hex_digit_safe: "d < 16 \<Longrightarrow> always_safe (hex_digit d)"
  by (simp add: hex_digit_def always_safe_def is_digit_def is_alpha_def of_char_small)

lemma not_safe: "\<not> always_safe (CHR ''+'')" "\<not> always_safe (CHR ''%'')" "\<not> always_safe (CHR ''&'')"
  "\<not> always_safe (CHR ''='')" "\<not> always_safe (CHR ''#'')" "\<not> always_safe (CHR ''?'')"
  "\<not> always_safe (CHR 0x09)" "\<not> always_safe (CHR 0x0D)" "\<not> always_safe (CHR 0x0A)"
  by (simp_all add: always_safe_def is_digit_def is_alpha_def)

lemma not_quoted: "\<not> quoted_char (CHR ''&'')" "\<not> quoted_char (CHR ''='')" "\<not> quoted_char (CHR ''#'')"
  "\<not> quoted_char (CHR ''?'')" "\<not> quoted_char (CHR 0x09)" "\<not> quoted_char (CHR 0x0D)" "\<not> quoted_char (CHR 0x0A)"
  by (simp_all add: quoted_char_def not_safe)

lemma always_safe_ascii: "always_safe c \<Longrightarrow> ascii_char c"
  by (auto simp: always_safe_def ascii_char_def is_digit_def is_alpha_def Let_def)

lemma quoted_char_ascii: "quoted_char c \<Longrightarrow> ascii_char c"
  by (auto simp: quoted_char_def always_safe_ascii) (simp_all add: ascii_char_def)

lemma quote_byte_chars: "x \<in> set (quote_byte c) \<Longrightarrow> quoted_char x"
  by (auto simp: quote_byte_def quoted_char_def hex_digit_safe nibbles split: if_splits)

lemma quote_plus_chars: "x \<in> set (quote_plus U s) \<Longrightarrow> quoted_char x"
  by (auto simp: quote_plus_def quote_byte_chars)

lemma unquote_quoted_byte:
  "unquote_to_bytes (map plus_to_space (quote_byte c) @ r) = c # unquote_to_bytes r"
proof -
  let ?n = "of_char c :: nat"
  note d = nibbles [of c]
  have keep: "plus_to_space (hex_digit k) = hex_digit k" if "k < 16" for k
    using hex_digit_safe [OF that] not_safe(1) by (auto simp: plus_to_space_def)
  have whole: "char_of (16 * (?n div 16) + ?n mod 16) = c" by simp
  show ?thesis
  proof (cases "c = CHR '' '' \<or> always_safe c")
    case True
    then show ?thesis using not_safe(1,2) by (auto simp: quote_byte_def plus_to_space_def)
  next
    case False
    then have "quote_byte c = [CHR ''%'', hex_digit (?n div 16), hex_digit (?n mod 16)]"
      by (simp add: quote_byte_def)
    then show ?thesis
      using whole d by (simp add: keep hex_val_digit) (simp add: plus_to_space_def)
  qed
qed

lemma unquote_quoted: "unquote_to_bytes (map plus_to_space (concat (map quote_byte s))) = s"
  by (induction s) (simp_all add: unquote_quoted_byte)

lemma unquote_to_bytes_plain: "CHR ''%'' \<notin> set s \<Longrightarrow> unquote_to_bytes s = s"
  by (induction s rule: unquote_to_bytes.induct) auto

lemma unquote_runs_ascii:
  assumes "ascii s" "s \<noteq> []"
  shows "unquote_runs U s = utf8_decode U (unquote_to_bytes s)"
proof -
  have all: "takeWhile ascii_char s = s" "dropWhile ascii_char s = []"
    using assms(1) by (simp_all add: ascii_def list_all_iff takeWhile_eq_all_conv)
  have none: "takeWhile (Not \<circ> ascii_char) s = []" "dropWhile (Not \<circ> ascii_char) s = s"
    using assms by (cases s; simp add: ascii_def)+
  have "unquote_runs U [] = []" by (simp add: unquote_runs.simps [of U "[]"])
  then show ?thesis using assms(2) by (simp add: unquote_runs.simps [of U s] none all)
qed

lemma unquote_quote_plus:
  assumes "unicode_laws U"
  shows "unquote_plus U (quote_plus U s) = s"
proof -
  let ?b = "utf8_encode U s" and ?q = "map plus_to_space (quote_plus U s)"
  have bytes: "unquote_to_bytes ?q = ?b" by (simp add: quote_plus_def unquote_quoted)
  have ascii: "ascii ?q"
    unfolding ascii_def list_all_iff
    by (auto dest!: quote_plus_chars quoted_char_ascii simp: plus_to_space_def ascii_char_def)
  have laws: "utf8_decode U ?b = s" "utf8_decode U ?q = ?q"
    using assms ascii by (simp_all add: unicode_laws_def)
  have "unquote U ?q = s"
  proof (cases "CHR ''%'' \<in> set ?q")
    case True
    then have "?q \<noteq> []" by force
    then have "unquote_runs U ?q = utf8_decode U (unquote_to_bytes ?q)"
      using unquote_runs_ascii [OF ascii] by blast
    with True show ?thesis by (simp add: unquote_def bytes laws(1))
  next
    case False
    then have "unquote_to_bytes ?q = ?q" by (rule unquote_to_bytes_plain)
    then have "?q = ?b" using bytes by simp
    then have "?q = s" using laws by simp
    with False show ?thesis by (simp add: unquote_def)
  qed
  then show ?thesis by (simp add: unquote_plus_def plus_to_space_def [abs_def])
qed

lemma cut_append: "c \<notin> set a \<Longrightarrow> cut c (a @ c # b) = (a, b)"
  by (induction a) (auto simp: cut_def)

lemma cut_none: "c \<notin> set a \<Longrightarrow> cut c a = (a, [])"
  by (induction a) (auto simp: cut_def)

lemma split_on_join:
  assumes "items \<noteq> []" "\<forall>x\<in>set items. c \<notin> set x"
  shows "split_on c (join [c] items) = items"
  using assms
proof (induction items rule: list_nonempty_induct)
  case (single x)
  then show ?case by (simp add: split_on_no_sep)
next
  case (cons x xs)
  then show ?case by (cases xs) (simp_all add: split_on_append)
qed

lemma parse_urlencode:
  assumes "unicode_laws U"
  shows "parse_qsl U (urlencode U kvs) = kvs"
proof (cases "kvs = []")
  case True
  then show ?thesis by (simp add: parse_qsl_def urlencode_def)
next
  case False
  let ?item = "\<lambda>(k, v). quote_plus U k @ ''='' @ quote_plus U v"
  have amp: "CHR ''&'' \<notin> set (quote_plus U s)" "CHR ''='' \<notin> set (quote_plus U s)" for s
    using quote_plus_chars not_quoted by blast+
  have "split_on (CHR ''&'') (urlencode U kvs) = map ?item kvs"
    unfolding urlencode_def using False amp by (intro split_on_join) (auto split: prod.splits)
  then have "parse_qsl U (urlencode U kvs) =
      [(unquote_plus U (fst (cut (CHR ''='') nv)), unquote_plus U (snd (cut (CHR ''='') nv))).
        nv \<leftarrow> map ?item kvs, nv \<noteq> []]"
    by (simp add: parse_qsl_def)
  also have "\<dots> = kvs"
    by (induction kvs) (auto simp: cut_append amp unquote_quote_plus [OF assms] split: prod.splits)
  finally show ?thesis .
qed

section \<open>What is put together is taken apart\<close>

text \<open>The parts of a URL with a scheme that has no parameters, as \<open>urlparse\<close> finds them.\<close>

definition blank_free :: "string \<Rightarrow> bool" where
  "blank_free s \<longleftrightarrow> CHR 0x09 \<notin> set s \<and> CHR 0x0D \<notin> set s \<and> CHR 0x0A \<notin> set s"

definition parsed_parts :: "url \<Rightarrow> bool" where
  "parsed_parts p \<longleftrightarrow>
     u_scheme p \<noteq> [] \<and> is_alpha (hd (u_scheme p)) \<and> list_all scheme_char (u_scheme p)
   \<and> lower (u_scheme p) = u_scheme p \<and> u_params p = []
   \<and> list_all in_netloc (u_netloc p)
   \<and> (u_netloc p \<noteq> [] \<longrightarrow> u_path p = [] \<or> hd (u_path p) = CHR ''/'')
   \<and> CHR ''#'' \<notin> set (u_path p) \<and> CHR ''?'' \<notin> set (u_path p) \<and> CHR ''#'' \<notin> set (u_query p)
   \<and> blank_free (u_scheme p @ u_netloc p @ u_path p @ u_query p @ u_fragment p)"

lemma lower_char_cases:
  obtains "lower_char c = c" | "is_alpha c" "is_alpha (lower_char c)" "lower_char (lower_char c) = lower_char c"
proof (cases "65 \<le> (of_char c :: nat) \<and> (of_char c :: nat) \<le> 90")
  case True
  then have "of_char (lower_char c) = (of_char c :: nat) + 32"
    by (simp add: lower_char_def of_char_small)
  with True show thesis
    by (intro that(2)) (simp_all add: is_alpha_def lower_char_def [of "lower_char c"])
next
  case False
  then show thesis by (intro that(1)) (auto simp: lower_char_def Let_def)
qed

lemma lower_char_idem [simp]: "lower_char (lower_char c) = lower_char c"
  by (rule lower_char_cases [of c]) simp_all

lemma is_alpha_lower: "is_alpha c \<Longrightarrow> is_alpha (lower_char c)"
  by (rule lower_char_cases [of c]) simp_all

lemma scheme_char_lower: "scheme_char c \<Longrightarrow> scheme_char (lower_char c)"
  by (rule lower_char_cases [of c]) (auto simp: scheme_char_def)

lemma scheme_char_plain: "scheme_char c \<Longrightarrow> c \<notin> {CHR 0x09, CHR 0x0D, CHR 0x0A, CHR '':''}"
  by (auto simp: scheme_char_def is_alpha_def is_digit_def)

lemma is_alpha_big: "is_alpha c \<Longrightarrow> \<not> (of_char c :: nat) \<le> 32"
  by (auto simp: is_alpha_def Let_def)

lemma set_cut: "set (fst (cut c s)) \<subseteq> set s" "set (snd (cut c s)) \<subseteq> set s"
  by (auto simp: cut_def dest: set_takeWhileD in_set_dropD set_dropWhileD)

lemma fst_cut_free: "c \<notin> set (fst (cut c s))"
  by (auto simp: cut_def dest: set_takeWhileD)

lemma blank_free_subset: "blank_free s \<Longrightarrow> set t \<subseteq> set s \<Longrightarrow> blank_free t"
  by (auto simp: blank_free_def)

lemma blank_free_append [simp]: "blank_free (s @ t) \<longleftrightarrow> blank_free s \<and> blank_free t"
  by (auto simp: blank_free_def)

lemma clean_url_blank_free: "blank_free (clean_url s)"
  by (simp add: blank_free_def clean_url_def)

lemma hd_cut: "fst (cut c s) \<noteq> [] \<Longrightarrow> hd (fst (cut c s)) = hd s"
  by (cases s) (auto simp: cut_def split: if_splits)

lemma split_netloc_parts:
  assumes "split_netloc s = (n, r)"
  shows "list_all in_netloc n" "set n \<subseteq> set s" "set r \<subseteq> set s" "n = [] \<or> r = [] \<or> \<not> in_netloc (hd r)"
proof -
  have "n = [] \<and> r = s \<or> n = takeWhile in_netloc (drop 2 s) \<and> r = dropWhile in_netloc (drop 2 s)"
    using assms by (auto simp: split_netloc_def split: if_splits)
  then show "list_all in_netloc n" "set n \<subseteq> set s" "set r \<subseteq> set s" "n = [] \<or> r = [] \<or> \<not> in_netloc (hd r)"
    using hd_dropWhile [of in_netloc "drop 2 s"]
    by (auto simp: list_all_iff dest: set_takeWhileD set_dropWhileD in_set_dropD)
qed

lemma urlparse_parts:
  assumes "urlparse U s = Inr p" "u_scheme p \<notin> uses_params"
  shows "parsed_parts p \<and> netloc_ok U (u_netloc p)"
proof -
  obtain scheme s1 where scheme: "split_scheme (clean_url s) = (scheme, s1)" by fastforce
  obtain netloc s2 where netloc: "split_netloc s1 = (netloc, s2)" by fastforce
  obtain s3 fragment where frag: "cut (CHR ''#'') s2 = (s3, fragment)" by fastforce
  obtain path query where query: "cut (CHR ''?'') s3 = (path, query)" by fastforce
  have p: "p = \<lparr>u_scheme = scheme, u_netloc = netloc, u_path = path, u_params = [], u_query = query,
      u_fragment = fragment\<rparr>" and ok: "netloc_ok U netloc" and np: "scheme \<notin> uses_params"
    using assms by (auto simp: urlparse_def scheme netloc frag query Let_def split: prod.splits if_splits)
  let ?b = "fst (cut (CHR '':'') (clean_url s))"
  have "scheme \<noteq> []" using np by (auto simp: uses_params_def)
  then have sch: "scheme = lower ?b" "s1 = snd (cut (CHR '':'') (clean_url s))"
    "?b \<noteq> []" "is_alpha (hd ?b)" "list_all scheme_char ?b"
    using scheme by (auto simp: split_scheme_def split: prod.splits if_splits)
  have chars: "list_all scheme_char scheme" "is_alpha (hd scheme)" "lower scheme = scheme"
    using sch by (auto simp: lower_def list_all_iff scheme_char_lower is_alpha_lower hd_map)
  then have "blank_free scheme" using scheme_char_plain by (fastforce simp: blank_free_def list_all_iff)
  moreover note sub = set_cut [of "CHR ''#''" s2] set_cut [of "CHR ''?''" s3]
  have "set s1 \<subseteq> set (clean_url s)" unfolding sch(2) by (rule set_cut)
  then have all: "set (netloc @ path @ query @ fragment) \<subseteq> set (clean_url s)"
    using sub split_netloc_parts(2,3) [OF netloc] by (simp add: frag query) blast
  ultimately have bf: "blank_free (scheme @ netloc @ path @ query @ fragment)"
    using blank_free_subset [OF clean_url_blank_free all] by simp
  have free: "CHR ''#'' \<notin> set s3" "CHR ''?'' \<notin> set path"
    using fst_cut_free [of "CHR ''#''" s2] fst_cut_free [of "CHR ''?''" s3] by (simp_all add: frag query)
  then have "CHR ''#'' \<notin> set path" "CHR ''#'' \<notin> set query" using sub by (auto simp: frag query)
  moreover have "path = [] \<or> hd path = CHR ''/''" if "netloc \<noteq> []"
  proof (cases "path = []")
    case False
    then have "hd path = hd s3" "s3 \<noteq> []"
      using hd_cut [of "CHR ''?''" s3] sub(3) by (auto simp: query)
    then have hd: "hd path = hd s2" "s2 \<noteq> []"
      using hd_cut [of "CHR ''#''" s2] sub(1) by (auto simp: frag)
    then have "\<not> in_netloc (hd path)" using split_netloc_parts(4) [OF netloc] that by simp
    moreover have "hd path \<noteq> CHR ''?''" "hd path \<noteq> CHR ''#''"
      using False free \<open>CHR ''#'' \<notin> set path\<close> hd_in_set by metis+
    ultimately show ?thesis by (simp add: in_netloc_def)
  qed simp
  ultimately show ?thesis
    using free(2) bf chars \<open>scheme \<noteq> []\<close> ok split_netloc_parts(1) [OF netloc]
    unfolding parsed_parts_def p by simp
qed

lemma cut_join:
  "c \<notin> set a \<Longrightarrow> cut c (a @ (if b = [] then [] else c # b)) = (a, b)"
  by (simp add: cut_append cut_none)

lemma urlparse_urlunparse:
  assumes p: "parsed_parts p" "u_scheme p \<notin> uses_params" "u_netloc p \<noteq> []"
  shows "urlparse U (urlunparse p) = (if netloc_ok U (u_netloc p) then Inr p else Inl ValueError)"
proof -
  define q where "q = (if u_query p = [] then [] else CHR ''?'' # u_query p)"
  define f where "f = (if u_fragment p = [] then [] else CHR ''#'' # u_fragment p)"
  define rest where "rest = u_path p @ q @ f"
  have "u_path p = [] \<or> startswith (u_path p) ''/''"
    using p(1,3) by (cases "u_path p") (auto simp: parsed_parts_def startswith_def)
  then have text_of: "urlunparse p = u_scheme p @ CHR '':'' # CHR ''/'' # CHR ''/'' # u_netloc p @ rest"
    using p(1,3) unfolding rest_def q_def f_def by (auto simp: urlunparse_def parsed_parts_def Let_def)
  have clean: "clean_url (urlunparse p) = urlunparse p"
  proof -
    have "blank_free (urlunparse p)"
      using p(1) unfolding text_of rest_def q_def f_def by (auto simp: parsed_parts_def blank_free_def)
    moreover have "\<not> (of_char (hd (urlunparse p)) :: nat) \<le> 32" "urlunparse p \<noteq> []"
      using p(1) is_alpha_big unfolding text_of by (auto simp: parsed_parts_def hd_append)
    ultimately show ?thesis
      by (cases "urlunparse p") (auto simp: clean_url_def blank_free_def filter_id_conv)
  qed
  have colon: "CHR '':'' \<notin> set (u_scheme p)"
    using p(1) scheme_char_plain by (fastforce simp: parsed_parts_def list_all_iff)
  have scheme: "split_scheme (urlunparse p) = (u_scheme p, CHR ''/'' # CHR ''/'' # u_netloc p @ rest)"
    using p(1) unfolding text_of by (simp add: split_scheme_def cut_append colon parsed_parts_def)
  have "rest = [] \<or> \<not> in_netloc (hd rest)"
    using p(1,3) unfolding rest_def q_def f_def by (auto simp: parsed_parts_def in_netloc_def hd_append)
  then have netloc: "split_netloc (CHR ''/'' # CHR ''/'' # u_netloc p @ rest) = (u_netloc p, rest)"
    using p(1) by (cases rest)
      (auto simp: split_netloc_def startswith_def parsed_parts_def list_all_iff takeWhile_append dropWhile_append)
  have frag: "cut (CHR ''#'') rest = (u_path p @ q, u_fragment p)"
    using p(1) cut_join [of "CHR ''#''" "u_path p @ q" "u_fragment p"]
    unfolding rest_def f_def q_def by (simp add: parsed_parts_def split: if_splits)
  have query: "cut (CHR ''?'') (u_path p @ q) = (u_path p, u_query p)"
    using p(1) cut_join [of "CHR ''?''" "u_path p" "u_query p"] unfolding q_def by (simp add: parsed_parts_def)
  show ?thesis
    using p(1,2) by (simp add: urlparse_def clean scheme netloc frag query parsed_parts_def)
qed

section \<open>An instance, for concrete runs\<close>

text \<open>UTF-8 of the characters below 256; the host check accepts every name.\<close>

fun demo_encode :: "string \<Rightarrow> string" where
  "demo_encode [] = []"
| "demo_encode (c # s) =
     (let n = of_char c :: nat
      in (if n < 128 then [c] else [char_of (192 + n div 64), char_of (128 + n mod 64)]) @ demo_encode s)"

fun demo_decode :: "string \<Rightarrow> string" where
  "demo_decode [] = []"
| "demo_decode [c] = (if (of_char c :: nat) < 128 then [c] else ''?'')"
| "demo_decode (c # d # s) =
     (if (of_char c :: nat) < 128 then c # demo_decode (d # s)
      else char_of (64 * ((of_char c :: nat) mod 4) + (of_char d :: nat) mod 64) # demo_decode s)"

definition demo_unicode :: unicode where
  "demo_unicode = \<lparr>utf8_encode = demo_encode, utf8_decode = demo_decode, netloc_check = (\<lambda>s. True)\<rparr>"

lemma demo_decode_ascii: "(of_char c :: nat) < 128 \<Longrightarrow> demo_decode (c # s) = c # demo_decode s"
  by (cases s) simp_all

lemma demo_decode_encode: "demo_decode (demo_encode s) = s"
proof (induction s)
  case (Cons c s)
  show ?case
  proof (cases "(of_char c :: nat) < 128")
    case True
    with Cons show ?thesis by (simp add: demo_decode_ascii)
  next
    case False
    define n where "n = (of_char c :: nat)"
    define a where "a = 192 + n div 64"
    define b where "b = 128 + n mod 64"
    have "n < 256" unfolding n_def by (rule of_char_less)
    then have q: "n div 64 < 4" by (simp add: div_less_iff_less_mult)
    have small: "(192 + k) mod 4 = k" if "k < 4" for k :: nat using that by presburger
    have "a < 256" "128 \<le> a" "a mod 4 = n div 64" using q by (simp_all add: a_def small)
    note a = this
    from a(2) have nota: "\<not> a < 128" by simp
    have "n mod 64 < 64" by simp
    then have b: "b < 256" unfolding b_def by linarith
    have b64: "b mod 64 = n mod 64" using mod_mult_self3 [of 2 64 "n mod 64"] by (simp add: b_def)
    have "demo_encode (c # s) = char_of a # char_of b # demo_encode s"
      using False by (simp add: a_def b_def n_def Let_def)
    then have "demo_decode (demo_encode (c # s)) =
        char_of (64 * (a mod 4) + b mod 64) # demo_decode (demo_encode s)"
      using nota by (simp only: demo_decode.simps of_char_small [OF a(1)] of_char_small [OF b] if_False)
    then show ?thesis using Cons by (simp only: a(3) b64) (simp add: n_def)
  qed
qed simp

lemma demo_unicode_laws: "unicode_laws demo_unicode"
proof -
  have "demo_encode s = s \<and> demo_decode s = s" if "ascii s" for s
    using that by (induction s) (simp_all add: ascii_def ascii_char_def demo_decode_ascii)
  then show ?thesis by (simp add: unicode_laws_def demo_unicode_def demo_decode_encode)
qed

end
