(* ===== verification/Engine.thy ===== *)
theory Engine
  imports Url Config
begin

text \<open>
  \<open>app/infra/database.py\<close>: how the database URL of the settings becomes the arguments of
  \<open>create_async_engine\<close>. asyncpg takes no \<open>ssl\<close> or \<open>sslmode\<close> parameter, so the two are taken out of
  the query and turned into an SSL context. The engine itself is SQLAlchemy's; \<open>init_db\<close> is in
  theory Schema.
\<close>

section \<open>Engine arguments\<close>

text \<open>\<open>d.pop(k, default)\<close>: the value, and the dictionary without the key.\<close>

definition dict_pop :: "string \<Rightarrow> 'a \<Rightarrow> (string \<times> 'a) list \<Rightarrow> 'a \<times> (string \<times> 'a) list" where
  "dict_pop k dflt d = ((case map_of d k of None \<Rightarrow> dflt | Some v \<Rightarrow> v), filter (\<lambda>(k', v). k' \<noteq> k) d)"

text \<open>\<open>connect_args\<close> holds the default SSL context or is not given.\<close>

record engine_kwargs =
  ek_echo :: bool
  ek_future :: bool
  ek_ssl_context :: bool

text \<open>The default of the outer \<open>pop\<close> is evaluated first, so both keys go, and \<open>ssl\<close> wins.\<close>

definition build_engine_kwargs :: "unicode \<Rightarrow> string \<Rightarrow> py_exc + string \<times> engine_kwargs" where
  "build_engine_kwargs U url =
     (case urlparse U url of
        Inl e \<Rightarrow> Inl e
      | Inr parsed \<Rightarrow>
          let params = map (\<lambda>(k, vs). (k, map Some vs)) (parse_qs U (u_query parsed));
              (sslmode, params) = dict_pop ''sslmode'' [None] params;
              (ssl, params) = dict_pop ''ssl'' sslmode params;
              ssl_val = hd ssl;
              clean_query = urlencode U [(k, the (hd v)). (k, v) \<leftarrow> params];
              clean_url = urlunparse (parsed\<lparr>u_query := clean_query\<rparr>)
          in Inr (clean_url,
                  \<lparr>ek_echo = False, ek_future = True,
                   ek_ssl_context = (case ssl_val of None \<Rightarrow> False | Some v \<Rightarrow> v \<noteq> [] \<and> v \<noteq> ''disable'')\<rparr>))"

definition engine_arguments :: "unicode \<Rightarrow> settings \<Rightarrow> py_exc + string \<times> engine_kwargs" where
  "engine_arguments U S = build_engine_kwargs U (database_url S)"

section \<open>Dictionaries of a query\<close>

lemma parse_qs_first:
  "map_of (map (\<lambda>(k, vs). (k, hd vs)) (parse_qs U qs)) = map_of (parse_qsl U qs)"
  "\<forall>(k, vs)\<in>set (parse_qs U qs). vs \<noteq> []" "distinct (map fst (parse_qs U qs))"
proof -
  let ?fst = "\<lambda>d. map_of (map (\<lambda>(k, vs). (k, hd vs)) d) :: string \<Rightarrow> string option"
  let ?ok = "\<lambda>d :: (string \<times> string list) list. (\<forall>(k, vs)\<in>set d. vs \<noteq> []) \<and> distinct (map fst d)"
  have keys: "fst ` set (add_value k v d) = insert k (fst ` set d)" for k v and d :: "(string \<times> string list) list"
    by (induction k v d rule: add_value.induct) (simp_all add: insert_commute)
  have add: "?ok (add_value k v d) \<and> ?fst (add_value k v d) = map_of [(k, v)] ++ ?fst d" if "?ok d" for k v d
    using that
  proof (induction d)
    case (Cons x d)
    obtain k' vs where x: "x = (k', vs)" by fastforce
    have "?ok d" using Cons.prems by simp
    then have IH: "?ok (add_value k v d)" "?fst (add_value k v d) = map_of [(k, v)] ++ ?fst d"
      using Cons.IH by blast+
    show ?case
    proof (cases "k' = k")
      case True
      then show ?thesis using Cons.prems by (auto simp: x map_add_def fun_eq_iff split: option.split)
    next
      case False
      then have "k' \<notin> fst ` set (add_value k v d)" using Cons.prems by (auto simp: x keys)
      then show ?thesis
        using Cons.prems IH False by (auto simp: x map_add_def fun_eq_iff split: option.split)
    qed
  qed simp
  have "?ok (fold (\<lambda>(k, v). add_value k v) kvs d)
      \<and> ?fst (fold (\<lambda>(k, v). add_value k v) kvs d) = map_of kvs ++ ?fst d" if "?ok d" for kvs d
    using that
  proof (induction kvs arbitrary: d)
    case (Cons x kvs)
    obtain k v where x: "x = (k, v)" by fastforce
    have "?ok (add_value k v d)" using add [OF Cons.prems] by blast
    with Cons.IH [OF this] add [OF Cons.prems, of k v] show ?case
      by (auto simp: x fun_eq_iff map_add_def split: option.split)
  qed simp
  from this [of "[]" "parse_qsl U qs"]
  show "?fst (parse_qs U qs) = map_of (parse_qsl U qs)"
    "\<forall>(k, vs)\<in>set (parse_qs U qs). vs \<noteq> []" "distinct (map fst (parse_qs U qs))"
    by (simp_all add: parse_qs_def)
qed

lemma map_of_filter_key: "map_of (filter (\<lambda>(k, v). k \<noteq> c) d) = (map_of d)(c := None)"
  by (induction d) (auto simp: fun_eq_iff)

lemma urlencode_chars: "x \<in> set (urlencode U kvs) \<Longrightarrow> quoted_char x \<or> x = CHR ''='' \<or> x = CHR ''&''"
proof -
  have join: "set (join sep items) \<subseteq> set sep \<union> \<Union> (set ` set items)" for sep and items :: "string list"
    by (induction sep items rule: join.induct) auto
  show "x \<in> set (urlencode U kvs) \<Longrightarrow> quoted_char x \<or> x = CHR ''='' \<or> x = CHR ''&''"
    unfolding urlencode_def using subsetD [OF join] by (fastforce dest: quote_plus_chars)
qed

section \<open>Properties\<close>

text \<open>What is kept of the query: the first value of every parameter but the two.\<close>

definition kept_params :: "unicode \<Rightarrow> string \<Rightarrow> (string \<times> string) list" where
  "kept_params U query =
     map (\<lambda>(k, vs). (k, hd vs)) (filter (\<lambda>(k, vs). k \<noteq> ''ssl'' \<and> k \<noteq> ''sslmode'') (parse_qs U query))"

definition ssl_value :: "unicode \<Rightarrow> string \<Rightarrow> string option" where
  "ssl_value U query =
     (case map_of (parse_qsl U query) ''ssl'' of
        None \<Rightarrow> map_of (parse_qsl U query) ''sslmode''
      | Some v \<Rightarrow> Some v)"

lemma build_engine_kwargs_eq:
  assumes "urlparse U url = Inr p"
  shows "build_engine_kwargs U url = Inr (urlunparse (p\<lparr>u_query := urlencode U (kept_params U (u_query p))\<rparr>),
      \<lparr>ek_echo = False, ek_future = True,
       ek_ssl_context = (case ssl_value U (u_query p) of None \<Rightarrow> False | Some v \<Rightarrow> v \<noteq> [] \<and> v \<noteq> ''disable'')\<rparr>)"
proof -
  let ?d = "parse_qs U (u_query p)" and ?m = "map_of (parse_qsl U (u_query p))"
  have look: "map_of (map (\<lambda>(k, vs). (k, map Some vs)) d) k = map_option (map Some) (map_of d k)"
    for d :: "(string \<times> string list) list" and k by (induction d) auto
  have first: "map_option hd (map_of ?d k) = ?m k" for k
    using parse_qs_first(1) [of U "u_query p"] by (simp add: map_of_map fun_eq_iff)
  have ne: "map_of ?d k = Some vs \<Longrightarrow> vs \<noteq> []" for k vs
    using parse_qs_first(2) [of U "u_query p"] by (auto dest: map_of_SomeD)
  have filt: "filter (\<lambda>(k, v). k \<noteq> c) (map (\<lambda>(k, vs). (k, map Some vs)) d) =
      map (\<lambda>(k, vs). (k, map Some vs)) (filter (\<lambda>(k, vs). k \<noteq> c) d)"
    for d :: "(string \<times> string list) list" and c by (induction d) auto
  have hds: "[(k, the (hd v)). (k, v) \<leftarrow> map (\<lambda>(k, vs). (k, map Some vs)) d] = map (\<lambda>(k, vs). (k, hd vs)) d"
    if "\<forall>(k, vs)\<in>set d. vs \<noteq> []" for d :: "(string \<times> string list) list"
    using that by (induction d) (auto simp: hd_map)
  let ?e = "map (\<lambda>(k, vs). (k, map Some vs)) :: (string \<times> string list) list \<Rightarrow> _"
  let ?mode = "case map_of ?d ''sslmode'' of None \<Rightarrow> [None] | Some vs \<Rightarrow> map Some vs"
  let ?d1 = "filter (\<lambda>(k, vs). k \<noteq> ''sslmode'') ?d"
  let ?d2 = "filter (\<lambda>(k, vs). k \<noteq> ''ssl'') ?d1"
  let ?ssl = "case map_of ?d ''ssl'' of None \<Rightarrow> ?mode | Some vs \<Rightarrow> map Some vs"
  have pop1: "dict_pop ''sslmode'' [None] (?e ?d) = (?mode, ?e ?d1)"
    by (simp add: dict_pop_def look filt split: option.split)
  have "map_of ?d1 ''ssl'' = map_of ?d ''ssl''" by (simp add: map_of_filter_key)
  then have pop2: "dict_pop ''ssl'' ?mode (?e ?d1) = (?ssl, ?e ?d2)"
    by (simp add: dict_pop_def look filt split: option.split)
  have val: "hd ?ssl = ssl_value U (u_query p)"
    using first [of "''ssl''"] first [of "''sslmode''"] ne
    by (cases "map_of ?d ''ssl''"; cases "map_of ?d ''sslmode''")
       (auto simp: ssl_value_def hd_map split: option.split)
  have d2: "?d2 = filter (\<lambda>(k, vs). k \<noteq> ''ssl'' \<and> k \<noteq> ''sslmode'') ?d"
    unfolding filter_filter by (rule filter_cong) auto
  have "\<forall>(k, vs)\<in>set ?d2. vs \<noteq> []" using parse_qs_first(2) [of U "u_query p"] by auto
  then have kept: "[(k, the (hd v)). (k, v) \<leftarrow> ?e ?d2] = kept_params U (u_query p)"
    unfolding kept_params_def d2 [symmetric] by (rule hds)
  show ?thesis
    unfolding build_engine_kwargs_def assms sum.case Let_def pop1 pop2 prod.case val kept by (rule refl)
qed

lemma kept_params_map:
  "map_of (kept_params U query) = (map_of (parse_qsl U query))(''ssl'' := None, ''sslmode'' := None)"
  "distinct (map fst (kept_params U query))"
proof -
  let ?first = "\<lambda>d. map (\<lambda>(k, vs). (k, hd vs)) d :: (string \<times> string) list"
  have filt: "?first (filter (\<lambda>(k, vs). k \<noteq> ''ssl'' \<and> k \<noteq> ''sslmode'') d) =
      filter (\<lambda>(k, v). k \<noteq> ''sslmode'') (filter (\<lambda>(k, v). k \<noteq> ''ssl'') (?first d))"
    for d by (induction d) auto
  show "map_of (kept_params U query) = (map_of (parse_qsl U query))(''ssl'' := None, ''sslmode'' := None)"
    unfolding kept_params_def filt by (simp only: map_of_filter_key parse_qs_first(1))
  have "map fst (?first d) = map fst d" for d by (induction d) auto
  then show "distinct (map fst (kept_params U query))"
    unfolding kept_params_def filt using parse_qs_first(3) [of U query]
    by (metis distinct_map_filter)
qed

text \<open>C35. The engine's URL: for a database URL with a host part, the rewritten URL parses to the same
  scheme, host part, path and fragment, its query has each other parameter once, with its first
  value, and neither \<open>ssl\<close> nor \<open>sslmode\<close>; an SSL context is passed exactly when \<open>ssl\<close>, or
  \<open>sslmode\<close> in its absence, has a value other than the empty one and \<open>disable\<close>.\<close>

theorem engine_url_rewritten:
  assumes "unicode_laws U" "urlparse U url = Inr p" "u_netloc p \<noteq> []" "u_scheme p \<notin> uses_params"
  shows "\<exists>clean_url kwargs query. build_engine_kwargs U url = Inr (clean_url, kwargs)
    \<and> urlparse U clean_url = Inr (p\<lparr>u_query := query\<rparr>)
    \<and> map_of (parse_qsl U query) = (map_of (parse_qsl U (u_query p)))(''ssl'' := None, ''sslmode'' := None)
    \<and> distinct (map fst (parse_qsl U query))
    \<and> (ek_ssl_context kwargs \<longleftrightarrow>
        (\<exists>v. v \<noteq> [] \<and> v \<noteq> ''disable''
           \<and> (map_of (parse_qsl U (u_query p)) ''ssl'' = Some v
              \<or> map_of (parse_qsl U (u_query p)) ''ssl'' = None
                \<and> map_of (parse_qsl U (u_query p)) ''sslmode'' = Some v)))"
proof -
  let ?m = "map_of (parse_qsl U (u_query p))"
  let ?query = "urlencode U (kept_params U (u_query p))"
  let ?p = "p\<lparr>u_query := ?query\<rparr>"
  have parts: "parsed_parts p" "netloc_ok U (u_netloc p)" using urlparse_parts [OF assms(2,4)] by simp_all
  have "CHR ''#'' \<notin> set ?query" "blank_free ?query"
    unfolding blank_free_def using urlencode_chars not_quoted by fastforce+
  then have "parsed_parts ?p" using parts(1) by (simp add: parsed_parts_def)
  then have url: "urlparse U (urlunparse ?p) = Inr ?p"
    using urlparse_urlunparse [of ?p U] parts(2) assms(3,4) by simp
  have ssl: "(case ssl_value U (u_query p) of None \<Rightarrow> False | Some v \<Rightarrow> v \<noteq> [] \<and> v \<noteq> ''disable'') \<longleftrightarrow>
      (\<exists>v. v \<noteq> [] \<and> v \<noteq> ''disable'' \<and> (?m ''ssl'' = Some v \<or> ?m ''ssl'' = None \<and> ?m ''sslmode'' = Some v))"
    unfolding ssl_value_def by (cases "?m ''ssl''"; cases "?m ''sslmode''") simp_all
  show ?thesis
    unfolding build_engine_kwargs_eq [OF assms(2)] ssl
    by (intro exI conjI, rule refl, rule url)
       (simp_all only: parse_urlencode [OF assms(1)] kept_params_map engine_kwargs.simps)
qed

theorem engine_url_rewritten_witness:
  "\<exists>clean_url kwargs query.
      build_engine_kwargs demo_unicode ''postgresql+asyncpg://gw:pw@db.example/gw?sslmode=require&a=1'' =
        Inr (clean_url, kwargs)
    \<and> map_of (parse_qsl demo_unicode query) = (map_of (parse_qsl demo_unicode ''sslmode=require&a=1''))(''ssl'' := None, ''sslmode'' := None)
    \<and> ek_ssl_context kwargs"
proof -
  let ?p = "\<lparr>u_scheme = ''postgresql+asyncpg'', u_netloc = ''gw:pw@db.example'', u_path = ''/gw'',
      u_params = [], u_query = ''sslmode=require&a=1'', u_fragment = []\<rparr>"
  have parse: "urlparse demo_unicode ''postgresql+asyncpg://gw:pw@db.example/gw?sslmode=require&a=1'' = Inr ?p"
    by code_simp
  have scheme: "u_scheme ?p \<notin> uses_params" "u_netloc ?p \<noteq> []" by code_simp+
  have ssl: "map_of (parse_qsl demo_unicode (u_query ?p)) ''ssl'' = None"
    "map_of (parse_qsl demo_unicode (u_query ?p)) ''sslmode'' = Some ''require''" by code_simp+
  have req: "''require'' \<noteq> []" "''require'' \<noteq> ''disable''" by simp_all
  from engine_url_rewritten [OF demo_unicode_laws parse scheme(2,1)] ssl req
  show ?thesis unfolding url.select_convs by blast
qed

text \<open>The default URL of the settings is left as it is, without SSL.\<close>

lemma default_engine_arguments:
  "engine_arguments demo_unicode test_settings =
     Inr (database_url test_settings, \<lparr>ek_echo = False, ek_future = True, ek_ssl_context = False\<rparr>)"
  by code_simp

text \<open>A database URL without a host part, the form for a server on a local socket, loses the two
  slashes behind its scheme, and with them its meaning to SQLAlchemy.\<close>

lemma engine_url_without_host:
  assumes "urlparse U url = Inr p" "u_netloc p = []" "u_scheme p \<noteq> []" "u_scheme p \<notin> uses_netloc"
    and "u_params p = []" "\<not> startswith (u_path p) ''//''"
  shows "\<exists>kwargs rest. build_engine_kwargs U url = Inr (u_scheme p @ '':'' @ u_path p @ rest, kwargs)"
  using assms by (simp add: build_engine_kwargs_eq [OF assms(1)] urlunparse_def)

lemma engine_url_without_host_witness:
  "\<exists>kwargs rest. build_engine_kwargs demo_unicode ''postgresql+asyncpg:///gw?host=/tmp'' =
     Inr (''postgresql+asyncpg'' @ '':'' @ ''/gw'' @ rest, kwargs)"
proof -
  let ?p = "\<lparr>u_scheme = ''postgresql+asyncpg'', u_netloc = [], u_path = ''/gw'', u_params = [],
      u_query = ''host=/tmp'', u_fragment = []\<rparr>"
  have "urlparse demo_unicode ''postgresql+asyncpg:///gw?host=/tmp'' = Inr ?p" by code_simp
  moreover have "u_netloc ?p = []" "u_scheme ?p \<noteq> []" by simp_all
  moreover have "u_scheme ?p \<notin> uses_netloc" "u_params ?p = []" "\<not> startswith (u_path ?p) ''//''" by code_simp+
  ultimately have "\<exists>kwargs rest. build_engine_kwargs demo_unicode ''postgresql+asyncpg:///gw?host=/tmp'' =
      Inr (u_scheme ?p @ '':'' @ u_path ?p @ rest, kwargs)"
    by (rule engine_url_without_host [where p = ?p])
  then show ?thesis unfolding url.select_convs .
qed

end
