(* ===== verification/Schema.thy ===== *)
theory Schema
  imports Engine
begin

text \<open>
  The schema of the database, twice: as the models of \<open>app/models/db.py\<close> declare it, created by
  \<open>init_db\<close> of \<open>app/infra/database.py\<close>, and as the migration
  \<open>migrations/versions/cdbfbc8cad4d_initial_schema.py\<close> writes it out, run by \<open>migrations/env.py\<close>;
  and the order in which \<open>scripts/start.sh\<close> runs the two. The server, SQLAlchemy's DDL and Alembic
  are a parameter (\<open>ddl\<close>) whose laws say what a DDL statement does to the catalogue.
\<close>

section \<open>Catalogue\<close>

datatype sql_type = Integer_Type | String_Type nat | Boolean_Type | DateTime_Type bool

text \<open>A column, with its server default as SQL text.\<close>

record column =
  co_name :: string
  co_type :: sql_type
  co_autoincrement :: bool
  co_nullable :: bool
  co_default :: "string option"

record table =
  tb_name :: string
  tb_columns :: "column list"
  tb_primary_key :: "string list"

record index =
  ix_name :: string
  ix_table :: string
  ix_columns :: "string list"
  ix_unique :: bool

datatype ddl_op =
    Create_Table table
  | Create_Index index
  | Drop_Table string
  | Drop_Index string string

record catalogue =
  cat_tables :: "string \<rightharpoonup> table"
  cat_indexes :: "string \<rightharpoonup> index"

text \<open>What a statement does: tables and indexes share one name space, an index is on existing
  columns, a dropped table takes its indexes along.\<close>

fun ddl_effect :: "ddl_op \<Rightarrow> catalogue \<Rightarrow> catalogue option" where
  "ddl_effect (Create_Table t) c =
     (if cat_tables c (tb_name t) \<noteq> None \<or> cat_indexes c (tb_name t) \<noteq> None then None
      else Some (c\<lparr>cat_tables := (cat_tables c)(tb_name t \<mapsto> t)\<rparr>))"
| "ddl_effect (Create_Index i) c =
     (if cat_tables c (ix_name i) \<noteq> None \<or> cat_indexes c (ix_name i) \<noteq> None then None
      else case cat_tables c (ix_table i) of
        None \<Rightarrow> None
      | Some t \<Rightarrow>
          if set (ix_columns i) \<subseteq> co_name ` set (tb_columns t)
          then Some (c\<lparr>cat_indexes := (cat_indexes c)(ix_name i \<mapsto> i)\<rparr>)
          else None)"
| "ddl_effect (Drop_Table n) c =
     (if cat_tables c n = None then None
      else Some \<lparr>cat_tables = (cat_tables c)(n := None),
                 cat_indexes = (\<lambda>k. case cat_indexes c k of
                    None \<Rightarrow> None | Some i \<Rightarrow> if ix_table i = n then None else Some i)\<rparr>)"
| "ddl_effect (Drop_Index n tname) c =
     (if cat_indexes c n = None then None else Some (c\<lparr>cat_indexes := (cat_indexes c)(n := None)\<rparr>))"

section \<open>The models\<close>

text \<open>A \<open>mapped_column\<close>, with \<open>primary_key\<close> and \<open>index\<close>, and a model class.\<close>

record mapped_column =
  mc_column :: column
  mc_primary_key :: bool
  mc_index :: bool

record model =
  md_tablename :: string
  md_columns :: "mapped_column list"
  md_indexes :: "(string \<times> string list) list"

definition mapped :: "string \<Rightarrow> sql_type \<Rightarrow> bool \<Rightarrow> bool \<Rightarrow> string option \<Rightarrow> mapped_column" where
  "mapped name ty nullable index server_default =
     \<lparr>mc_column = \<lparr>co_name = name, co_type = ty, co_autoincrement = False, co_nullable = nullable,
                   co_default = server_default\<rparr>,
      mc_primary_key = False, mc_index = index\<rparr>"

text \<open>A primary key is never null; \<open>func.now()\<close> is \<open>now()\<close> on the server.\<close>

definition request_log_model :: model where
  "request_log_model =
     \<lparr>md_tablename = ''request_logs'',
      md_columns =
        [\<lparr>mc_column = \<lparr>co_name = ''id'', co_type = Integer_Type, co_autoincrement = True,
                       co_nullable = False, co_default = None\<rparr>,
          mc_primary_key = True, mc_index = False\<rparr>,
         mapped ''request_id'' (String_Type 64) False True None,
         mapped ''user_id'' (String_Type 128) False True None,
         mapped ''endpoint'' (String_Type 512) False False None,
         mapped ''method'' (String_Type 16) False False None,
         mapped ''status_code'' Integer_Type False False None,
         mapped ''latency_ms'' Integer_Type False False None,
         mapped ''rate_limited'' Boolean_Type False True None,
         mapped ''ip'' (String_Type 64) True False None,
         mapped ''created_at'' (DateTime_Type True) False True (Some ''now()'')],
      md_indexes = [(''ix_logs_user_created'', [''user_id'', ''created_at''])]\<rparr>"

definition user_quota_override_model :: model where
  "user_quota_override_model =
     \<lparr>md_tablename = ''user_quota_overrides'',
      md_columns =
        [\<lparr>mc_column = \<lparr>co_name = ''user_id'', co_type = String_Type 128, co_autoincrement = False,
                       co_nullable = False, co_default = None\<rparr>,
          mc_primary_key = True, mc_index = False\<rparr>,
         mapped ''custom_limit'' Integer_Type False False None,
         mapped ''reason'' (String_Type 512) True False None,
         mapped ''created_at'' (DateTime_Type True) False False (Some ''now()''),
         mapped ''expires_at'' (DateTime_Type True) True False None],
      md_indexes = []\<rparr>"

text \<open>\<open>Base.metadata\<close>. An index without a name of its own is called after its table and column.\<close>

definition metadata :: "model list" where
  "metadata = [request_log_model, user_quota_override_model]"

definition table_of :: "model \<Rightarrow> table" where
  "table_of m =
     \<lparr>tb_name = md_tablename m, tb_columns = map mc_column (md_columns m),
      tb_primary_key = [co_name (mc_column c). c \<leftarrow> md_columns m, mc_primary_key c]\<rparr>"

definition indexes_of :: "model \<Rightarrow> index list" where
  "indexes_of m =
     [\<lparr>ix_name = n, ix_table = md_tablename m, ix_columns = cs, ix_unique = False\<rparr>. (n, cs) \<leftarrow> md_indexes m]
   @ [\<lparr>ix_name = ''ix_'' @ md_tablename m @ ''_'' @ co_name (mc_column c), ix_table = md_tablename m,
       ix_columns = [co_name (mc_column c)], ix_unique = False\<rparr>. c \<leftarrow> md_columns m, mc_index c]"

section \<open>The migration\<close>

definition migrated :: "string \<Rightarrow> sql_type \<Rightarrow> bool \<Rightarrow> string option \<Rightarrow> column" where
  "migrated name ty nullable server_default =
     \<lparr>co_name = name, co_type = ty, co_autoincrement = False, co_nullable = nullable,
      co_default = server_default\<rparr>"

definition plain_index :: "string \<Rightarrow> string \<Rightarrow> string list \<Rightarrow> ddl_op" where
  "plain_index name tname columns =
     Create_Index \<lparr>ix_name = name, ix_table = tname, ix_columns = columns, ix_unique = False\<rparr>"

definition revision :: string where "revision = ''cdbfbc8cad4d''"

definition upgrade :: "ddl_op list" where
  "upgrade =
     [Create_Table
        \<lparr>tb_name = ''request_logs'',
         tb_columns =
           [\<lparr>co_name = ''id'', co_type = Integer_Type, co_autoincrement = True, co_nullable = False,
              co_default = None\<rparr>,
            migrated ''request_id'' (String_Type 64) False None,
            migrated ''user_id'' (String_Type 128) False None,
            migrated ''endpoint'' (String_Type 512) False None,
            migrated ''method'' (String_Type 16) False None,
            migrated ''status_code'' Integer_Type False None,
            migrated ''latency_ms'' Integer_Type False None,
            migrated ''rate_limited'' Boolean_Type False None,
            migrated ''ip'' (String_Type 64) True None,
            migrated ''created_at'' (DateTime_Type True) False (Some ''now()'')],
         tb_primary_key = [''id'']\<rparr>,
      plain_index ''ix_logs_user_created'' ''request_logs'' [''user_id'', ''created_at''],
      plain_index ''ix_request_logs_created_at'' ''request_logs'' [''created_at''],
      plain_index ''ix_request_logs_rate_limited'' ''request_logs'' [''rate_limited''],
      plain_index ''ix_request_logs_request_id'' ''request_logs'' [''request_id''],
      plain_index ''ix_request_logs_user_id'' ''request_logs'' [''user_id''],
      Create_Table
        \<lparr>tb_name = ''user_quota_overrides'',
         tb_columns =
           [migrated ''user_id'' (String_Type 128) False None,
            migrated ''custom_limit'' Integer_Type False None,
            migrated ''reason'' (String_Type 512) True None,
            migrated ''created_at'' (DateTime_Type True) False (Some ''now()''),
            migrated ''expires_at'' (DateTime_Type True) True None],
         tb_primary_key = [''user_id'']\<rparr>]"

definition downgrade :: "ddl_op list" where
  "downgrade =
     [Drop_Table ''user_quota_overrides'',
      Drop_Index ''ix_request_logs_user_id'' ''request_logs'',
      Drop_Index ''ix_request_logs_request_id'' ''request_logs'',
      Drop_Index ''ix_request_logs_rate_limited'' ''request_logs'',
      Drop_Index ''ix_request_logs_created_at'' ''request_logs'',
      Drop_Index ''ix_logs_user_created'' ''request_logs'',
      Drop_Table ''request_logs'']"

section \<open>The server\<close>

text \<open>
  A server state has a catalogue and, once Alembic has run, a recorded revision. \<open>execute\<close> runs a
  statement (\<open>None\<close>: it raises), \<open>run_migrations\<close> is Alembic's upgrade to a revision that is the
  only one, given by its script. \<open>answers\<close>: whether a connection with these engine arguments
  succeeds.
\<close>

record 's ddl =
  catalogue_of :: "'s \<Rightarrow> catalogue"
  version_of :: "'s \<Rightarrow> string option"
  execute :: "ddl_op \<Rightarrow> 's \<Rightarrow> 's option"
  run_migrations :: "string \<Rightarrow> ('s \<Rightarrow> 's option) \<Rightarrow> 's \<Rightarrow> 's option"
  answers :: "string \<times> engine_kwargs \<Rightarrow> bool"

text \<open>Names that the server makes up for keys and sequences.\<close>

definition made_up :: "string \<Rightarrow> bool" where
  "made_up n \<longleftrightarrow> (\<exists>p\<in>{''_pkey'', ''_seq''}. startswith (rev n) (rev p))"

fun op_name :: "ddl_op \<Rightarrow> string" where
  "op_name (Create_Table t) = tb_name t"
| "op_name (Create_Index i) = ix_name i"
| "op_name (Drop_Table n) = n"
| "op_name (Drop_Index n tname) = n"

definition ddl_laws :: "'s ddl \<Rightarrow> bool" where
  "ddl_laws D \<longleftrightarrow>
     (\<forall>op s. \<not> made_up (op_name op) \<longrightarrow>
        map_option (catalogue_of D) (execute D op s) = ddl_effect op (catalogue_of D s)
      \<and> (\<forall>s'. execute D op s = Some s' \<longrightarrow> version_of D s' = version_of D s))
   \<and> (\<forall>rev script s. version_of D s = Some rev \<longrightarrow> run_migrations D rev script s = Some s)
   \<and> (\<forall>rev script s. version_of D s = None \<longrightarrow>
        (case script s of
           None \<Rightarrow> run_migrations D rev script s = None
         | Some s' \<Rightarrow> \<exists>s''. run_migrations D rev script s = Some s'' \<and> version_of D s'' = Some rev
                       \<and> catalogue_of D s'' = catalogue_of D s'))"

fun run_ops :: "'s ddl \<Rightarrow> ddl_op list \<Rightarrow> 's \<Rightarrow> 's option" where
  "run_ops D [] s = Some s"
| "run_ops D (op # ops) s = Option.bind (execute D op s) (run_ops D ops)"

text \<open>A transaction that fails leaves the state it began in.\<close>

definition transaction :: "('s \<Rightarrow> 's option) \<Rightarrow> 's \<Rightarrow> bool \<times> 's" where
  "transaction body s = (case body s of None \<Rightarrow> (False, s) | Some s' \<Rightarrow> (True, s'))"

section \<open>Creating and migrating\<close>

text \<open>\<open>metadata.create_all\<close>: tables that exist are passed over, whatever they look like.\<close>

fun create_all :: "'s ddl \<Rightarrow> model list \<Rightarrow> 's \<Rightarrow> 's option" where
  "create_all D [] s = Some s"
| "create_all D (m # ms) s =
     (if cat_tables (catalogue_of D s) (md_tablename m) \<noteq> None then create_all D ms s
      else Option.bind (run_ops D (Create_Table (table_of m) # map Create_Index (indexes_of m)) s) (create_all D ms))"

definition init_db :: "unicode \<Rightarrow> settings \<Rightarrow> 's ddl \<Rightarrow> 's \<Rightarrow> bool \<times> 's" where
  "init_db U S D s =
     (case engine_arguments U S of
        Inl e \<Rightarrow> (False, s)
      | Inr args \<Rightarrow> if answers D args then transaction (create_all D metadata) s else (False, s))"

definition do_run_migrations :: "'s ddl \<Rightarrow> 's \<Rightarrow> 's option" where
  "do_run_migrations D = run_migrations D revision (run_ops D upgrade)"

definition run_async_migrations :: "unicode \<Rightarrow> settings \<Rightarrow> 's ddl \<Rightarrow> 's \<Rightarrow> bool \<times> 's" where
  "run_async_migrations U S D s =
     (case build_engine_kwargs U (database_url S) of
        Inl e \<Rightarrow> (False, s)
      | Inr args \<Rightarrow> if answers D args then transaction (do_run_migrations D) s else (False, s))"

text \<open>Offline, Alembic prints the migration as SQL for the URL's dialect (\<open>render\<close>) and does not connect;
  the import of the models has read the database URL before either mode begins.\<close>

definition run_migrations_offline :: "(string \<Rightarrow> ddl_op list \<Rightarrow> string) \<Rightarrow> settings \<Rightarrow> string" where
  "run_migrations_offline render S = render (database_url S) upgrade"

definition run_env :: "bool \<Rightarrow> (string \<Rightarrow> ddl_op list \<Rightarrow> string) \<Rightarrow> unicode \<Rightarrow> settings \<Rightarrow> 's ddl \<Rightarrow> 's \<Rightarrow>
    (bool \<times> string) \<times> 's" where
  "run_env offline render U S D s =
     (case engine_arguments U S of
        Inl e \<Rightarrow> ((False, []), s)
      | Inr args \<Rightarrow>
          if offline then ((True, run_migrations_offline render S), s)
          else let (ok, s') = run_async_migrations U S D s in ((ok, []), s'))"

lemma run_env_online:
  "run_env False render U S D s = (let (ok, s') = run_async_migrations U S D s in ((ok, []), s'))"
  by (simp add: run_env_def run_async_migrations_def engine_arguments_def split: sum.split)

lemma run_env_offline: "snd (run_env True render U S D s) = s"
  by (simp add: run_env_def split: sum.split)

text \<open>\<open>scripts/start.sh\<close>: migrate, and if that succeeded start the workers, each of which runs
  \<open>init_db\<close> before it serves.\<close>

fun start_workers :: "nat \<Rightarrow> unicode \<Rightarrow> settings \<Rightarrow> 's ddl \<Rightarrow> 's \<Rightarrow> bool \<times> 's" where
  "start_workers 0 U S D s = (True, s)"
| "start_workers (Suc n) U S D s =
     (let (ok, s') = init_db U S D s; (rest, s'') = start_workers n U S D s' in (ok \<and> rest, s''))"

definition start_script :: "unicode \<Rightarrow> settings \<Rightarrow> 's ddl \<Rightarrow> 's \<Rightarrow> bool \<times> 's" where
  "start_script U S D s =
     (case run_async_migrations U S D s of
        (False, s') \<Rightarrow> (False, s')
      | (True, s') \<Rightarrow> start_workers 2 U S D s')"

section \<open>The catalogue decides\<close>

fun ddl_effects :: "ddl_op list \<Rightarrow> catalogue \<Rightarrow> catalogue option" where
  "ddl_effects [] c = Some c"
| "ddl_effects (op # ops) c = Option.bind (ddl_effect op c) (ddl_effects ops)"

fun create_all_effect :: "model list \<Rightarrow> catalogue \<Rightarrow> catalogue option" where
  "create_all_effect [] c = Some c"
| "create_all_effect (m # ms) c =
     (if cat_tables c (md_tablename m) \<noteq> None then create_all_effect ms c
      else Option.bind (ddl_effects (Create_Table (table_of m) # map Create_Index (indexes_of m)) c) (create_all_effect ms))"

definition plain_ops :: "ddl_op list \<Rightarrow> bool" where
  "plain_ops ops \<longleftrightarrow> list_all (\<lambda>op. \<not> made_up (op_name op)) ops"

definition create_ops :: "model \<Rightarrow> ddl_op list" where
  "create_ops m = Create_Table (table_of m) # map Create_Index (indexes_of m)"

lemma plain_schema: "plain_ops upgrade" "plain_ops downgrade" "\<forall>m\<in>set metadata. plain_ops (create_ops m)"
  by code_simp+

lemma run_ops_effect:
  assumes "ddl_laws D" "plain_ops ops"
  shows "map_option (catalogue_of D) (run_ops D ops s) = ddl_effects ops (catalogue_of D s)
    \<and> (\<forall>s'. run_ops D ops s = Some s' \<longrightarrow> version_of D s' = version_of D s)"
  using assms(2)
proof (induction ops arbitrary: s)
  case (Cons op ops)
  have op: "\<not> made_up (op_name op)" and ops: "plain_ops ops" using Cons.prems by (simp_all add: plain_ops_def)
  have step: "map_option (catalogue_of D) (execute D op s) = ddl_effect op (catalogue_of D s)"
    "\<And>s'. execute D op s = Some s' \<Longrightarrow> version_of D s' = version_of D s"
    using assms(1) op unfolding ddl_laws_def by blast+
  show ?case
  proof (cases "execute D op s")
    case None
    then show ?thesis using step(1) by simp
  next
    case (Some s1)
    then have "ddl_effect op (catalogue_of D s) = Some (catalogue_of D s1)" using step(1) by simp
    then show ?thesis using Some step(2) Cons.IH [OF ops, of s1] by auto
  qed
qed simp

lemma create_all_effect:
  assumes "ddl_laws D" "\<forall>m\<in>set ms. plain_ops (create_ops m)"
  shows "map_option (catalogue_of D) (create_all D ms s) = create_all_effect ms (catalogue_of D s)
    \<and> (\<forall>s'. create_all D ms s = Some s' \<longrightarrow> version_of D s' = version_of D s)"
  using assms(2)
proof (induction ms arbitrary: s)
  case (Cons m ms)
  have ms: "\<forall>m\<in>set ms. plain_ops (create_ops m)" and plain: "plain_ops (create_ops m)" using Cons.prems by simp_all
  note IH = Cons.IH [OF ms]
  note run = run_ops_effect [OF assms(1) plain, of s]
  show ?case
  proof (cases "cat_tables (catalogue_of D s) (md_tablename m) = None")
    case True
    show ?thesis
    proof (cases "run_ops D (create_ops m) s")
      case None
      then show ?thesis using run True by (simp del: ddl_effects.simps run_ops.simps flip: create_ops_def)
    next
      case (Some s1)
      then have "ddl_effects (create_ops m) (catalogue_of D s) = Some (catalogue_of D s1)" using run by simp
      then show ?thesis using Some run True IH [of s1]
        by (auto simp del: ddl_effects.simps run_ops.simps simp flip: create_ops_def)
    qed
  qed (use IH in simp)
qed simp

text \<open>What the models ask of a catalogue, and the names it must have free.\<close>

definition schema_tables :: "string \<rightharpoonup> table" where
  "schema_tables = map_of [(md_tablename m, table_of m). m \<leftarrow> metadata]"

definition schema_indexes :: "string \<rightharpoonup> index" where
  "schema_indexes = map_of [(ix_name i, i). m \<leftarrow> metadata, i \<leftarrow> indexes_of m]"

definition with_schema :: "catalogue \<Rightarrow> catalogue" where
  "with_schema c = \<lparr>cat_tables = cat_tables c ++ schema_tables, cat_indexes = cat_indexes c ++ schema_indexes\<rparr>"

definition schema_names :: "string list" where
  "schema_names = [''request_logs'', ''user_quota_overrides'', ''ix_logs_user_created'',
     ''ix_request_logs_created_at'', ''ix_request_logs_rate_limited'', ''ix_request_logs_request_id'',
     ''ix_request_logs_user_id'']"

definition free_for_schema :: "catalogue \<Rightarrow> bool" where
  "free_for_schema c \<longleftrightarrow> (\<forall>n\<in>set schema_names. cat_tables c n = None \<and> cat_indexes c n = None)"

lemmas schema_defs = metadata_def request_log_model_def user_quota_override_model_def mapped_def
  table_of_def indexes_of_def plain_index_def migrated_def

fun table_updates :: "(string \<rightharpoonup> table) \<Rightarrow> ddl_op list \<Rightarrow> (string \<rightharpoonup> table)" where
  "table_updates T [] = T"
| "table_updates T (Create_Table t # ops) = table_updates (T(tb_name t \<mapsto> t)) ops"
| "table_updates T (op # ops) = table_updates T ops"

fun index_updates :: "(string \<rightharpoonup> index) \<Rightarrow> ddl_op list \<Rightarrow> (string \<rightharpoonup> index)" where
  "index_updates I [] = I"
| "index_updates I (Create_Index i # ops) = index_updates (I(ix_name i \<mapsto> i)) ops"
| "index_updates I (op # ops) = index_updates I ops"

lemma creates_upgrade:
  "table_updates T upgrade = T ++ schema_tables" "index_updates I upgrade = I ++ schema_indexes"
proof -
  show "table_updates T upgrade = T ++ schema_tables"
    by (simp add: upgrade_def schema_tables_def schema_defs) (rule ext, simp)
  show "index_updates I upgrade = I ++ schema_indexes"
    by (simp add: upgrade_def schema_indexes_def schema_defs) (rule ext, simp)
qed

lemma creates_metadata:
  "table_updates T (concat (map create_ops metadata)) = T ++ schema_tables"
  "index_updates I (concat (map create_ops metadata)) = I ++ schema_indexes"
proof -
  show "table_updates T (concat (map create_ops metadata)) = T ++ schema_tables"
    by (simp add: schema_tables_def create_ops_def schema_defs) (rule ext, simp)
  show "index_updates I (concat (map create_ops metadata)) = I ++ schema_indexes"
    by (simp add: schema_indexes_def create_ops_def schema_defs) (rule ext, simp)
qed

lemma free_names:
  assumes "free_for_schema \<lparr>cat_tables = T, cat_indexes = I\<rparr>" "n \<in> set schema_names"
  shows "T n = None" "I n = None"
  using assms by (simp_all add: free_for_schema_def)

lemma upgrade_effect:
  assumes "free_for_schema c"
  shows "ddl_effects upgrade c = Some (with_schema c)"
proof -
  obtain T I where c: "c = \<lparr>cat_tables = T, cat_indexes = I\<rparr>" by (cases c) auto
  note free = free_names [OF assms [unfolded c], unfolded schema_names_def, simplified]
  have "ddl_effects upgrade c = Some \<lparr>cat_tables = table_updates T upgrade, cat_indexes = index_updates I upgrade\<rparr>"
    unfolding c upgrade_def by (simp add: plain_index_def migrated_def free)
  then show ?thesis by (simp add: creates_upgrade with_schema_def c)
qed

lemma create_all_fresh:
  assumes "free_for_schema c"
  shows "create_all_effect metadata c = Some (with_schema c)"
proof -
  obtain T I where c: "c = \<lparr>cat_tables = T, cat_indexes = I\<rparr>" by (cases c) auto
  note free = free_names [OF assms [unfolded c], unfolded schema_names_def, simplified]
  have "create_all_effect metadata c = Some \<lparr>cat_tables = table_updates T (concat (map create_ops metadata)),
      cat_indexes = index_updates I (concat (map create_ops metadata))\<rparr>"
    unfolding c create_ops_def by (simp add: schema_defs free)
  then show ?thesis by (simp add: creates_metadata with_schema_def c)
qed

lemma create_all_present:
  "\<forall>m\<in>set ms. cat_tables c (md_tablename m) \<noteq> None \<Longrightarrow> create_all_effect ms c = Some c"
  by (induction ms) auto

lemma upgrade_taken: "cat_tables c ''request_logs'' \<noteq> None \<Longrightarrow> ddl_effects upgrade c = None"
  by (simp add: upgrade_def)

lemma with_schema_present: "m \<in> set metadata \<Longrightarrow> cat_tables (with_schema c) (md_tablename m) \<noteq> None"
  by (auto simp: with_schema_def schema_tables_def schema_defs)

definition closed_catalogue :: "catalogue \<Rightarrow> bool" where
  "closed_catalogue c \<longleftrightarrow> (\<forall>n i. cat_indexes c n = Some i \<longrightarrow> cat_tables c (ix_table i) \<noteq> None)"

lemma downgrade_effect:
  assumes "free_for_schema c" "closed_catalogue c"
  shows "ddl_effects downgrade (with_schema c) = Some c"
proof -
  obtain T I where c: "c = \<lparr>cat_tables = T, cat_indexes = I\<rparr>" by (cases c) auto
  note free = free_names [OF assms(1) [unfolded c], unfolded schema_names_def, simplified]
  have foreign: "ix_table i \<noteq> ''request_logs'' \<and> ix_table i \<noteq> ''user_quota_overrides''" if "I n = Some i" for n i
  proof -
    have "T (ix_table i) \<noteq> None" using assms(2) that by (simp add: c closed_catalogue_def)
    moreover have "T ''request_logs'' = None" "T ''user_quota_overrides'' = None" by (simp_all add: free)
    ultimately show ?thesis by metis
  qed
  show ?thesis
    unfolding c downgrade_def with_schema_def
    by (simp add: schema_tables_def schema_indexes_def schema_defs)
       (intro conjI ext, auto simp: free foreign split: option.split)
qed

section \<open>An instance, for concrete runs\<close>

definition demo_ddl :: "(catalogue \<times> string option) ddl" where
  "demo_ddl =
     \<lparr>catalogue_of = fst, version_of = snd,
      execute = (\<lambda>op (c, v). map_option (\<lambda>c. (c, v)) (ddl_effect op c)),
      run_migrations = (\<lambda>rev script (c, v).
        if v = None then map_option (\<lambda>(c, v). (c, Some rev)) (script (c, v))
        else if v = Some rev then Some (c, v) else None),
      answers = (\<lambda>args. True)\<rparr>"

definition empty_catalogue :: catalogue where
  "empty_catalogue = \<lparr>cat_tables = Map.empty, cat_indexes = Map.empty\<rparr>"

lemma demo_ddl_laws: "ddl_laws demo_ddl"
  by (auto simp: ddl_laws_def demo_ddl_def option.map_comp comp_def option.map_ident split: option.splits)

lemma demo_ddl_fresh: "free_for_schema (catalogue_of demo_ddl (empty_catalogue, None))"
  "closed_catalogue (catalogue_of demo_ddl (empty_catalogue, None))"
  by (simp_all add: free_for_schema_def closed_catalogue_def demo_ddl_def empty_catalogue_def)

section \<open>Properties\<close>

lemma create_all_skip:
  "\<forall>m\<in>set ms. cat_tables (catalogue_of D s) (md_tablename m) \<noteq> None \<Longrightarrow> create_all D ms s = Some s"
  by (induction ms) auto

lemma run_upgrade:
  assumes "ddl_laws D" "free_for_schema (catalogue_of D s)"
  obtains s' where "run_ops D upgrade s = Some s'" "catalogue_of D s' = with_schema (catalogue_of D s)"
    "version_of D s' = version_of D s"
proof -
  have "map_option (catalogue_of D) (run_ops D upgrade s) = Some (with_schema (catalogue_of D s))"
    and v: "\<And>s'. run_ops D upgrade s = Some s' \<Longrightarrow> version_of D s' = version_of D s"
    using run_ops_effect [OF assms(1) plain_schema(1), of s] upgrade_effect [OF assms(2)] by simp_all
  then show thesis using that v by (auto simp: map_option_eq_Some)
qed

lemma run_create_all:
  assumes "ddl_laws D" "free_for_schema (catalogue_of D s)"
  obtains s' where "create_all D metadata s = Some s'" "catalogue_of D s' = with_schema (catalogue_of D s)"
    "version_of D s' = version_of D s"
proof -
  have "map_option (catalogue_of D) (create_all D metadata s) = Some (with_schema (catalogue_of D s))"
    and v: "\<And>s'. create_all D metadata s = Some s' \<Longrightarrow> version_of D s' = version_of D s"
    using create_all_effect [OF assms(1) plain_schema(3), of s] create_all_fresh [OF assms(2)] by simp_all
  then show thesis using that v by (auto simp: map_option_eq_Some)
qed

text \<open>C16. The migration and the models agree: on a database that has none of the names, the upgrade and
  \<open>create_all\<close> both succeed and end in the same catalogue, which adds exactly the tables, columns,
  keys and indexes of the models; and \<open>create_all\<close> after the upgrade, or a second time, does
  nothing.\<close>

theorem migration_matches_models:
  assumes "ddl_laws D" "free_for_schema (catalogue_of D s)"
  shows "\<exists>a b. run_ops D upgrade s = Some a \<and> create_all D metadata s = Some b
    \<and> catalogue_of D a = catalogue_of D b
    \<and> cat_tables (catalogue_of D b) =
        cat_tables (catalogue_of D s) ++ map_of [(md_tablename m, table_of m). m \<leftarrow> metadata]
    \<and> cat_indexes (catalogue_of D b) =
        cat_indexes (catalogue_of D s) ++ map_of [(ix_name i, i). m \<leftarrow> metadata, i \<leftarrow> indexes_of m]
    \<and> create_all D metadata a = Some a \<and> create_all D metadata b = Some b"
proof -
  obtain a where a: "run_ops D upgrade s = Some a" "catalogue_of D a = with_schema (catalogue_of D s)"
    using run_upgrade [OF assms] by blast
  obtain b where b: "create_all D metadata s = Some b" "catalogue_of D b = with_schema (catalogue_of D s)"
    using run_create_all [OF assms] by blast
  have "create_all D metadata a = Some a" "create_all D metadata b = Some b"
    using a(2) b(2) with_schema_present by (auto intro!: create_all_skip)
  then show ?thesis
    using a b unfolding with_schema_def schema_tables_def schema_indexes_def by fastforce
qed

theorem migration_matches_models_witness:
  "\<exists>a b. run_ops demo_ddl upgrade (empty_catalogue, None) = Some a
    \<and> create_all demo_ddl metadata (empty_catalogue, None) = Some b
    \<and> catalogue_of demo_ddl a = catalogue_of demo_ddl b"
  using migration_matches_models [OF demo_ddl_laws demo_ddl_fresh(1)] by blast

text \<open>The downgrade undoes the upgrade: after both, the catalogue is the one before, if that had
  none of the names and no index without its table.\<close>

lemma downgrade_undoes_upgrade:
  assumes "ddl_laws D" "free_for_schema (catalogue_of D s)" "closed_catalogue (catalogue_of D s)"
  shows "\<exists>a b. run_ops D upgrade s = Some a \<and> run_ops D downgrade a = Some b
    \<and> catalogue_of D b = catalogue_of D s"
proof -
  obtain a where a: "run_ops D upgrade s = Some a" "catalogue_of D a = with_schema (catalogue_of D s)"
    using run_upgrade [OF assms(1,2)] by blast
  have "map_option (catalogue_of D) (run_ops D downgrade a) = Some (catalogue_of D s)"
    using run_ops_effect [OF assms(1) plain_schema(2), of a] downgrade_effect [OF assms(2,3)] by (simp add: a(2))
  then show ?thesis using a(1) by auto
qed

lemma downgrade_undoes_upgrade_witness:
  "\<exists>a b. run_ops demo_ddl upgrade (empty_catalogue, None) = Some a
    \<and> run_ops demo_ddl downgrade a = Some b \<and> catalogue_of demo_ddl b = empty_catalogue"
  using downgrade_undoes_upgrade [OF demo_ddl_laws demo_ddl_fresh] by (simp add: demo_ddl_def)

lemma init_db_skip:
  assumes "engine_arguments U S = Inr args" "answers D args"
    and "\<forall>m\<in>set metadata. cat_tables (catalogue_of D s) (md_tablename m) \<noteq> None"
  shows "init_db U S D s = (True, s)" "start_workers n U S D s = (True, s)"
proof -
  show "init_db U S D s = (True, s)"
    using assms(1,2) create_all_skip [OF assms(3)] by (simp add: init_db_def transaction_def)
  then show "start_workers n U S D s = (True, s)" by (induction n) simp_all
qed

text \<open>C17. Startup in the container: on an empty database, or on one that is at the revision and has
  the tables, the migration and the \<open>init_db\<close> of both workers succeed, the database ends at the
  revision with the tables of the models, and the next deployment changes nothing.\<close>

theorem start_script_schema:
  assumes "ddl_laws D" "engine_arguments U S = Inr args" "answers D args"
    and "version_of D s = None \<and> free_for_schema (catalogue_of D s)
      \<or> version_of D s = Some revision
        \<and> (\<forall>m\<in>set metadata. cat_tables (catalogue_of D s) (md_tablename m) \<noteq> None)"
  shows "\<exists>s'. start_script U S D s = (True, s')
    \<and> version_of D s' = Some revision
    \<and> catalogue_of D s' = (if version_of D s = None then with_schema (catalogue_of D s) else catalogue_of D s)
    \<and> start_script U S D s' = (True, s')"
proof -
  have build: "build_engine_kwargs U (database_url S) = Inr args" using assms(2) by (simp add: engine_arguments_def)
  have migrated: "start_script U S D t = (True, t)"
    if "version_of D t = Some revision" "\<forall>m\<in>set metadata. cat_tables (catalogue_of D t) (md_tablename m) \<noteq> None" for t
  proof -
    have "do_run_migrations D t = Some t"
      using assms(1) that(1) unfolding ddl_laws_def do_run_migrations_def by blast
    then have "run_async_migrations U S D t = (True, t)"
      using assms(3) by (simp add: run_async_migrations_def build transaction_def)
    then show ?thesis using init_db_skip(2) [OF assms(2,3) that(2)] by (simp add: start_script_def)
  qed
  show ?thesis
  proof (cases "version_of D s = None")
    case True
    then have free: "free_for_schema (catalogue_of D s)" using assms(4) by auto
    obtain a where a: "run_ops D upgrade s = Some a" "catalogue_of D a = with_schema (catalogue_of D s)"
      using run_upgrade [OF assms(1) free] by blast
    have "case run_ops D upgrade s of
        None \<Rightarrow> run_migrations D revision (run_ops D upgrade) s = None
      | Some s' \<Rightarrow> \<exists>s''. run_migrations D revision (run_ops D upgrade) s = Some s''
          \<and> version_of D s'' = Some revision \<and> catalogue_of D s'' = catalogue_of D s'"
      using assms(1) True unfolding ddl_laws_def by blast
    then obtain b where b: "do_run_migrations D s = Some b" "version_of D b = Some revision"
      "catalogue_of D b = with_schema (catalogue_of D s)"
      using a by (auto simp: do_run_migrations_def)
    have present: "\<forall>m\<in>set metadata. cat_tables (catalogue_of D b) (md_tablename m) \<noteq> None"
      using b(3) with_schema_present by simp
    have "run_async_migrations U S D s = (True, b)"
      using assms(3) b(1) by (simp add: run_async_migrations_def build transaction_def)
    then have "start_script U S D s = (True, b)"
      using init_db_skip(2) [OF assms(2,3) present] by (simp add: start_script_def)
    then show ?thesis using b True migrated [OF b(2) present] by auto
  next
    case False
    then show ?thesis using assms(4) migrated [of s] by auto
  qed
qed

theorem start_script_schema_witness:
  "\<exists>s'. start_script demo_unicode test_settings demo_ddl (empty_catalogue, None) = (True, s')
    \<and> version_of demo_ddl s' = Some revision
    \<and> start_script demo_unicode test_settings demo_ddl s' = (True, s')"
proof -
  have "answers demo_ddl args" for args by (simp add: demo_ddl_def)
  moreover have "version_of demo_ddl (empty_catalogue, None) = None" by (simp add: demo_ddl_def)
  ultimately show ?thesis
    using start_script_schema [OF demo_ddl_laws default_engine_arguments, of "(empty_catalogue, None)"] demo_ddl_fresh(1)
    by blast
qed

text \<open>Tables made by \<open>init_db\<close> shut the container out: on an empty database \<open>init_db\<close> succeeds
  (\<open>scripts/init_db.py\<close>, or the gateway started without a migration), but records no revision, so
  the migration of the start script then fails on the existing table, nothing is changed, and no
  worker starts.\<close>

lemma init_db_blocks_migration:
  assumes "ddl_laws D" "engine_arguments U S = Inr args" "answers D args"
    and "version_of D s = None" "free_for_schema (catalogue_of D s)"
  shows "\<exists>s'. init_db U S D s = (True, s') \<and> catalogue_of D s' = with_schema (catalogue_of D s)
    \<and> start_script U S D s' = (False, s')"
proof -
  have build: "build_engine_kwargs U (database_url S) = Inr args" using assms(2) by (simp add: engine_arguments_def)
  obtain b where b: "create_all D metadata s = Some b" "catalogue_of D b = with_schema (catalogue_of D s)"
    "version_of D b = None"
    using run_create_all [OF assms(1,5)] assms(4) by metis
  have "cat_tables (catalogue_of D b) ''request_logs'' \<noteq> None"
    using with_schema_present [of request_log_model] b(2)
    by (simp add: metadata_def request_log_model_def)
  then have "map_option (catalogue_of D) (run_ops D upgrade b) = None"
    using run_ops_effect [OF assms(1) plain_schema(1), of b] upgrade_taken by metis
  then have "run_ops D upgrade b = None" by simp
  moreover have "case run_ops D upgrade b of
        None \<Rightarrow> run_migrations D revision (run_ops D upgrade) b = None
      | Some s' \<Rightarrow> \<exists>s''. run_migrations D revision (run_ops D upgrade) b = Some s''
          \<and> version_of D s'' = Some revision \<and> catalogue_of D s'' = catalogue_of D s'"
    using assms(1) b(3) unfolding ddl_laws_def by blast
  ultimately have "do_run_migrations D b = None" by (simp add: do_run_migrations_def)
  then have "start_script U S D b = (False, b)"
    using assms(3) by (simp add: start_script_def run_async_migrations_def build transaction_def)
  then show ?thesis using assms(2,3) b by (auto simp: init_db_def transaction_def)
qed

lemma init_db_blocks_migration_witness:
  "\<exists>s'. init_db demo_unicode test_settings demo_ddl (empty_catalogue, None) = (True, s')
    \<and> start_script demo_unicode test_settings demo_ddl s' = (False, s')"
proof -
  have "answers demo_ddl args" for args by (simp add: demo_ddl_def)
  moreover have "version_of demo_ddl (empty_catalogue, None) = None" by (simp add: demo_ddl_def)
  ultimately show ?thesis
    using init_db_blocks_migration [OF demo_ddl_laws default_engine_arguments, of "(empty_catalogue, None)"] demo_ddl_fresh(1)
    by blast
qed

end
