(* ===== verification/Utf8.thy ===== *)
theory Utf8
  imports Prelude
begin

text \<open>
  Python's strings: a \<open>string\<close> of the development is the UTF-8 form of a \<open>str\<close>, and its code points
  are read from it. A byte that belongs to no well-formed sequence stands for the lone surrogate
  that the error handler \<open>surrogateescape\<close> makes of it, so every byte string stands for one \<open>str\<close>;
  strings with other lone surrogates have no such form.
\<close>

definition octet :: "char \<Rightarrow> int" where
  "octet c = of_char c"

definition continues :: "char \<Rightarrow> bool" where
  "continues c \<longleftrightarrow> 128 \<le> octet c \<and> octet c < 192"

definition sextet :: "char \<Rightarrow> int" where
  "sextet c = octet c - 128"

definition surrogate :: "int \<Rightarrow> bool" where
  "surrogate p \<longleftrightarrow> 0xD800 \<le> p \<and> p \<le> 0xDFFF"

text \<open>The first code point of a string, and the rest after it.\<close>

definition utf8_head :: "char \<Rightarrow> string \<Rightarrow> int \<times> string" where
  "utf8_head c s =
     (let a = octet c; bad = (0xDC00 + a, s)
      in if a < 128 then (a, s)
         else if 194 \<le> a \<and> a < 224 then
           (case s of
              x # r \<Rightarrow> if continues x then ((a - 192) * 64 + sextet x, r) else bad
            | _ \<Rightarrow> bad)
         else if 224 \<le> a \<and> a < 240 then
           (case s of
              x # y # r \<Rightarrow>
                let p = (a - 224) * 4096 + sextet x * 64 + sextet y
                in if continues x \<and> continues y \<and> 0x800 \<le> p \<and> \<not> surrogate p then (p, r) else bad
            | _ \<Rightarrow> bad)
         else if 240 \<le> a \<and> a < 245 then
           (case s of
              x # y # z # r \<Rightarrow>
                let p = (a - 240) * 262144 + sextet x * 4096 + sextet y * 64 + sextet z
                in if continues x \<and> continues y \<and> continues z \<and> 0x10000 \<le> p \<and> p < 0x110000 then (p, r)
                   else bad
            | _ \<Rightarrow> bad)
         else bad)"

lemma utf8_head_shorter: "utf8_head c s = (p, r) \<Longrightarrow> length r \<le> length s"
  by (auto simp: utf8_head_def Let_def split: if_splits list.splits)

function code_points :: "string \<Rightarrow> int list" where
  "code_points [] = []"
| "code_points (c # s) = (case utf8_head c s of (p, r) \<Rightarrow> p # code_points r)"
  by pat_completeness auto
termination
  by (relation "measure length") (auto simp: less_Suc_eq_le dest: utf8_head_shorter [OF sym])

text \<open>The bytes of one code point.\<close>

definition utf8_bytes :: "int \<Rightarrow> string" where
  "utf8_bytes p =
     (if p < 0x80 then [char_of p]
      else if p < 0x800 then [char_of (192 + p div 64), char_of (128 + p mod 64)]
      else if surrogate p then [char_of (p - 0xDC00)]
      else if p < 0x10000 then [char_of (224 + p div 4096), char_of (128 + p div 64 mod 64), char_of (128 + p mod 64)]
      else [char_of (240 + p div 262144), char_of (128 + p div 4096 mod 64),
            char_of (128 + p div 64 mod 64), char_of (128 + p mod 64)])"

text \<open>The code points that a byte string can stand for.\<close>

definition valid_point :: "int \<Rightarrow> bool" where
  "valid_point p \<longleftrightarrow> 0 \<le> p \<and> p < 0x110000 \<and> (surrogate p \<longrightarrow> 0xDC80 \<le> p \<and> p \<le> 0xDCFF)"

section \<open>Decoding loses nothing\<close>

lemma octet_bounds: "0 \<le> octet c \<and> octet c < 256"
proof -
  have "octet c = int (of_char c)" unfolding octet_def by (cases c) (simp add: of_char_def)
  then show ?thesis using of_char_less [of c] by simp
qed

lemma char_of_octet [simp]: "char_of (octet c) = c"
  by (simp add: octet_def)

lemma continues_sextet: "continues c \<Longrightarrow> (0 \<le> sextet c \<and> sextet c < 64) \<and> char_of (128 + sextet c) = c"
  by (simp add: continues_def sextet_def)

lemma digit64: "0 \<le> y \<Longrightarrow> y < 64 \<Longrightarrow> (b * 64 + y) div 64 = b" "0 \<le> y \<Longrightarrow> y < 64 \<Longrightarrow> (b * 64 + y) mod 64 = (y :: int)"
  by simp_all

lemma div_powers64: "n div 4096 = n div 64 div 64" "n div 262144 = n div 64 div 64 div (64 :: int)"
  by (simp_all add: zdiv_zmult2_eq [symmetric])

lemma two_digits64:
  assumes "0 \<le> x \<and> x < 64" "0 \<le> y \<and> y < (64 :: int)"
  shows "(a * 4096 + x * 64 + y) div 4096 = a" "(a * 4096 + x * 64 + y) div 64 mod 64 = x" "(a * 4096 + x * 64 + y) mod 64 = y"
proof -
  have eq: "a * 4096 + x * 64 + y = (a * 64 + x) * 64 + y" by simp
  show "(a * 4096 + x * 64 + y) div 4096 = a" "(a * 4096 + x * 64 + y) div 64 mod 64 = x" "(a * 4096 + x * 64 + y) mod 64 = y"
    unfolding eq div_powers64 using assms by (simp_all only: digit64)
qed

lemma three_digits64:
  assumes "0 \<le> x \<and> x < 64" "0 \<le> y \<and> y < 64" "0 \<le> z \<and> z < (64 :: int)"
  shows "(a * 262144 + x * 4096 + y * 64 + z) div 262144 = a" "(a * 262144 + x * 4096 + y * 64 + z) div 4096 mod 64 = x"
    "(a * 262144 + x * 4096 + y * 64 + z) div 64 mod 64 = y" "(a * 262144 + x * 4096 + y * 64 + z) mod 64 = z"
proof -
  have eq: "a * 262144 + x * 4096 + y * 64 + z = ((a * 64 + x) * 64 + y) * 64 + z" by simp
  show "(a * 262144 + x * 4096 + y * 64 + z) div 262144 = a" "(a * 262144 + x * 4096 + y * 64 + z) div 4096 mod 64 = x"
    "(a * 262144 + x * 4096 + y * 64 + z) div 64 mod 64 = y" "(a * 262144 + x * 4096 + y * 64 + z) mod 64 = z"
    unfolding eq div_powers64 using assms by (simp_all only: digit64)
qed

lemma utf8_head_bad: "128 \<le> octet c \<Longrightarrow>
    utf8_bytes (0xDC00 + octet c) = [c] \<and> valid_point (0xDC00 + octet c)"
  using octet_bounds [of c] by (simp add: utf8_bytes_def valid_point_def surrogate_def)

lemma utf8_head_cases:
  assumes "utf8_head c s = (p, r)"
  shows "p = octet c \<and> r = s \<and> octet c < 128
    \<or> p = 0xDC00 + octet c \<and> r = s \<and> 128 \<le> octet c
    \<or> (\<exists>x. s = x # r \<and> 194 \<le> octet c \<and> octet c < 224 \<and> continues x \<and> p = (octet c - 192) * 64 + sextet x)
    \<or> (\<exists>x y. s = x # y # r \<and> 224 \<le> octet c \<and> octet c < 240 \<and> continues x \<and> continues y
         \<and> p = (octet c - 224) * 4096 + sextet x * 64 + sextet y \<and> 0x800 \<le> p \<and> \<not> surrogate p)
    \<or> (\<exists>x y z. s = x # y # z # r \<and> 240 \<le> octet c \<and> octet c < 245 \<and> continues x \<and> continues y \<and> continues z
         \<and> p = (octet c - 240) * 262144 + sextet x * 4096 + sextet y * 64 + sextet z \<and> 0x10000 \<le> p \<and> p < 0x110000)"
  using assms unfolding utf8_head_def Let_def by (simp split: if_splits list.splits)

lemma utf8_head_correct:
  assumes "utf8_head c s = (p, r)"
  shows "utf8_bytes p @ r = c # s \<and> valid_point p"
proof -
  let ?a = "octet c"
  consider (ascii) "p = ?a" "r = s" "?a < 128"
    | (bad) "p = 0xDC00 + ?a" "r = s" "128 \<le> ?a"
    | (two) x where "s = x # r" "194 \<le> ?a" "?a < 224" "continues x" "p = (?a - 192) * 64 + sextet x"
    | (three) x y where "s = x # y # r" "224 \<le> ?a" "?a < 240" "continues x" "continues y"
        "p = (?a - 224) * 4096 + sextet x * 64 + sextet y" "0x800 \<le> p" "\<not> surrogate p"
    | (four) x y z where "s = x # y # z # r" "240 \<le> ?a" "?a < 245" "continues x" "continues y" "continues z"
        "p = (?a - 240) * 262144 + sextet x * 4096 + sextet y * 64 + sextet z" "0x10000 \<le> p" "p < 0x110000"
    using utf8_head_cases [OF assms] by blast
  then show ?thesis
  proof cases
    case ascii
    then show ?thesis using octet_bounds [of c] by (simp add: utf8_bytes_def valid_point_def surrogate_def)
  next
    case bad
    then show ?thesis using utf8_head_bad [of c] by simp
  next
    case two
    note x = continues_sextet [OF two(4)]
    have "0x80 \<le> p" using two(2,5) x by simp
    moreover have "p < 0x800" using two(3,5) x by simp
    moreover have "p div 64 = ?a - 192" "p mod 64 = sextet x"
      unfolding two(5) using digit64 conjunct1 [OF x] by blast+
    ultimately show ?thesis
      using two x by (simp add: utf8_bytes_def valid_point_def surrogate_def)
  next
    case three
    note x = continues_sextet [OF three(4)] note y = continues_sextet [OF three(5)]
    have "p < 0x10000" using three(3,6) x y by simp
    moreover have "p div 4096 = ?a - 224" "p div 64 mod 64 = sextet x" "p mod 64 = sextet y"
      unfolding three(6) by (rule two_digits64 [OF conjunct1 [OF x] conjunct1 [OF y]])+
    ultimately show ?thesis
      using three(1,2,7,8) x y by (simp add: utf8_bytes_def valid_point_def)
  next
    case four
    note x = continues_sextet [OF four(4)] note y = continues_sextet [OF four(5)] note z = continues_sextet [OF four(6)]
    have "p div 262144 = ?a - 240" "p div 4096 mod 64 = sextet x" "p div 64 mod 64 = sextet y" "p mod 64 = sextet z"
      unfolding four(7) by (rule three_digits64 [OF conjunct1 [OF x] conjunct1 [OF y] conjunct1 [OF z]])+
    moreover have "utf8_bytes p = [char_of (240 + p div 262144), char_of (128 + p div 4096 mod 64),
        char_of (128 + p div 64 mod 64), char_of (128 + p mod 64)]"
      using four(8,9) by (simp add: utf8_bytes_def surrogate_def)
    ultimately have "utf8_bytes p = [c, x, y, z]" using x y z by simp
    moreover have "valid_point p" using four(8,9) by (simp add: valid_point_def surrogate_def)
    ultimately show ?thesis by (simp add: four(1))
  qed
qed

lemma code_points_bytes: "concat (map utf8_bytes (code_points s)) = s \<and> list_all valid_point (code_points s)"
proof (induction s rule: code_points.induct)
  case (2 c s)
  obtain p r where h: "utf8_head c s = (p, r)" by fastforce
  with 2 [OF h [symmetric]] utf8_head_correct [OF h] show ?case by simp
qed simp

end
