(* ===== verification/Json_Text.thy ===== *)
theory Json_Text
  imports Http Utf8
begin

text \<open>
  JSON as text: Python's \<open>json.dumps\<close> with its defaults (ASCII only, \<open>", "\<close> and \<open>": "\<close> between items),
  and a reader of JSON texts after RFC 8259, the reference that the written lines are checked
  against. Strings are in UTF-8 (theory \<open>Utf8\<close>): the writer escapes their code points, those above
  \<open>0xFFFF\<close> as two surrogates, and the reader turns escapes back into the bytes. The reader knows
  integers only; the decimal text of a float is a parameter of the writer.
\<close>

section \<open>Writing\<close>

definition low_hex :: "nat \<Rightarrow> char" where
  "low_hex d = (if d < 10 then char_of (48 + d) else char_of (87 + d))"

definition hex4 :: "int \<Rightarrow> string" where
  "hex4 p = [low_hex (nat (p div 4096)), low_hex (nat (p div 256 mod 16)), low_hex (nat (p div 16 mod 16)),
             low_hex (nat (p mod 16))]"

definition json_point :: "int \<Rightarrow> string" where
  "json_point p =
     (if p = 0x22 then [CHR 0x5C, CHR 0x22]
      else if p = 0x5C then [CHR 0x5C, CHR 0x5C]
      else if p = 0x0A then [CHR 0x5C, CHR ''n'']
      else if p = 0x0D then [CHR 0x5C, CHR ''r'']
      else if p = 0x09 then [CHR 0x5C, CHR ''t'']
      else if p = 0x0C then [CHR 0x5C, CHR ''f'']
      else if p = 0x08 then [CHR 0x5C, CHR ''b'']
      else if 32 \<le> p \<and> p \<le> 126 then [char_of p]
      else if p < 0x10000 then [CHR 0x5C, CHR ''u''] @ hex4 p
      else [CHR 0x5C, CHR ''u''] @ hex4 (0xD800 + (p - 0x10000) div 1024)
         @ [CHR 0x5C, CHR ''u''] @ hex4 (0xDC00 + (p - 0x10000) mod 1024))"

definition json_string :: "string \<Rightarrow> string" where
  "json_string s = [CHR 0x22] @ concat (map json_point (code_points s)) @ [CHR 0x22]"

fun dumps :: "(rat \<Rightarrow> string) \<Rightarrow> json \<Rightarrow> string"
  and dump_items :: "(rat \<Rightarrow> string) \<Rightarrow> json list \<Rightarrow> string"
  and dump_members :: "(rat \<Rightarrow> string) \<Rightarrow> (string \<times> json) list \<Rightarrow> string" where
  "dumps F JNull = ''null''"
| "dumps F (JBool b) = (if b then ''true'' else ''false'')"
| "dumps F (JInt i) = int_str i"
| "dumps F (JFloat x) = F x"
| "dumps F (JStr s) = json_string s"
| "dumps F (JArr xs) = ''['' @ dump_items F xs @ '']''"
| "dumps F (JObj kvs) = [CHR 0x7B] @ dump_members F kvs @ [CHR 0x7D]"
| "dump_items F [] = []"
| "dump_items F (x # xs) = dumps F x @ (if xs = [] then [] else '', '' @ dump_items F xs)"
| "dump_members F [] = []"
| "dump_members F ((k, v) # kvs) =
     json_string k @ '': '' @ dumps F v @ (if kvs = [] then [] else '', '' @ dump_members F kvs)"

fun float_free :: "json \<Rightarrow> bool"
  and float_free_items :: "json list \<Rightarrow> bool"
  and float_free_members :: "(string \<times> json) list \<Rightarrow> bool" where
  "float_free (JFloat x) \<longleftrightarrow> False"
| "float_free (JArr xs) \<longleftrightarrow> float_free_items xs"
| "float_free (JObj kvs) \<longleftrightarrow> float_free_members kvs"
| "float_free _ \<longleftrightarrow> True"
| "float_free_items [] \<longleftrightarrow> True"
| "float_free_items (x # xs) \<longleftrightarrow> float_free x \<and> float_free_items xs"
| "float_free_members [] \<longleftrightarrow> True"
| "float_free_members ((k, v) # kvs) \<longleftrightarrow> float_free v \<and> float_free_members kvs"

section \<open>Reading\<close>

definition json_blank :: "char \<Rightarrow> bool" where
  "json_blank c \<longleftrightarrow> c \<in> {CHR '' '', CHR 0x09, CHR 0x0A, CHR 0x0D}"

definition skip_blanks :: "string \<Rightarrow> string" where
  "skip_blanks s = dropWhile json_blank s"

text \<open>Four hexadecimal digits.\<close>

definition read_hex4 :: "string \<Rightarrow> (int \<times> string) option" where
  "read_hex4 s =
     (case map hex_val (take 4 s) of
        [Some a, Some b, Some c, Some d] \<Rightarrow> Some (4096 * int a + 256 * int b + 16 * int c + int d, drop 4 s)
      | _ \<Rightarrow> None)"

text \<open>A high surrogate is read together with the low one that must follow it; a lone surrogate is read
  where UTF-8 with \<open>surrogateescape\<close> has a byte for it.\<close>

definition read_unicode :: "string \<Rightarrow> (string \<times> string) option" where
  "read_unicode s =
     (case read_hex4 s of
        None \<Rightarrow> None
      | Some (p, r) \<Rightarrow>
          if 0xD800 \<le> p \<and> p < 0xDC00 then
            (if startswith r [CHR 0x5C, CHR ''u''] then
               (case read_hex4 (drop 2 r) of
                  None \<Rightarrow> None
                | Some (q, t) \<Rightarrow>
                    if 0xDC00 \<le> q \<and> q < 0xE000
                    then Some (utf8_bytes (0x10000 + (p - 0xD800) * 1024 + (q - 0xDC00)), t) else None)
             else None)
          else if valid_point p then Some (utf8_bytes p, r) else None)"

text \<open>One escape, after the backslash: the bytes of the character and the rest.\<close>

definition read_escape :: "string \<Rightarrow> (string \<times> string) option" where
  "read_escape s =
     (case s of
        [] \<Rightarrow> None
      | e # r \<Rightarrow>
          if e = CHR 0x22 \<or> e = CHR 0x5C \<or> e = CHR ''/'' then Some ([e], r)
          else if e = CHR ''n'' then Some ([CHR 0x0A], r)
          else if e = CHR ''r'' then Some ([CHR 0x0D], r)
          else if e = CHR ''t'' then Some ([CHR 0x09], r)
          else if e = CHR ''f'' then Some ([CHR 0x0C], r)
          else if e = CHR ''b'' then Some ([CHR 0x08], r)
          else if e = CHR ''u'' then read_unicode r
          else None)"

lemma read_hex4_shorter: "read_hex4 s = Some (p, r) \<Longrightarrow> length r \<le> length s"
  by (auto simp: read_hex4_def split: list.splits option.splits)

lemma read_unicode_shorter: "read_unicode s = Some (x, r) \<Longrightarrow> length r \<le> length s"
  by (fastforce simp: read_unicode_def split: option.splits if_splits dest!: read_hex4_shorter)

lemma read_escape_shorter: "read_escape s = Some (x, r) \<Longrightarrow> length r < length s"
  by (auto simp: read_escape_def dest!: read_unicode_shorter split: list.splits if_splits option.splits)

text \<open>The characters up to the closing quote.\<close>

function (sequential) read_chars :: "string \<Rightarrow> (string \<times> string) option" where
  "read_chars [] = None"
| "read_chars (c # s) =
     (if c = CHR 0x22 then Some ([], s)
      else if c = CHR 0x5C then
        (case read_escape s of
           None \<Rightarrow> None
         | Some (x, r) \<Rightarrow> map_option (\<lambda>(xs, t). (x @ xs, t)) (read_chars r))
      else if (of_char c :: nat) < 32 then None
      else map_option (\<lambda>(xs, t). (c # xs, t)) (read_chars s))"
  by pat_completeness auto
termination
  by (relation "measure length") (auto dest!: read_escape_shorter)

definition read_int :: "string \<Rightarrow> (json \<times> string) option" where
  "read_int s =
     (let neg = startswith s ''-'';
          r = (if neg then drop 1 s else s);
          ds = takeWhile is_digit r;
          rest = dropWhile is_digit r;
          n = int (digits_val ds)
      in if ds = [] \<or> (hd ds = CHR ''0'' \<and> length ds > 1)
            \<or> (rest \<noteq> [] \<and> hd rest \<in> {CHR ''.'', CHR ''e'', CHR ''E''}) then None
         else Some (JInt (if neg then - n else n), rest))"

text \<open>The reader, with fuel; \<open>json_loads\<close> gives it more than a text of that length can need.\<close>

fun read_value :: "nat \<Rightarrow> string \<Rightarrow> (json \<times> string) option"
  and read_items :: "nat \<Rightarrow> string \<Rightarrow> (json list \<times> string) option"
  and read_members :: "nat \<Rightarrow> string \<Rightarrow> ((string \<times> json) list \<times> string) option" where
  "read_value 0 s = None"
| "read_value (Suc n) s =
     (case skip_blanks s of
        [] \<Rightarrow> None
      | c # r \<Rightarrow>
          if c = CHR 0x22 then map_option (\<lambda>(x, t). (JStr x, t)) (read_chars r)
          else if c = CHR ''['' then
            (if startswith (skip_blanks r) '']'' then Some (JArr [], drop 1 (skip_blanks r))
             else map_option (\<lambda>(xs, t). (JArr xs, t)) (read_items n r))
          else if c = CHR 0x7B then
            (if startswith (skip_blanks r) [CHR 0x7D] then Some (JObj [], drop 1 (skip_blanks r))
             else map_option (\<lambda>(kvs, t). (JObj kvs, t)) (read_members n r))
          else if startswith (c # r) ''null'' then Some (JNull, drop 3 r)
          else if startswith (c # r) ''true'' then Some (JBool True, drop 3 r)
          else if startswith (c # r) ''false'' then Some (JBool False, drop 4 r)
          else read_int (c # r))"
| "read_items 0 s = None"
| "read_items (Suc n) s =
     (case read_value n s of
        None \<Rightarrow> None
      | Some (x, r) \<Rightarrow>
          (case skip_blanks r of
             [] \<Rightarrow> None
           | c # t \<Rightarrow>
               if c = CHR '','' then map_option (\<lambda>(xs, u). (x # xs, u)) (read_items n t)
               else if c = CHR '']'' then Some ([x], t)
               else None))"
| "read_members 0 s = None"
| "read_members (Suc n) s =
     (if \<not> startswith (skip_blanks s) [CHR 0x22] then None
      else case read_chars (drop 1 (skip_blanks s)) of
        None \<Rightarrow> None
      | Some (k, r) \<Rightarrow>
          if \<not> startswith (skip_blanks r) '':'' then None
          else case read_value n (drop 1 (skip_blanks r)) of
            None \<Rightarrow> None
          | Some (v, q) \<Rightarrow>
              (case skip_blanks q of
                 [] \<Rightarrow> None
               | c # t \<Rightarrow>
                   if c = CHR '','' then map_option (\<lambda>(kvs, u). ((k, v) # kvs, u)) (read_members n t)
                   else if c = CHR 0x7D then Some ([(k, v)], t)
                   else None))"

definition json_loads :: "string \<Rightarrow> json option" where
  "json_loads s =
     (case read_value (Suc (length s)) s of
        None \<Rightarrow> None
      | Some (j, r) \<Rightarrow> if skip_blanks r = [] then Some j else None)"

section \<open>Strings\<close>

lemma hex_val_low: "d < 16 \<Longrightarrow> hex_val (low_hex d) = Some d"
  by (simp add: hex_val_def low_hex_def of_char_small)

lemma low_hex_printable: "d < 16 \<Longrightarrow> 32 \<le> (of_char (low_hex d) :: nat) \<and> (of_char (low_hex d) :: nat) \<le> 126"
  by (simp add: low_hex_def of_char_small)

definition printable :: "string \<Rightarrow> bool" where
  "printable s \<longleftrightarrow> (\<forall>c\<in>set s. 32 \<le> (of_char c :: nat) \<and> (of_char c :: nat) \<le> 126)"

lemma printable_simps [simp]: "printable []" "printable (s @ t) \<longleftrightarrow> printable s \<and> printable t"
  "printable (c # s) \<longleftrightarrow> (32 \<le> (of_char c :: nat) \<and> (of_char c :: nat) \<le> 126) \<and> printable s"
  by (auto simp: printable_def)

lemma hex4_digits: "4096 * (p div 4096) + 256 * (p div 256 mod 16) + 16 * (p div 16 mod 16) + p mod 16 = (p :: int)"
proof -
  have horner: "4096 * a + 256 * b + 16 * c + d = 16 * (16 * (16 * a + b) + c) + d" for a b c d :: int by simp
  have powers: "p div 256 = p div 16 div 16" "p div 4096 = p div 16 div 16 div 16"
    by (simp_all add: zdiv_zmult2_eq [symmetric])
  show ?thesis unfolding horner powers by (simp only: mult_div_mod_eq)
qed

lemma hex4_lead: "0 \<le> p \<Longrightarrow> p < 0x10000 \<Longrightarrow> 0 \<le> p div 4096 \<and> p div 4096 < (16 :: int)"
  by (simp add: div_int_pos_iff)

lemma read_hex4:
  assumes "0 \<le> p" "p < 0x10000"
  shows "read_hex4 (hex4 p @ r) = Some (p, r)"
proof -
  note lead = hex4_lead [OF assms]
  then have "nat (p div 4096) < 16" by linarith
  then have digits: "map hex_val (take 4 (hex4 p @ r)) =
      [Some (nat (p div 4096)), Some (nat (p div 256 mod 16)), Some (nat (p div 16 mod 16)), Some (nat (p mod 16))]"
    by (simp add: hex4_def hex_val_low nat_less_iff)
  show ?thesis unfolding read_hex4_def digits using lead by (simp add: hex4_digits) (simp add: hex4_def)
qed

lemma hex4_printable: "0 \<le> p \<Longrightarrow> p < 0x10000 \<Longrightarrow> printable (hex4 p)"
  using hex4_lead [of p] by (simp add: hex4_def low_hex_printable nat_less_iff)

lemma read_unicode_bmp:
  "0 \<le> p \<Longrightarrow> p < 0x10000 \<Longrightarrow> valid_point p \<Longrightarrow> read_unicode (hex4 p @ r) = Some (utf8_bytes p, r)"
  by (auto simp: read_unicode_def read_hex4 valid_point_def surrogate_def)

lemma read_unicode_pair:
  assumes "0x10000 \<le> p" "p < 0x110000"
  shows "read_unicode (hex4 (0xD800 + (p - 0x10000) div 1024) @ CHR 0x5C # CHR ''u''
           # hex4 (0xDC00 + (p - 0x10000) mod 1024) @ r) = Some (utf8_bytes p, r)"
proof -
  let ?h = "(p - 0x10000) div 1024" and ?l = "(p - 0x10000) mod 1024"
  have h: "0 \<le> ?h" "?h < 1024" using assms by (simp_all add: div_int_pos_iff)
  have l: "0 \<le> ?l" "?l < 1024" by simp_all
  have "?h * 1024 + ?l = p - 0x10000" by simp
  with assms have p: "0x10000 + ?h * 1024 + ?l = p" by linarith
  have first: "read_hex4 (hex4 (0xD800 + ?h) @ t) = Some (0xD800 + ?h, t)" for t using h by (intro read_hex4) linarith+
  have second: "read_hex4 (hex4 (0xDC00 + ?l) @ r) = Some (0xDC00 + ?l, r)" using l by (intro read_hex4) linarith+
  have "0xD800 \<le> 0xD800 + ?h \<and> 0xD800 + ?h < 0xDC00" "0xDC00 \<le> 0xDC00 + ?l \<and> 0xDC00 + ?l < 0xE000"
    using h l by linarith+
  moreover have "0xD800 + ?h - 0xD800 = ?h" "0xDC00 + ?l - 0xDC00 = ?l" by simp_all
  moreover have "startswith (CHR 0x5C # CHR ''u'' # t) [CHR 0x5C, CHR ''u'']" "drop 2 (CHR 0x5C # CHR ''u'' # t) = t" for t
    by (simp_all add: startswith_def)
  ultimately show ?thesis
    unfolding read_unicode_def first option.case prod.case
    by (simp only: if_True second option.case prod.case p simp_thms)
qed

lemma char_values: "(of_char (CHR 0x22) :: int) = 0x22" "(of_char (CHR 0x5C) :: int) = 0x5C"
  by simp_all

lemma read_json_point:
  assumes "valid_point p"
  shows "read_chars (json_point p @ s) = map_option (\<lambda>(xs, t). (utf8_bytes p @ xs, t)) (read_chars s)"
proof (cases "p \<in> {0x22, 0x5C, 0x0A, 0x0D, 0x09, 0x0C, 0x08}")
  case True
  have chars: "char_of (34 :: int) = CHR 0x22" "char_of (92 :: int) = CHR 0x5C" "char_of (10 :: int) = CHR 0x0A"
    "char_of (13 :: int) = CHR 0x0D" "char_of (9 :: int) = CHR 0x09" "char_of (12 :: int) = CHR 0x0C"
    "char_of (8 :: int) = CHR 0x08" by code_simp+
  from True show ?thesis
    by (elim insertE emptyE) (simp_all add: json_point_def utf8_bytes_def read_escape_def chars)
next
  case False
  consider "32 \<le> p \<and> p \<le> 126" | "\<not> (32 \<le> p \<and> p \<le> 126)" "p < 0x10000" | "0x10000 \<le> p" by linarith
  then show ?thesis
  proof cases
    case 1
    then have p: "(of_char (char_of p :: char) :: int) = p" by simp
    then have "(of_char (char_of p :: char) :: nat) = nat p" by (metis nat_int of_nat_of_char)
    moreover from p have "char_of p \<noteq> CHR 0x22" "char_of p \<noteq> CHR 0x5C"
      using False by (metis char_values(1) insertI1, metis char_values(2) insertI1 insertI2)
    moreover have "\<not> nat p < 32" using 1 by linarith
    ultimately show ?thesis using 1 False by (simp add: json_point_def utf8_bytes_def)
  next
    case 2
    then have "json_point p = CHR 0x5C # CHR ''u'' # hex4 p" using False by (auto simp: json_point_def)
    then show ?thesis using read_unicode_bmp [OF _ 2(2) assms] assms by (simp add: read_escape_def valid_point_def)
  next
    case 3
    then have "json_point p = CHR 0x5C # CHR ''u'' # hex4 (0xD800 + (p - 0x10000) div 1024)
        @ CHR 0x5C # CHR ''u'' # hex4 (0xDC00 + (p - 0x10000) mod 1024)" using False by (auto simp: json_point_def)
    then show ?thesis using read_unicode_pair [OF 3] assms by (simp add: read_escape_def valid_point_def)
  qed
qed

lemma read_json_points:
  "list_all valid_point ps \<Longrightarrow>
     read_chars (concat (map json_point ps) @ CHR 0x22 # rest) = Some (concat (map utf8_bytes ps), rest)"
  by (induction ps) (simp_all add: read_json_point)

lemma read_json_string: "read_chars (concat (map json_point (code_points s)) @ CHR 0x22 # rest) = Some (s, rest)"
  using read_json_points code_points_bytes by simp

lemma json_point_printable:
  assumes "valid_point p"
  shows "printable (json_point p)"
proof (cases "0x10000 \<le> p")
  case True
  have top: "p < 0x110000" using assms by (simp add: valid_point_def)
  have "0 \<le> (p - 0x10000) div 1024" "(p - 0x10000) div 1024 < 1024" "0 \<le> (p - 0x10000) mod 1024" "(p - 0x10000) mod 1024 < 1024"
    using True top by (simp_all add: div_int_pos_iff)
  then show ?thesis using True by (simp add: json_point_def hex4_printable)
next
  case False
  have "(of_char (char_of p :: char) :: nat) = nat p" if "32 \<le> p" "p \<le> 126"
  proof -
    have "(of_char (char_of p :: char) :: int) = p" using that by simp
    then show ?thesis by (metis nat_int of_nat_of_char)
  qed
  then show ?thesis using False assms by (auto simp: json_point_def valid_point_def hex4_printable)
qed

lemma json_string_printable: "printable (json_string s)"
proof -
  have "list_all valid_point ps \<Longrightarrow> printable (concat (map json_point ps))" for ps
    by (induction ps) (simp_all add: json_point_printable)
  then show ?thesis using code_points_bytes by (simp add: json_string_def)
qed

section \<open>Numbers\<close>

lemma is_digit_char_of: "(d :: nat) < 10 \<Longrightarrow> is_digit (char_of (48 + d))"
  by (simp add: is_digit_def of_char_small Let_def)

lemma nat_str_shape:
  "list_all is_digit (nat_str n) \<and> nat_str n \<noteq> [] \<and> (n \<noteq> 0 \<longrightarrow> hd (nat_str n) \<noteq> CHR ''0'')"
proof (induction n rule: nat_str.induct)
  case (1 n)
  show ?case
  proof (cases "n < 10")
    case True
    have "char_of (48 + n) \<noteq> CHR ''0''" if "n \<noteq> 0"
    proof
      assume "char_of (48 + n) = CHR ''0''"
      then have "of_char (char_of (48 + n) :: char) = (of_char (CHR ''0'') :: nat)" by simp
      then show False using True that by (simp add: of_char_digit)
    qed
    with True show ?thesis by (simp add: nat_str.simps [of n] is_digit_char_of)
  next
    case False
    then have "n div 10 \<noteq> 0" by simp
    with 1 False show ?thesis by (simp add: nat_str.simps [of n] is_digit_char_of)
  qed
qed

lemma nat_str_0: "nat_str 0 = ''0''"
  by code_simp

definition number_ends :: "string \<Rightarrow> bool" where
  "number_ends r \<longleftrightarrow> r = [] \<or> (\<not> is_digit (hd r) \<and> hd r \<notin> {CHR ''.'', CHR ''e'', CHR ''E''})"

lemma read_digits:
  assumes "number_ends r"
  shows "takeWhile is_digit (nat_str n @ r) = nat_str n" "dropWhile is_digit (nat_str n @ r) = r"
proof -
  have all: "\<forall>x\<in>set (nat_str n). is_digit x" using nat_str_shape [of n] by (simp add: list_all_iff)
  have none: "takeWhile is_digit r = []" "dropWhile is_digit r = r"
    using assms by (cases r; simp add: number_ends_def)+
  show "takeWhile is_digit (nat_str n @ r) = nat_str n" "dropWhile is_digit (nat_str n @ r) = r"
    using all none by (simp_all add: takeWhile_append2 dropWhile_append2)
qed

lemma read_int_str:
  assumes "number_ends r"
  shows "read_int (int_str i @ r) = Some (JInt i, r)"
proof -
  have neg: "\<not> startswith (nat_str n @ r) ''-''" for n
    using nat_str_no_minus [of n] by (auto simp: startswith_def)
  have zero: "\<not> (hd (nat_str n) = CHR ''0'' \<and> 1 < length (nat_str n))" "nat_str n \<noteq> []" for n
    using nat_str_shape [of n] by (cases "n = 0"; simp add: nat_str_0)+
  have ends: "\<not> (r \<noteq> [] \<and> hd r \<in> {CHR ''.'', CHR ''e'', CHR ''E''})"
    using assms by (auto simp: number_ends_def)
  have cond: "(nat_str n = [] \<or> hd (nat_str n) = CHR ''0'' \<and> length (nat_str n) > 1
      \<or> r \<noteq> [] \<and> hd r \<in> {CHR ''.'', CHR ''e'', CHR ''E''}) \<longleftrightarrow> False" for n
    using zero [of n] ends by blast
  show ?thesis
  proof (cases "i < 0")
    case True
    have minus: "startswith (CHR ''-'' # t) ''-'' = True" "drop 1 (CHR ''-'' # t) = t" for t
      by (simp_all add: startswith_def)
    have "int_str i @ r = CHR ''-'' # nat_str (nat (- i)) @ r" using True by (simp add: int_str_def)
    then have "read_int (int_str i @ r) = Some (JInt (- int (nat (- i))), r)"
      by (simp only: read_int_def Let_def minus if_True read_digits [OF assms] cond if_False digits_val_nat_str)
    then show ?thesis using True by simp
  next
    case False
    then have "int_str i @ r = nat_str (nat i) @ r" by (simp add: int_str_def)
    then have "read_int (int_str i @ r) = Some (JInt (int (nat i)), r)"
      by (simp only: read_int_def Let_def neg if_False read_digits [OF assms] cond digits_val_nat_str)
    then show ?thesis using False by simp
  qed
qed

section \<open>What is written is read back\<close>

lemma skip_blanks_simps [simp]:
  "skip_blanks [] = []" "\<not> json_blank c \<Longrightarrow> skip_blanks (c # s) = c # s"
  "skip_blanks (CHR '' '' # s) = skip_blanks s"
  by (simp_all add: skip_blanks_def json_blank_def)

lemma not_blank [simp]: "\<not> json_blank (CHR 0x22)" "\<not> json_blank (CHR ''['')" "\<not> json_blank (CHR '']'')"
  "\<not> json_blank (CHR 0x7B)" "\<not> json_blank (CHR 0x7D)" "\<not> json_blank (CHR '','')" "\<not> json_blank (CHR '':'')"
  by (simp_all add: json_blank_def)

lemma number_ends_simps [simp]: "number_ends []" "number_ends (CHR '','' # r)" "number_ends (CHR '']'' # r)"
  "number_ends (CHR 0x7D # r)"
  by (simp_all add: number_ends_def is_digit_def)

lemma read_value_space: "read_value n (CHR '' '' # s) = read_value n s"
  by (cases n) simp_all

lemma read_items_space: "read_items n (CHR '' '' # s) = read_items n s"
  by (cases n) (simp_all add: read_value_space)

lemma read_members_space: "read_members n (CHR '' '' # s) = read_members n s"
  by (cases n) simp_all

lemma int_str_hd: "\<exists>c r. int_str i = c # r \<and> (c = CHR ''-'' \<or> is_digit c)"
proof -
  obtain c r where "nat_str (nat i) = c # r" "is_digit c"
    using nat_str_shape [of "nat i"] by (cases "nat_str (nat i)") auto
  then show ?thesis by (simp add: int_str_def)
qed

lemma number_char: "c = CHR ''-'' \<or> is_digit c \<Longrightarrow>
    \<not> json_blank c \<and> c \<notin> {CHR 0x22, CHR ''['', CHR '']'', CHR 0x7B, CHR 0x7D, CHR ''n'', CHR ''t'', CHR ''f''}"
  by (auto simp: json_blank_def is_digit_def)

lemma dumps_hd:
  assumes "float_free j"
  shows "\<exists>c r. dumps F j = c # r \<and> \<not> json_blank c \<and> c \<noteq> CHR '']'' \<and> c \<noteq> CHR 0x7D"
  using assms
proof (cases j)
  case (JInt i)
  obtain c r where "int_str i = c # r" "c = CHR ''-'' \<or> is_digit c" using int_str_hd by blast
  then show ?thesis using number_char [of c] by (simp add: JInt)
qed (auto simp: json_string_def json_blank_def)

lemma dump_items_hd:
  "float_free_items xs \<Longrightarrow> xs \<noteq> [] \<Longrightarrow> \<exists>c r. dump_items F xs = c # r \<and> \<not> json_blank c \<and> c \<noteq> CHR '']''"
proof (cases xs)
  case (Cons x ys)
  assume "float_free_items xs" "xs \<noteq> []"
  with Cons have "float_free x" by simp
  then obtain c r where "dumps F x = c # r" "\<not> json_blank c" "c \<noteq> CHR '']''" using dumps_hd by blast
  then show ?thesis by (simp add: Cons)
qed simp

lemma dump_members_hd: "kvs \<noteq> [] \<Longrightarrow> \<exists>r. dump_members F kvs = CHR 0x22 # r"
  by (cases kvs) (auto simp: json_string_def)

lemma read_dumps:
  "float_free j \<Longrightarrow> length (dumps F j) \<le> n \<Longrightarrow> number_ends rest \<Longrightarrow>
     read_value n (dumps F j @ rest) = Some (j, rest)"
  "float_free_items xs \<Longrightarrow> xs \<noteq> [] \<Longrightarrow> length (dump_items F xs) < n \<Longrightarrow>
     read_items n (dump_items F xs @ CHR '']'' # rest) = Some (xs, rest)"
  "float_free_members kvs \<Longrightarrow> kvs \<noteq> [] \<Longrightarrow> length (dump_members F kvs) < n \<Longrightarrow>
     read_members n (dump_members F kvs @ CHR 0x7D # rest) = Some (kvs, rest)"
proof (induction F j and F xs and F kvs arbitrary: n rest and n rest and n rest rule: dumps_dump_items_dump_members.induct)
  case (1 F)
  then obtain m where "n = Suc m" by (cases n) auto
  then show ?case by (simp add: json_blank_def startswith_def)
next
  case (2 F b)
  then obtain m where "n = Suc m" by (cases n) (auto split: if_splits)
  then show ?case by (simp add: json_blank_def startswith_def)
next
  case (3 F i)
  obtain c r where c: "int_str i = c # r" "c = CHR ''-'' \<or> is_digit c" using int_str_hd by blast
  then obtain m where "n = Suc m" using "3.prems" by (cases n) auto
  moreover note number_char [OF c(2)]
  moreover have "read_int (c # r @ rest) = Some (JInt i, rest)"
    using read_int_str [OF "3.prems"(3), of i] by (simp add: c)
  ultimately show ?case by (simp add: c startswith_def)
next
  case (5 F s)
  then obtain m where "n = Suc m" by (cases n) (auto simp: json_string_def)
  then show ?case by (simp add: json_string_def read_json_string)
next
  case (6 F xs)
  then obtain m where n: "n = Suc m" by (cases n) auto
  show ?case
  proof (cases "xs = []")
    case False
    then obtain c r where c: "dump_items F xs = c # r" "\<not> json_blank c" "c \<noteq> CHR '']''"
      using dump_items_hd "6.prems" by fastforce
    have "read_items m (dump_items F xs @ CHR '']'' # rest) = Some (xs, rest)"
      using 6 False n by simp
    then show ?thesis using c by (simp add: n startswith_def)
  qed (simp add: n startswith_def)
next
  case (7 F kvs)
  then obtain m where n: "n = Suc m" by (cases n) auto
  show ?case
  proof (cases "kvs = []")
    case False
    then obtain r where c: "dump_members F kvs = CHR 0x22 # r" using dump_members_hd by blast
    have "read_members m (dump_members F kvs @ CHR 0x7D # rest) = Some (kvs, rest)"
      using 7 False n by simp
    then show ?thesis using c by (simp add: n startswith_def)
  qed (simp add: n startswith_def)
next
  case (9 F x xs)
  then obtain m where n: "n = Suc m" by (cases n) auto
  show ?case
  proof (cases "xs = []")
    case True
    then show ?thesis using 9 n by simp
  next
    case False
    have "read_value m (dumps F x @ CHR '','' # CHR '' '' # dump_items F xs @ CHR '']'' # rest) =
        Some (x, CHR '','' # CHR '' '' # dump_items F xs @ CHR '']'' # rest)"
      using 9 n False by simp
    moreover have "read_items m (dump_items F xs @ CHR '']'' # rest) = Some (xs, rest)"
      using 9 n False by simp
    ultimately show ?thesis by (simp add: n False read_items_space)
  qed
next
  case (11 F k v kvs)
  then obtain m where n: "n = Suc m" by (cases n) auto
  let ?tail = "if kvs = [] then CHR 0x7D # rest else CHR '','' # CHR '' '' # dump_members F kvs @ CHR 0x7D # rest"
  have written: "dump_members F ((k, v) # kvs) @ CHR 0x7D # rest =
      CHR 0x22 # concat (map json_point (code_points k)) @ CHR 0x22 # CHR '':'' # CHR '' '' # dumps F v @ ?tail"
    by (simp add: json_string_def)
  have "read_value m (dumps F v @ ?tail) = Some (v, ?tail)"
    using 11 n by simp
  moreover have "kvs \<noteq> [] \<Longrightarrow> read_members m (dump_members F kvs @ CHR 0x7D # rest) = Some (kvs, rest)"
    using 11 n by simp
  ultimately show ?case
    unfolding written n
    by (simp add: read_json_string startswith_def read_value_space read_members_space)
qed simp_all

lemma json_loads_dumps:
  assumes "float_free j"
  shows "json_loads (dumps F j) = Some j"
  using read_dumps(1) [OF assms, where F = F and n = "Suc (length (dumps F j))" and rest = "[]"]
  by (simp add: json_loads_def)

lemma int_str_printable: "printable (int_str i)"
proof -
  have "printable (nat_str n)" for n
    using nat_str_shape [of n] by (fastforce simp: printable_def list_all_iff is_digit_def Let_def)
  then show ?thesis by (simp add: int_str_def)
qed

lemma dumps_printable:
  "float_free j \<Longrightarrow> printable (dumps F j)"
  "float_free_items xs \<Longrightarrow> printable (dump_items F xs)"
  "float_free_members kvs \<Longrightarrow> printable (dump_members F kvs)"
  by (induction F j and F xs and F kvs rule: dumps_dump_items_dump_members.induct)
     (auto simp: int_str_printable json_string_printable)

end
