(* ===== verification/Log_Format.thy ===== *)
theory Log_Format
  imports Json_Text
begin

text \<open>
  \<open>app/core/logging.py\<close>: the formatter that turns a log record into one line of JSON, and
  \<open>setup_logging\<close>, with what they use of Python's \<open>logging\<close> module. A level is its number; strings are
  in UTF-8.
\<close>

section \<open>Records and their lines\<close>

text \<open>A record: its attribute dictionary, of which the formatter reads the level name, the logger's
  name, the message and the text of the exception; a value that \<open>json.dumps\<close> cannot write is
  \<open>None\<close>.\<close>

record log_record =
  lr_levelname :: string
  lr_name :: string
  lr_message :: string
  lr_exception :: "string option"
  lr_dict :: "(string \<times> json option) list"

definition standard_attributes :: "string list" where
  "standard_attributes =
     [''args'', ''asctime'', ''created'', ''exc_info'', ''exc_text'', ''filename'', ''funcName'', ''id'',
      ''levelname'', ''levelno'', ''lineno'', ''module'', ''msecs'', ''message'', ''msg'', ''name'',
      ''pathname'', ''process'', ''processName'', ''relativeCreated'', ''stack_info'', ''thread'',
      ''threadName'', ''taskName'']"

definition merge_extra :: "(string \<times> json option) list \<Rightarrow> (string \<times> json option) list \<Rightarrow> (string \<times> json option) list" where
  "merge_extra attributes payload =
     fold (\<lambda>(key, value) p. if key \<notin> set standard_attributes then dict_put key value p else p) attributes payload"

definition log_payload :: "string \<Rightarrow> log_record \<Rightarrow> (string \<times> json option) list" where
  "log_payload now r =
     (let payload = merge_extra (lr_dict r)
            [(''timestamp'', Some (JStr now)), (''level'', Some (JStr (lr_levelname r))),
             (''logger'', Some (JStr (lr_name r))), (''message'', Some (JStr (lr_message r)))]
      in case lr_exception r of
           None \<Rightarrow> payload
         | Some trace \<Rightarrow> dict_put ''exc_info'' (Some (JStr trace)) payload)"

definition format_record :: "(rat \<Rightarrow> string) \<Rightarrow> string \<Rightarrow> log_record \<Rightarrow> py_exc + string" where
  "format_record F now r =
     (let payload = log_payload now r
      in if \<exists>(key, value)\<in>set payload. value = None then Inl TypeError
         else Inr (dumps F (JObj (map (\<lambda>(key, value). (key, the value)) payload))))"

section \<open>Setting up\<close>

text \<open>\<open>getattr(logging, name)\<close> for a name in upper case: the levels, and two attributes that are none.\<close>

datatype logging_attribute = Level int | Text_Attribute | Dict_Attribute

definition logging_attribute :: "string \<Rightarrow> logging_attribute option" where
  "logging_attribute name =
     map_of [(''CRITICAL'', Level 50), (''FATAL'', Level 50), (''ERROR'', Level 40), (''WARNING'', Level 30),
             (''WARN'', Level 30), (''INFO'', Level 20), (''DEBUG'', Level 10), (''NOTSET'', Level 0),
             (''BASIC_FORMAT'', Text_Attribute), (''_STYLES'', Dict_Attribute)] name"

definition upper_char :: "char \<Rightarrow> char" where
  "upper_char c = (let n = of_char c :: nat in if 97 \<le> n \<and> n \<le> 122 then char_of (n - 32) else c)"

datatype log_handler = Json_Handler | Other_Handler string

text \<open>The root logger's handlers and level, the levels set on named loggers.\<close>

record logging_state =
  root_handlers :: "log_handler list"
  root_level :: int
  logger_levels :: "string \<rightharpoonup> int"

definition setup_logging :: "string \<Rightarrow> logging_state \<Rightarrow> py_exc option \<times> logging_state" where
  "setup_logging level st =
     (let st = st\<lparr>root_handlers := [Json_Handler]\<rparr>
      in case (case logging_attribute (map upper_char level) of None \<Rightarrow> Level 20 | Some a \<Rightarrow> a) of
           Text_Attribute \<Rightarrow> (Some ValueError, st)
         | Dict_Attribute \<Rightarrow> (Some TypeError, st)
         | Level n \<Rightarrow>
             (None, st\<lparr>root_level := n,
                       logger_levels := (logger_levels st)(''uvicorn.access'' \<mapsto> 30, ''sqlalchemy.engine'' \<mapsto> 30)\<rparr>))"

text \<open>The parents of a logger, by the dots of its name, itself first; the first level set on the way
  to the root decides (0 is not set), and the root's handlers write what passes.\<close>

definition ancestors :: "string \<Rightarrow> string list" where
  "ancestors name = (let parts = split_on (CHR ''.'') name in rev (map (\<lambda>n. join ''.'' (take n parts)) [1..<Suc (length parts)]))"

definition effective_level :: "logging_state \<Rightarrow> string \<Rightarrow> int" where
  "effective_level st name =
     (case filter (\<lambda>n. case logger_levels st n of None \<Rightarrow> False | Some l \<Rightarrow> l \<noteq> 0) (ancestors name) of
        [] \<Rightarrow> root_level st
      | n # _ \<Rightarrow> the (logger_levels st n))"

text \<open>What one call of a logger adds to standard output: nothing below its level; a record that
  cannot be written is dropped by the handler.\<close>

fun written :: "(rat \<Rightarrow> string) \<Rightarrow> string \<Rightarrow> log_record \<Rightarrow> log_handler \<Rightarrow> string list" where
  "written F now r Json_Handler = (case format_record F now r of Inl e \<Rightarrow> [] | Inr line \<Rightarrow> [line])"
| "written F now r (Other_Handler h) = []"

definition emit :: "(rat \<Rightarrow> string) \<Rightarrow> string \<Rightarrow> logging_state \<Rightarrow> int \<Rightarrow> log_record \<Rightarrow> string list" where
  "emit F now st levelno r =
     (if levelno < effective_level st (lr_name r) then []
      else concat (map (written F now r) (root_handlers st)))"

section \<open>Properties\<close>

lemma distinct_merge_extra: "distinct (map fst (merge_extra d p)) = distinct (map fst p)"
proof (induction d arbitrary: p)
  case (Cons x d)
  obtain k v where "x = (k, v)" by fastforce
  with Cons show ?case by (simp add: merge_extra_def)
qed (simp add: merge_extra_def)

text \<open>A key that is no standard attribute gets its last value, any other keeps what it had.\<close>

lemma map_of_merge_extra:
  "map_of (merge_extra d p) k =
     (if k \<in> set standard_attributes then map_of p k
      else case map_of (rev d) k of None \<Rightarrow> map_of p k | Some v \<Rightarrow> Some v)"
proof (induction d arbitrary: p)
  case (Cons x d)
  obtain a v where x: "x = (a, v)" by fastforce
  have step: "merge_extra (x # d) p = merge_extra d (if a \<notin> set standard_attributes then dict_put a v p else p)"
    by (simp add: merge_extra_def x)
  show ?case
    unfolding step unfolding Cons.IH unfolding x by (auto simp: map_add_def split: option.split)
qed (simp add: merge_extra_def)

lemma float_free_members: "float_free_members kvs \<longleftrightarrow> (\<forall>(k, v)\<in>set kvs. float_free v)"
  by (induction kvs) auto

lemma log_line:
  assumes "\<forall>(k, v)\<in>set (lr_dict r). k \<notin> set standard_attributes \<longrightarrow> (\<exists>j. v = Some j \<and> float_free j)"
  shows "\<exists>line payload. format_record F now r = Inr line \<and> printable line
    \<and> json_loads line = Some (JObj payload) \<and> distinct (map fst payload)
    \<and> (\<forall>k. map_of payload k =
        (if k = ''exc_info'' \<and> lr_exception r \<noteq> None then map_option JStr (lr_exception r)
         else case (if k \<in> set standard_attributes then None else map_of (rev (lr_dict r)) k) of
           Some v \<Rightarrow> v
         | None \<Rightarrow> map_of [(''timestamp'', JStr now), (''level'', JStr (lr_levelname r)),
                            (''logger'', JStr (lr_name r)), (''message'', JStr (lr_message r))] k))"
proof -
  let ?base = "[(''timestamp'', JStr now), (''level'', JStr (lr_levelname r)),
                (''logger'', JStr (lr_name r)), (''message'', JStr (lr_message r))]"
  let ?m = "merge_extra (lr_dict r) (map (\<lambda>(k, j). (k, Some j)) ?base)"
  let ?p = "log_payload now r"
  let ?payload = "map (\<lambda>(k, v). (k, the v)) ?p"
  have p: "?p = (case lr_exception r of None \<Rightarrow> ?m | Some trace \<Rightarrow> dict_put ''exc_info'' (Some (JStr trace)) ?m)"
    by (cases "lr_exception r") (simp_all add: log_payload_def Let_def)
  have base: "map_of (map (\<lambda>(k, j). (k, Some j)) ?base) k = map_option Some (map_of ?base k)" for k
    by (simp add: map_of_map)
  have "distinct (map fst ?base)" by simp
  then have dist: "distinct (map fst ?p)"
    unfolding p using distinct_merge_extra [of "lr_dict r" "map (\<lambda>(k, j). (k, Some j)) ?base"]
    by (simp split: option.split)
  have look: "map_of ?p k =
      (if k = ''exc_info'' \<and> lr_exception r \<noteq> None then map_option (\<lambda>x. Some (JStr x)) (lr_exception r)
       else case (if k \<in> set standard_attributes then None else map_of (rev (lr_dict r)) k) of
         Some v \<Rightarrow> Some v | None \<Rightarrow> map_option Some (map_of ?base k))" for k
    unfolding p by (simp add: map_of_merge_extra base split: option.split del: map_of.simps list.map)
  have vals: "\<exists>j. v = Some j \<and> float_free j" if "(k, v) \<in> set ?p" for k v
  proof -
    have kv: "map_of ?p k = Some v" using that dist by simp
    have base_free: "float_free j" if "map_of ?base k = Some j" for j
      using that by (auto split: if_splits)
    show ?thesis
    proof (cases "k = ''exc_info'' \<and> lr_exception r \<noteq> None")
      case True
      then show ?thesis using kv unfolding look by auto
    next
      case no_exc: False
      show ?thesis
      proof (cases "if k \<in> set standard_attributes then None else map_of (rev (lr_dict r)) k")
        case None
        then show ?thesis using kv no_exc base_free unfolding look by (auto simp del: map_of.simps)
      next
        case (Some w)
        then have "k \<notin> set standard_attributes" "(k, w) \<in> set (lr_dict r)"
          by (auto split: if_splits dest: map_of_SomeD)
        moreover have "v = w" using kv unfolding look if_not_P [OF no_exc] Some by simp
        ultimately show ?thesis using assms by blast
      qed
    qed
  qed
  have free: "float_free (JObj ?payload)" using vals by (fastforce simp: float_free_members)
  have line: "format_record F now r = Inr (dumps F (JObj ?payload))"
    using vals by (fastforce simp: format_record_def Let_def)
  have keys: "map fst ?payload = map fst ?p" by (simp add: case_prod_unfold comp_def)
  have members: "map_of ?payload k =
      (if k = ''exc_info'' \<and> lr_exception r \<noteq> None then map_option JStr (lr_exception r)
       else case (if k \<in> set standard_attributes then None else map_of (rev (lr_dict r)) k) of
         Some v \<Rightarrow> v | None \<Rightarrow> map_of ?base k)" for k
  proof -
    let ?extra = "if k \<in> set standard_attributes then None else map_of (rev (lr_dict r)) k"
    have the: "map_of ?payload k = map_option the (map_of ?p k)" by (simp add: map_of_map)
    show ?thesis
    proof (cases "k = ''exc_info'' \<and> lr_exception r \<noteq> None")
      case True
      then show ?thesis unfolding the look by auto
    next
      case no_exc: False
      show ?thesis
      proof (cases ?extra)
        case None
        show ?thesis unfolding the look if_not_P [OF no_exc] None option.case
          by (simp add: option.map_comp comp_def option.map_ident del: map_of.simps)
      next
        case (Some w)
        then have "k \<notin> set standard_attributes" "(k, w) \<in> set (lr_dict r)"
          by (auto split: if_splits dest: map_of_SomeD)
        then obtain j where "w = Some j" using assms by blast
        then show ?thesis unfolding the look if_not_P [OF no_exc] Some option.case by simp
      qed
    qed
  qed
  show ?thesis
    using line dumps_printable(1) [OF free, of F] json_loads_dumps [OF free, of F] dist members
    unfolding keys [symmetric] by blast
qed

text \<open>A float prints as Python writes it, and for a NaN that is \<open>NaN\<close>, which is no JSON: such a line is
  not one that a reader of JSON accepts.\<close>

lemma nan_line_unreadable:
  "map_option json_loads (Some (dumps (\<lambda>x. ''NaN'') (JObj [(''ratio'', JFloat 0)]))) = Some None"
  by code_simp

text \<open>C36. A log line is one line of printable ASCII, whatever characters the message, the exception and
  the extra fields hold (in UTF-8, so characters beyond ASCII are code points, written as one or
  two escapes), if the extra fields are JSON values without floats; and it reads back as a JSON
  object with one member for each key: the exception if there is one, the extra fields under the
  names they were given, unless these are attributes of every record, and time, level, logger and
  message, unless an extra field has taken their name.\<close>

theorem log_line_reads_back:
  assumes "\<forall>(k, v)\<in>set (lr_dict r). k \<notin> set standard_attributes \<longrightarrow> (\<exists>j. v = Some j \<and> float_free j)"
  shows "\<exists>line payload. format_record F now r = Inr line \<and> printable line
    \<and> json_loads line = Some (JObj payload) \<and> distinct (map fst payload)
    \<and> (\<forall>k. map_of payload k =
        (if k = ''exc_info'' \<and> lr_exception r \<noteq> None then map_option JStr (lr_exception r)
         else case (if k \<in> set standard_attributes then None else map_of (rev (lr_dict r)) k) of
           Some v \<Rightarrow> v
         | None \<Rightarrow> map_of [(''timestamp'', JStr now), (''level'', JStr (lr_levelname r)),
                            (''logger'', JStr (lr_name r)), (''message'', JStr (lr_message r))] k))"
  by (rule log_line [OF assms])

theorem log_line_reads_back_witness:
  "\<exists>line payload.
     format_record (\<lambda>x. []) ''2026-01-01T00:00:00+00:00''
       \<lparr>lr_levelname = ''INFO'', lr_name = ''app.main'', lr_message = [CHR 0x0A, CHR 0x22, CHR 0xE2, CHR 0x86, CHR 0x92, CHR 0xF0, CHR 0x9F, CHR 0x9A, CHR 0xA6, CHR 0xFF],
        lr_exception = None, lr_dict = [(''msg'', None), (''event'', Some (JStr ''ready''))]\<rparr> = Inr line
    \<and> printable line \<and> json_loads line = Some (JObj payload)
    \<and> map_of payload ''event'' = Some (JStr ''ready'')
    \<and> map_of payload ''message'' = Some (JStr [CHR 0x0A, CHR 0x22, CHR 0xE2, CHR 0x86, CHR 0x92, CHR 0xF0, CHR 0x9F, CHR 0x9A, CHR 0xA6, CHR 0xFF])"
proof -
  let ?r = "\<lparr>lr_levelname = ''INFO'', lr_name = ''app.main'', lr_message = [CHR 0x0A, CHR 0x22, CHR 0xE2, CHR 0x86, CHR 0x92, CHR 0xF0, CHR 0x9F, CHR 0x9A, CHR 0xA6, CHR 0xFF],
     lr_exception = None, lr_dict = [(''msg'', None), (''event'', Some (JStr ''ready''))]\<rparr>"
  have "\<forall>(k, v)\<in>set (lr_dict ?r). k \<notin> set standard_attributes \<longrightarrow> (\<exists>j. v = Some j \<and> float_free j)"
    by (simp add: standard_attributes_def)
  from log_line_reads_back [OF this, of "\<lambda>x. []" "''2026-01-01T00:00:00+00:00''"]
  obtain line payload where l: "format_record (\<lambda>x. []) ''2026-01-01T00:00:00+00:00'' ?r = Inr line"
    "printable line" "json_loads line = Some (JObj payload)"
    and m: "\<And>k. map_of payload k =
        (if k = ''exc_info'' \<and> lr_exception ?r \<noteq> None then map_option JStr (lr_exception ?r)
         else case (if k \<in> set standard_attributes then None else map_of (rev (lr_dict ?r)) k) of
           Some v \<Rightarrow> v
         | None \<Rightarrow> map_of [(''timestamp'', JStr ''2026-01-01T00:00:00+00:00''), (''level'', JStr (lr_levelname ?r)),
                            (''logger'', JStr (lr_name ?r)), (''message'', JStr (lr_message ?r))] k)"
    by blast
  have "map_of payload ''event'' = Some (JStr ''ready'')"
    "map_of payload ''message'' = Some (JStr [CHR 0x0A, CHR 0x22, CHR 0xE2, CHR 0x86, CHR 0x92, CHR 0xF0, CHR 0x9F, CHR 0x9A, CHR 0xA6, CHR 0xFF])"
    unfolding m by (simp_all add: standard_attributes_def)
  with l show ?thesis by blast
qed

text \<open>After \<open>setup_logging\<close>, every record at or above the root's level is written exactly once, as JSON,
  whatever handlers were there before and however often it is called; the two noisy loggers and
  those below them write warnings and errors only. A level name that is none means \<open>INFO\<close>.\<close>

lemma setup_logging_emits:
  assumes "setup_logging level st = (None, st')" "logger_levels st = Map.empty"
    and "format_record F now r = Inr line"
  shows "emit F now st' levelno r =
      (if levelno < (if ''uvicorn.access'' \<in> set (ancestors (lr_name r))
                        \<or> ''sqlalchemy.engine'' \<in> set (ancestors (lr_name r))
                     then 30 else root_level st')
       then [] else [line])
    \<and> (logging_attribute (map upper_char level) = None \<longrightarrow> root_level st' = 20)"
proof -
  obtain n where n: "st' = st\<lparr>root_handlers := [Json_Handler], root_level := n,
      logger_levels := [''uvicorn.access'' \<mapsto> 30, ''sqlalchemy.engine'' \<mapsto> 30]\<rparr>"
    and info: "logging_attribute (map upper_char level) = None \<Longrightarrow> n = 20"
    using assms(1,2) by (auto simp: setup_logging_def Let_def split: logging_attribute.splits option.splits)
  let ?quiet = "\<lambda>a. a = ''uvicorn.access'' \<or> a = ''sqlalchemy.engine''"
  have set_levels: "(case logger_levels st' a of None \<Rightarrow> False | Some l \<Rightarrow> l \<noteq> 0) \<longleftrightarrow> ?quiet a"
    "?quiet a \<Longrightarrow> logger_levels st' a = Some 30" for a
    by (auto simp: n)
  have "effective_level st' name =
      (if ''uvicorn.access'' \<in> set (ancestors name) \<or> ''sqlalchemy.engine'' \<in> set (ancestors name)
       then 30 else root_level st')" for name
  proof (cases "filter ?quiet (ancestors name)")
    case Nil
    then show ?thesis by (auto simp: effective_level_def set_levels(1) filter_empty_conv)
  next
    case (Cons a as)
    then have "a \<in> set (filter ?quiet (ancestors name))" by simp
    then have "?quiet a" "a \<in> set (ancestors name)" by auto
    then show ?thesis using Cons set_levels(2) [of a] by (auto simp: effective_level_def set_levels(1))
  qed
  then show ?thesis using assms(3) info by (simp add: emit_def n)
qed

lemma setup_logging_emits_witness:
  "let st = snd (setup_logging ''warning'' \<lparr>root_handlers = [], root_level = 30, logger_levels = Map.empty\<rparr>);
       r = \<lparr>lr_levelname = ''ERROR'', lr_name = ''app.main'', lr_message = ''x'', lr_exception = None, lr_dict = []\<rparr>
   in length (emit (\<lambda>x. []) ''t'' st 40 r) = 1 \<and> emit (\<lambda>x. []) ''t'' st 20 r = []"
  by code_simp

end
