(* ===== verification/Process.thy ===== *)
theory Process
  imports App_Properties Schema Log_Format Diagnostics
begin

text \<open>
  One gateway process from start to end: the lifespan of \<open>app/main.py\<close> with what it logs, the OpenAPI
  document it serves, and the two command-line scripts, \<open>scripts/init_db.py\<close> and
  \<open>scripts/generate_token.py\<close>. The ASGI server runs the startup before the first request and the
  shutdown after the last; it exits when the startup raises.
\<close>

section \<open>Lifespan\<close>

datatype connection = Open | Closed | Close_Failed

datatype phase = Loaded | Start_Failed | Serving | Stopped | Stop_Failed

text \<open>\<open>app.state.http_client\<close>, unset until the startup, the Redis client made at import, the
  database, the logging configuration, the lines that the handler of the root logger has written to
  standard output, and how many requests the process has served.\<close>

record 's process =
  pr_phase :: phase
  pr_http_client :: "connection option"
  pr_redis_client :: connection
  pr_database :: 's
  pr_logging :: logging_state
  pr_stdout :: "string list"
  pr_served :: nat

definition env_name :: "app_env \<Rightarrow> string" where
  "env_name e = (case e of Development \<Rightarrow> ''development'' | Production \<Rightarrow> ''production'' | Test \<Rightarrow> ''test'')"

text \<open>\<open>logger.info(message, extra=extra)\<close> of the module's logger.\<close>

definition info_record :: "string \<Rightarrow> (string \<times> string) list \<Rightarrow> log_record" where
  "info_record message extra =
     \<lparr>lr_levelname = ''INFO'', lr_name = ''app.main'', lr_message = message, lr_exception = None,
      lr_dict = map (\<lambda>(k, v). (k, Some (JStr v))) extra\<rparr>"

definition log_info :: "string \<Rightarrow> string \<Rightarrow> (string \<times> string) list \<Rightarrow> 's process \<Rightarrow> 's process" where
  "log_info now message extra p =
     p\<lparr>pr_stdout := pr_stdout p @ emit (\<lambda>x. []) now (pr_logging p) 20 (info_record message extra)\<rparr>"


text \<open>\<open>new_client\<close> is what \<open>httpx.AsyncClient\<close> raises (for proxy or certificate settings of the environment
  that it cannot use), after \<open>init_db\<close> has committed.\<close>

definition startup :: "unicode \<Rightarrow> settings \<Rightarrow> 's ddl \<Rightarrow> py_exc option \<Rightarrow> string \<Rightarrow> 's process \<Rightarrow> 's process" where
  "startup U S D new_client now p =
     (let p = log_info now ''Starting gateway'' [(''event'', ''startup'')] p;
          (ok, database) = init_db U S D (pr_database p);
          p = p\<lparr>pr_database := database\<rparr>
      in if \<not> ok then p\<lparr>pr_phase := Start_Failed\<rparr>
         else case new_client of
           Some e \<Rightarrow> p\<lparr>pr_phase := Start_Failed\<rparr>
         | None \<Rightarrow>
             let p = p\<lparr>pr_http_client := Some Open\<rparr>;
                 p = log_info now ''Gateway ready'' [(''event'', ''ready''), (''env'', env_name (app_env S))] p
             in p\<lparr>pr_phase := Serving\<rparr>)"

text \<open>\<open>http_aclose\<close> and \<open>redis_aclose\<close> are what the two \<open>aclose\<close> raise; what comes after is not run.\<close>

definition shutdown :: "py_exc option \<Rightarrow> py_exc option \<Rightarrow> string \<Rightarrow> 's process \<Rightarrow> 's process" where
  "shutdown http_aclose redis_aclose now p =
     (let p = log_info now ''Shutting down'' [(''event'', ''shutdown'')] p
      in case http_aclose of
        Some e \<Rightarrow> p\<lparr>pr_http_client := map_option (\<lambda>_. Close_Failed) (pr_http_client p), pr_phase := Stop_Failed\<rparr>
      | None \<Rightarrow>
          let p = p\<lparr>pr_http_client := map_option (\<lambda>_. Closed) (pr_http_client p)\<rparr>
          in case redis_aclose of
            Some e \<Rightarrow> p\<lparr>pr_redis_client := Close_Failed, pr_phase := Stop_Failed\<rparr>
          | None \<Rightarrow>
              let p = p\<lparr>pr_redis_client := Closed\<rparr>;
                  p = log_info now ''Shutdown complete'' [(''event'', ''shutdown_complete'')] p
              in p\<lparr>pr_phase := Stopped\<rparr>)"

section \<open>What is logged while serving\<close>

text \<open>One call of a logger: the time, the level and the record. The gateway's own calls in the code that
  serves requests have no extra fields: they are the lines of theory \<open>Diagnostics\<close>, each with the
  name of its module. Libraries log through the root handler too (\<open>httpx\<close> a line for every upstream
  request); of their records nothing is known but that their extra fields have no floats.\<close>

definition level_number :: "string \<Rightarrow> int" where
  "level_number levelname = (case logging_attribute levelname of Some (Level n) \<Rightarrow> n | _ \<Rightarrow> 0)"

definition own_record :: "string \<Rightarrow> log_line \<Rightarrow> log_record" where
  "own_record logger line =
     \<lparr>lr_levelname = fst line, lr_name = logger, lr_message = snd line, lr_exception = None, lr_dict = []\<rparr>"


definition no_floats :: "log_record \<Rightarrow> bool" where
  "no_floats r \<longleftrightarrow>
     (\<forall>(k, v)\<in>set (lr_dict r). k \<notin> set standard_attributes \<longrightarrow> (case v of None \<Rightarrow> True | Some j \<Rightarrow> float_free j))"

definition log_calls :: "(string \<times> int \<times> log_record) list \<Rightarrow> 's process \<Rightarrow> 's process" where
  "log_calls calls p =
     p\<lparr>pr_stdout := pr_stdout p @ concat (map (\<lambda>(now, n, r). emit (\<lambda>x. []) now (pr_logging p) n r) calls)\<rparr>"

text \<open>What the ASGI server does with the application. A request may change rows, never the
  catalogue, and so may a background task; both log.\<close>

inductive server_step :: "unicode \<Rightarrow> settings \<Rightarrow> 's ddl \<Rightarrow> 's process \<Rightarrow> 's process \<Rightarrow> bool"
  for U :: unicode and S :: settings and D :: "'s ddl" where
  start: "pr_phase p = Loaded \<Longrightarrow> server_step U S D p (startup U S D new_client now p)"
| serve: "pr_phase p = Serving \<Longrightarrow> catalogue_of D s = catalogue_of D (pr_database p) \<Longrightarrow>
    \<forall>(now, n, r)\<in>set calls. no_floats r \<Longrightarrow>
    server_step U S D p (log_calls calls (p\<lparr>pr_database := s, pr_served := Suc (pr_served p)\<rparr>))"
| background: "pr_phase p = Serving \<Longrightarrow> catalogue_of D s = catalogue_of D (pr_database p) \<Longrightarrow>
    \<forall>(now, n, r)\<in>set calls. no_floats r \<Longrightarrow>
    server_step U S D p (log_calls calls (p\<lparr>pr_database := s\<rparr>))"
| stop: "pr_phase p = Serving \<Longrightarrow> server_step U S D p (shutdown http_aclose redis_aclose now p)"

inductive runs_to :: "unicode \<Rightarrow> settings \<Rightarrow> 's ddl \<Rightarrow> 's process \<Rightarrow> 's process \<Rightarrow> bool"
  for U :: unicode and S :: settings and D :: "'s ddl" where
  here: "runs_to U S D p p"
| further: "runs_to U S D p q \<Longrightarrow> server_step U S D q r \<Longrightarrow> runs_to U S D p r"

inductive_cases server_stepE: "server_step U S D p q"

section \<open>The OpenAPI document\<close>

text \<open>\<open>get_openapi\<close> is FastAPI's; \<open>app.openapi_schema\<close> is never set, so the document is built for
  every request. \<open>None\<close> is the \<open>KeyError\<close> of a document without components.\<close>

definition custom_openapi :: "(string \<times> json) list option \<Rightarrow> (string \<times> json) list \<Rightarrow> (string \<times> json) list option" where
  "custom_openapi openapi_schema generated =
     (case openapi_schema of
        Some (entry # schema) \<Rightarrow> Some (entry # schema)
      | _ \<Rightarrow>
          (case map_of generated ''components'' of
             Some (JObj components) \<Rightarrow>
               Some (dict_put ''security'' (JArr [JObj [(''bearerAuth'', JArr [])]])
                 (dict_put ''components'' (JObj (dict_put ''securitySchemes''
                    (JObj [(''bearerAuth'', JObj [(''type'', JStr ''http''), (''scheme'', JStr ''bearer''),
                                                  (''bearerFormat'', JStr ''JWT'')])]) components)) generated))
           | _ \<Rightarrow> None))"

section \<open>Scripts\<close>

definition init_db_main :: "unicode \<Rightarrow> settings \<Rightarrow> 's ddl \<Rightarrow> 's \<Rightarrow> int \<times> 's" where
  "init_db_main U S D s = (let (ok, s') = init_db U S D s in (if ok then 0 else 1, s'))"

text \<open>\<open>argparse\<close> with two positional arguments, the second optional with choices, and the option \<open>-h\<close>. The
  arguments are taken from left to right: the option prints the help and exits with 0 when it is
  reached, a tier that is none exits with 2 when it is reached; further positional arguments and
  unknown options are collected, and an error at the end.\<close>

definition VALID_TIERS :: "string list" where
  "VALID_TIERS = [''free'', ''pro'', ''enterprise'']"

datatype arguments = Parsed string string | Usage_Error | Help

definition help_option :: "string \<Rightarrow> bool" where
  "help_option a \<longleftrightarrow> a = ''-h'' \<or> a = ''--help''"

fun parse_from :: "string list \<Rightarrow> bool \<Rightarrow> string list \<Rightarrow> arguments" where
  "parse_from found extras [] =
     (case found of
        [user_id] \<Rightarrow> if extras then Usage_Error else Parsed user_id ''free''
      | [user_id, tier] \<Rightarrow> if extras then Usage_Error else Parsed user_id tier
      | _ \<Rightarrow> Usage_Error)"
| "parse_from found extras (a # argv) =
     (if help_option a then Help
      else if startswith a ''-'' then parse_from found True argv
      else if found = [] then parse_from [a] extras argv
      else if length found = 1 then
        (if a \<in> set VALID_TIERS then parse_from (found @ [a]) extras argv else Usage_Error)
      else parse_from found True argv)"

definition parse_args :: "string list \<Rightarrow> arguments" where
  "parse_args argv = parse_from [] False argv"

text \<open>The arguments for which this is what \<open>argparse\<close> does. Outside are the separator \<open>--\<close>, a lone dash and
  negative numbers (which are positional), arguments with a blank or \<open>=\<close> after a dash, abbreviations
  of \<open>--help\<close> and options glued to \<open>-h\<close>, and an unknown option together with \<open>-h\<close>, where versions of
  \<open>argparse\<close> differ.\<close>

definition unknown_option :: "string \<Rightarrow> bool" where
  "unknown_option a \<longleftrightarrow>
     (case a of
        c # d # r \<Rightarrow>
          c = CHR ''-'' \<and> CHR '' '' \<notin> set r \<and> CHR ''='' \<notin> set (d # r)
        \<and> (if d = CHR ''-'' then r \<noteq> [] \<and> hd r \<noteq> CHR ''h'' else d \<notin> {CHR ''h'', CHR ''.'', CHR '' ''} \<and> \<not> is_digit d)
      | _ \<Rightarrow> False)"

definition plain_arguments :: "string list \<Rightarrow> bool" where
  "plain_arguments argv \<longleftrightarrow>
     (\<forall>a\<in>set argv. startswith a ''-'' \<longrightarrow> help_option a \<or> unknown_option a)
   \<and> \<not> (list_ex help_option argv \<and> list_ex unknown_option argv)"

text \<open>Exit status and standard output; the usage and the error go to standard error. The text of the
  help is \<open>argparse\<close>'s.\<close>

definition generate_token_main :: "string \<Rightarrow> settings \<Rightarrow> jose \<Rightarrow> int \<Rightarrow> string list \<Rightarrow> int \<times> string" where
  "generate_token_main help_text S J now argv =
     (case parse_args argv of
        Usage_Error \<Rightarrow> (2, [])
      | Help \<Rightarrow> (0, help_text)
      | Parsed user_id tier \<Rightarrow>
          (case create_access_token S J now user_id tier None of
             Inl e \<Rightarrow> (1, [])
           | Inr token \<Rightarrow> (0, token @ [CHR 0x0A])))"

section \<open>The process invariant\<close>













lemma log_info_fields [simp]:
  "pr_phase (log_info now m x p) = pr_phase p" "pr_http_client (log_info now m x p) = pr_http_client p"
  "pr_redis_client (log_info now m x p) = pr_redis_client p" "pr_database (log_info now m x p) = pr_database p"
  "pr_logging (log_info now m x p) = pr_logging p" "pr_served (log_info now m x p) = pr_served p"
  by (simp_all add: log_info_def)

lemma log_calls_fields [simp]:
  "pr_phase (log_calls calls p) = pr_phase p" "pr_http_client (log_calls calls p) = pr_http_client p"
  "pr_redis_client (log_calls calls p) = pr_redis_client p" "pr_database (log_calls calls p) = pr_database p"
  "pr_logging (log_calls calls p) = pr_logging p" "pr_served (log_calls calls p) = pr_served p"
  by (simp_all add: log_calls_def)






text \<open>A line of the gateway's own is printed once if the level lets it through, and its message is read
  back from it.\<close>

lemma own_line_printed:
  assumes "root_handlers l = [Json_Handler]"
  shows "if level_number (fst line) < effective_level l logger
    then emit (\<lambda>x. []) now l (level_number (fst line)) (own_record logger line) = []
    else \<exists>printed payload. emit (\<lambda>x. []) now l (level_number (fst line)) (own_record logger line) = [printed]
      \<and> json_loads printed = Some (JObj payload)
      \<and> map_of payload ''message'' = Some (JStr (snd line)) \<and> map_of payload ''level'' = Some (JStr (fst line))
      \<and> map_of payload ''logger'' = Some (JStr logger)"
proof -
  let ?r = "own_record logger line"
  have fields: "lr_levelname ?r = fst line" "lr_name ?r = logger" "lr_message ?r = snd line" "lr_exception ?r = None"
    "lr_dict ?r = []" by (simp_all add: own_record_def)
  have "\<forall>(k, v)\<in>set (lr_dict ?r). k \<notin> set standard_attributes \<longrightarrow> (\<exists>j. v = Some j \<and> float_free j)"
    by (simp add: fields)
  from log_line [OF this, of "\<lambda>x. []" now]
  obtain printed payload where f: "format_record (\<lambda>x. []) now ?r = Inr printed" "json_loads printed = Some (JObj payload)"
    and m: "\<And>k. map_of payload k = map_of [(''timestamp'', JStr now), (''level'', JStr (fst line)),
        (''logger'', JStr logger), (''message'', JStr (snd line))] k"
    unfolding fields by auto
  have "map_of payload ''message'' = Some (JStr (snd line))" "map_of payload ''level'' = Some (JStr (fst line))"
    "map_of payload ''logger'' = Some (JStr logger)" unfolding m by simp_all
  with f show ?thesis using assms by (auto simp: emit_def fields)
qed




section \<open>Properties of the scripts and the document\<close>

lemma custom_openapi_secured:
  assumes "map_of generated ''components'' = Some (JObj components)"
  shows "\<exists>schema. custom_openapi None generated = Some schema
    \<and> map_of schema ''security'' = Some (JArr [JObj [(''bearerAuth'', JArr [])]])
    \<and> (\<forall>k. k \<noteq> ''security'' \<and> k \<noteq> ''components'' \<longrightarrow> map_of schema k = map_of generated k)
    \<and> (\<exists>cs. map_of schema ''components'' = Some (JObj cs)
         \<and> map_of cs ''securitySchemes'' \<noteq> None
         \<and> (\<forall>k. k \<noteq> ''securitySchemes'' \<longrightarrow> map_of cs k = map_of components k))"
  using assms by (simp add: custom_openapi_def)

lemma parse_from_parsed:
  "parse_from found extras argv = Parsed user_id tier \<Longrightarrow>
     \<not> extras \<and> (\<forall>a\<in>set argv. \<not> startswith a ''-'')
   \<and> (found @ argv = [user_id] \<and> tier = ''free''
      \<or> found @ argv = [user_id, tier] \<and> (length found < 2 \<longrightarrow> tier \<in> set VALID_TIERS))"
proof (induction found extras argv rule: parse_from.induct)
  case (1 found extras)
  then show ?case by (auto split: list.splits if_splits)
next
  case step: (2 found extras a argv)
  have no_help: "\<not> help_option a" and no_dash: "\<not> startswith a ''-''"
    using step.prems step.IH(1) by (auto split: if_splits)
  consider "found = []" | x where "found = [x]" | x y xs where "found = x # y # xs"
    by (metis neq_Nil_conv)
  then show ?case
  proof cases
    case 1
    have "parse_from [a] extras argv = Parsed user_id tier" using step.prems no_help no_dash by (simp add: 1)
    from step.IH(2) [OF no_help no_dash 1 this] show ?thesis using no_dash by (auto simp: 1)
  next
    case 2
    have "a \<in> set VALID_TIERS" "parse_from (found @ [a]) extras argv = Parsed user_id tier"
      using step.prems no_help no_dash by (simp_all add: 2 split: if_splits)
    with step.IH(3) [OF no_help no_dash] show ?thesis using no_dash by (auto simp: 2)
  next
    case 3
    have "parse_from found True argv = Parsed user_id tier" using step.prems no_help no_dash by (simp add: 3)
    with step.IH(4) [OF no_help no_dash] show ?thesis by (simp add: 3)
  qed
qed

lemma help_dashed: "help_option a \<Longrightarrow> startswith a ''-''"
  by (auto simp: help_option_def startswith_def)

lemma parse_args_parsed:
  "parse_args argv = Parsed user_id tier \<longleftrightarrow>
     (\<forall>a\<in>set argv. \<not> startswith a ''-'')
   \<and> (argv = [user_id] \<and> tier = ''free'' \<or> argv = [user_id, tier] \<and> tier \<in> set VALID_TIERS)"
proof
  assume "parse_args argv = Parsed user_id tier"
  then show "(\<forall>a\<in>set argv. \<not> startswith a ''-'')
     \<and> (argv = [user_id] \<and> tier = ''free'' \<or> argv = [user_id, tier] \<and> tier \<in> set VALID_TIERS)"
    unfolding parse_args_def by (auto dest: parse_from_parsed)
next
  assume "(\<forall>a\<in>set argv. \<not> startswith a ''-'')
     \<and> (argv = [user_id] \<and> tier = ''free'' \<or> argv = [user_id, tier] \<and> tier \<in> set VALID_TIERS)"
  then show "parse_args argv = Parsed user_id tier"
    using help_dashed by (auto simp: parse_args_def)
qed

lemma parse_from_help: "parse_from found extras argv = Help \<Longrightarrow> \<exists>a\<in>set argv. help_option a"
  by (induction found extras argv rule: parse_from.induct) (auto split: list.splits if_splits)

text \<open>C18. A token from the command line is a login: for arguments that \<open>argparse\<close> takes as described (see
  \<open>plain_arguments\<close>), the script mints a token exactly for a user id and a tier that is one of the
  three (or none, which is \<open>free\<close>); it then exits with 0 and prints one line, a token that the
  gateway, given it as a bearer token, accepts as that user and tier for the configured lifetime
  and refuses as expired afterwards. Otherwise it prints the help and exits with 0, if the help
  option is among the arguments, or exits with 2 and prints nothing on standard output.\<close>

theorem command_line_token:
  assumes "jose_laws J" "jwt_algorithm S = ''HS256''" "0 \<le> jwt_expire_minutes S"
    and "sane_instant now" "sane_instant (now + jwt_expire_minutes S * 60000000)"
    and "plain_arguments argv"
  shows "case parse_args argv of
      Usage_Error \<Rightarrow> generate_token_main help_text S J now argv = (2, [])
    | Help \<Rightarrow> (\<exists>a\<in>set argv. a = ''-h'' \<or> a = ''--help'') \<and> generate_token_main help_text S J now argv = (0, help_text)
    | Parsed user_id tier \<Rightarrow>
        (\<forall>a\<in>set argv. \<not> startswith a ''-'')
      \<and> (argv = [user_id] \<and> tier = ''free'' \<or> argv = [user_id, tier] \<and> tier \<in> {''free'', ''pro'', ''enterprise''})
      \<and> (\<exists>token. generate_token_main help_text S J now argv = (0, token @ [CHR 0x0A])
           \<and> (\<forall>env rq. ev_settings env = S \<and> ev_jose env = J \<and> strip token = token
                 \<and> get_header rq ''Authorization'' = Some (''Bearer '' @ token) \<longrightarrow>
               authenticate (env :: 'r env) rq =
                 (if now div 10 ^ 6 + jwt_expire_minutes S * 60 < ev_decode_at env
                  then Inl (new_error TokenExpiredError ''Token has expired.'' None)
                  else Inr \<lparr>cl_sub = Some user_id, cl_tier = Some tier, cl_iat = Some (now div 10 ^ 6),
                            cl_exp = Some (now div 10 ^ 6 + jwt_expire_minutes S * 60)\<rparr>)))"
proof (cases "parse_args argv")
  case Usage_Error
  then show ?thesis by (simp add: generate_token_main_def)
next
  case Help
  then have "\<exists>a\<in>set argv. help_option a" by (auto simp: parse_args_def dest: parse_from_help)
  then show ?thesis using Help by (auto simp: generate_token_main_def help_option_def)
next
  case parsed: (Parsed user_id tier)
  let ?d = "jwt_expire_minutes S * 60000000"
  let ?c = "\<lparr>cl_sub = Some user_id, cl_tier = Some tier, cl_iat = Some (now div 10 ^ 6),
             cl_exp = Some ((now + ?d) div 10 ^ 6)\<rparr>"
  have arguments: "\<forall>a\<in>set argv. \<not> startswith a ''-''"
    "argv = [user_id] \<and> tier = ''free'' \<or> argv = [user_id, tier] \<and> tier \<in> {''free'', ''pro'', ''enterprise''}"
    using parsed unfolding parse_args_parsed by (simp_all add: VALID_TIERS_def)
  have exp_at: "(now + ?d) div 10 ^ 6 = now div 10 ^ 6 + jwt_expire_minutes S * 60"
  proof -
    have "now + ?d = now + jwt_expire_minutes S * 60 * 10 ^ 6" by simp
    also have "\<dots> div 10 ^ 6 = now div 10 ^ 6 + jwt_expire_minutes S * 60" by (subst div_mult_self1) simp_all
    finally show ?thesis .
  qed
  have "?d < 2 ^ 33 * 10 ^ 6" using assms(4,5) by (simp add: sane_instant_def)
  then have delta: "timedelta_minutes (jwt_expire_minutes S) = Inr ?d"
    using assms(3) by (simp add: timedelta_minutes_def)
  obtain token where token: "jwt_encode J ?c (jwt_secret S) (jwt_algorithm S) = Some token"
    using assms(1,2) unfolding jose_laws_def by metis
  have "generate_token_main help_text S J now argv = (0, token @ [CHR 0x0A])"
    using create_access_token_sane [of None ?d S now J user_id tier] delta assms(4,5) token
    by (simp add: generate_token_main_def parsed)
  moreover have "authenticate (env :: 'r env) rq =
      (if (now + ?d) div 10 ^ 6 < ev_decode_at env
       then Inl (new_error TokenExpiredError ''Token has expired.'' None) else Inr ?c)"
    if "ev_settings env = S" "ev_jose env = J" "strip token = token"
      "get_header rq ''Authorization'' = Some (''Bearer '' @ token)" for env :: "'r env" and rq
  proof -
    have bearer: "startswith (''Bearer '' @ token) ''Bearer ''" "removeprefix (''Bearer '' @ token) ''Bearer '' = token"
      by (rule startswith_append, rule removeprefix_append)
    have "decode_access_token S J (ev_decode_at env) token =
        (if (now + ?d) div 10 ^ 6 < ev_decode_at env
         then Inl (new_error TokenExpiredError ''Token has expired.'' None) else Inr ?c)"
      by (rule decode_minted [OF assms(1) token]) simp_all
    then show ?thesis
      by (simp only: authenticate_def that Let_def option.case bearer not_True_eq_False if_False)
  qed
  ultimately show ?thesis
    unfolding parsed arguments.case exp_at using arguments by blast
qed

theorem command_line_token_witness:
  "\<exists>token. generate_token_main ''usage'' test_settings demo_jose 1700000000123456 [''alice'', ''pro''] = (0, token @ [CHR 0x0A])
    \<and> generate_token_main ''usage'' test_settings demo_jose 1700000000123456 [''alice'', ''gold''] = (2, [])
    \<and> generate_token_main ''usage'' test_settings demo_jose 1700000000123456 [''alice'', ''--quiet''] = (2, [])
    \<and> generate_token_main ''usage'' test_settings demo_jose 1700000000123456 [''-h''] = (0, ''usage'')"
proof -
  have "sane_instant 1700000000123456" "sane_instant (1700000000123456 + jwt_expire_minutes test_settings * 60000000)"
    by (simp_all add: sane_instant_def test_settings_fields)
  note main = command_line_token [where 'r = demo_redis, OF demo_jose_laws _ _ this]
  have "parse_args [''alice'', ''pro''] = Parsed ''alice'' ''pro''" "parse_args [''alice'', ''gold''] = Usage_Error"
    "parse_args [''alice'', ''--quiet''] = Usage_Error" "parse_args [''-h''] = Help" by code_simp+
  moreover have "plain_arguments [''alice'', ''pro'']" "plain_arguments [''alice'', ''gold'']"
    "plain_arguments [''alice'', ''--quiet'']" "plain_arguments [''-h'']" by code_simp+
  ultimately show ?thesis
    using main [of "[''alice'', ''pro'']" "''usage''"] main [of "[''alice'', ''gold'']" "''usage''"]
      main [of "[''alice'', ''--quiet'']" "''usage''"] main [of "[''-h'']" "''usage''"]
    unfolding test_settings_fields(4,5) by (simp only: arguments.case) fastforce
qed

end
