(* ===== verification/Unit_Tests.thy ===== *)
theory Unit_Tests
  imports Token_Bucket Security
begin

text \<open>
  The repository's own unit tests, \<open>tests/test_rate_limit.py\<close>, \<open>tests/test_security.py\<close> and the
  algorithm part of \<open>tests/test_enterprise_throughput.py\<close>, over the models of the code they test. A
  test is the conjunction of its assertions, false when the code under test raises; the lemmas
  show that they pass. Float literals are the floats they denote. The test of a tampered token needs
  the compact form of a JWT, a law of its own (\<open>jws_laws\<close>).
\<close>

section \<open>Assertions\<close>

definition asserts :: "'e + 'a \<Rightarrow> ('a \<Rightarrow> bool) \<Rightarrow> bool" where
  "asserts out checks = (case out of Inl e \<Rightarrow> False | Inr x \<Rightarrow> checks x)"

lemma asserts_simps [simp]: "asserts (Inl e) checks = False" "asserts (Inr x) checks = checks x"
  by (simp_all add: asserts_def)

text \<open>\<open>with pytest.raises(cls)\<close>.\<close>

definition raises :: "error_class \<Rightarrow> gateway_error + 'a \<Rightarrow> bool" where
  "raises cls out = (case out of Inl e \<Rightarrow> isinstance (exc_class e) cls | Inr x \<Rightarrow> False)"

text \<open>\<open>pytest.approx(expected, rel=rel)\<close>, whose absolute tolerance defaults to \<open>1e-12\<close>.\<close>

definition approx :: "rat \<Rightarrow> rat \<Rightarrow> rat \<Rightarrow> bool" where
  "approx rel expected x \<longleftrightarrow> \<bar>x - fl64 expected\<bar> \<le> max (fl64 (fl64 rel * fl64 expected)) (fl64 (1 / 10 ^ 12))"

section \<open>The token bucket\<close>

definition test_new_user_first_request_allowed :: bool where
  "test_new_user_first_request_allowed =
     asserts (check_token_bucket None 1000 60 1) (\<lambda>result. allowed result \<and> remaining result = 59)"

definition test_empty_bucket_denies :: bool where
  "test_empty_bucket_denies =
     asserts (check_token_bucket (Some \<lparr>tokens = 0, last_refill = 1000\<rparr>) 1000 60 1)
       (\<lambda>result. \<not> allowed result \<and> 1 \<le> retry_after result)"

definition test_refill_after_elapsed_time :: bool where
  "test_refill_after_elapsed_time =
     asserts (check_token_bucket (Some \<lparr>tokens = 0, last_refill = 1000\<rparr>) 1030 60 1)
       (\<lambda>result. allowed result \<and> remaining result = 29)"

definition test_refill_capped_at_capacity :: bool where
  "test_refill_capped_at_capacity =
     asserts (check_token_bucket (Some \<lparr>tokens = 0, last_refill = 1000\<rparr>) 2000 60 1)
       (\<lambda>result. allowed result \<and> remaining result = 59)"

definition test_clock_drift_backward_is_safe :: bool where
  "test_clock_drift_backward_is_safe =
     asserts (check_token_bucket (Some \<lparr>tokens = 5, last_refill = 2000\<rparr>) 1000 60 1)
       (\<lambda>result. allowed result \<and> remaining result = 4)"

definition test_denial_still_advances_clock :: bool where
  "test_denial_still_advances_clock =
     asserts (check_token_bucket (Some \<lparr>tokens = 0, last_refill = 1000\<rparr>) 1100 60 (fl64 (1 / 1000)))
       (\<lambda>result. \<not> allowed result \<and> last_refill (new_state result) = 1100)"

lemma token_bucket_tests_pass:
  "test_new_user_first_request_allowed" "test_empty_bucket_denies" "test_refill_after_elapsed_time"
  "test_refill_capped_at_capacity" "test_clock_drift_backward_is_safe" "test_denial_still_advances_clock"
proof -
  show "test_new_user_first_request_allowed" "test_empty_bucket_denies" "test_refill_after_elapsed_time"
    "test_refill_capped_at_capacity" "test_clock_drift_backward_is_safe"
    by (simp_all add: test_new_user_first_request_allowed_def test_empty_bucket_denies_def
        test_refill_after_elapsed_time_def test_refill_capped_at_capacity_def
        test_clock_drift_backward_is_safe_def check_token_bucket_def refill_phase_def Let_def)
  let ?rate = "fl64 (1 / 1000)" and ?s = "\<lparr>tokens = 0, last_refill = 1000\<rparr> :: TokenBucketState"
  have half: "fl64 (1 / 2) = 1 / 2" "fl64 (1 / 512) = 1 / 512"
    using fl64_dyadic [of 1 1] fl64_dyadic [of 1 9] by simp_all
  have "?rate \<le> 1 / 512" by (rule fl.rd_le_fixed) (simp_all add: half)
  then have "fl64 (100 * ?rate) \<le> 1 / 2" by (intro fl.rd_le_fixed) (simp_all add: half)
  then have "refill_phase ?s 1100 60 ?rate < 1"
    by (simp add: refill_phase_def Let_def fl.rd_idem min_def)
  moreover have "?rate \<noteq> 0"
  proof -
    have "1 / 2 ^ 10 \<le> ?rate" using fl64_dyadic [of 1 10] by (intro fl.fixed_le_rd) simp_all
    then show ?thesis by auto
  qed
  ultimately show "test_denial_still_advances_clock"
    unfolding test_denial_still_advances_clock_def by (simp add: check_deny)
qed

section \<open>The enterprise tier\<close>

text \<open>\<open>capacity / 60\<close>.\<close>

definition enterprise_rate :: rat where
  "enterprise_rate = fl64 (10000 / 60)"

text \<open>The loops are runs of the bucket (\<open>run_bucket\<close>), each call given the state of the last.\<close>

definition test_enterprise_burst_capacity :: bool where
  "test_enterprise_burst_capacity =
     asserts (run_bucket None (replicate 10000 1000) 10000 enterprise_rate)
       (\<lambda>(verdicts, state). list_all (\<lambda>ok. ok) verdicts \<and> length verdicts = 10000)"

definition test_enterprise_request_10001_denied :: bool where
  "test_enterprise_request_10001_denied =
     asserts (run_bucket None (replicate 10000 1000) 10000 enterprise_rate)
       (\<lambda>(verdicts, state). asserts (check_token_bucket state 1000 10000 enterprise_rate)
          (\<lambda>result. \<not> allowed result \<and> 1 \<le> retry_after result))"

definition test_enterprise_refills_at_correct_rate :: bool where
  "test_enterprise_refills_at_correct_rate =
     asserts (check_token_bucket (Some \<lparr>tokens = 0, last_refill = 1000\<rparr>) 1001 10000 enterprise_rate)
       (\<lambda>result. allowed result \<and> 165 \<le> remaining result \<and> remaining result \<le> 167)"

definition test_enterprise_vs_free_limit_difference :: bool where
  "test_enterprise_vs_free_limit_difference = approx (1 / 100) (16667 / 100) (fl64 (10000 / 60))"

lemma enterprise_rate_bounds: "166 \<le> enterprise_rate" "enterprise_rate \<le> 167"
proof -
  show "166 \<le> enterprise_rate" unfolding enterprise_rate_def by (rule fl.fixed_le_rd) simp_all
  show "enterprise_rate \<le> 167" unfolding enterprise_rate_def by (rule fl.rd_le_fixed) simp_all
qed

lemma enterprise_burst:
  "run_bucket None (replicate 10000 1000) 10000 enterprise_rate =
     Inr (replicate 10000 True, Some \<lparr>tokens = 0, last_refill = 1000\<rparr>)"
proof -
  have "enterprise_rate \<noteq> 0" using enterprise_rate_bounds by auto
  moreover have "run_bucket None (replicate n 1000) 10000 rate =
      Inr (replicate n True, Some \<lparr>tokens = 0, last_refill = 1000\<rparr>)" if "n = nat 10000" "rate \<noteq> 0" for n rate
    using fresh_bucket_burst [of 10000 rate n 1000] that by simp
  ultimately show ?thesis by simp
qed

lemma enterprise_tests_pass:
  "test_enterprise_burst_capacity" "test_enterprise_request_10001_denied"
  "test_enterprise_refills_at_correct_rate" "test_enterprise_vs_free_limit_difference"
proof -
  note rate = enterprise_rate_bounds
  have all: "list_all (\<lambda>ok. ok) (replicate n True)" for n by (induction n) simp_all
  show "test_enterprise_burst_capacity"
    unfolding test_enterprise_burst_capacity_def enterprise_burst by (simp add: all del: replicate_Suc)
  let ?s = "\<lparr>tokens = 0, last_refill = 1000\<rparr> :: TokenBucketState"
  have "refill_phase ?s 1000 10000 enterprise_rate = 0" by (simp add: refill_phase_def Let_def)
  moreover have "0 \<le> py_int (fl64 (1 / enterprise_rate))"
    using rate by (intro py_int_ge_0 fl.rd_nonneg) simp
  ultimately show "test_enterprise_request_10001_denied"
    unfolding test_enterprise_request_10001_denied_def enterprise_burst
    using rate by (simp add: check_deny)
  have phase: "refill_phase ?s 1001 10000 enterprise_rate = enterprise_rate"
    using rate by (simp add: refill_phase_def Let_def enterprise_rate_def fl.rd_idem)
  have "165 \<le> fl64 (enterprise_rate - 1)" "fl64 (enterprise_rate - 1) \<le> 166"
    using rate by (auto intro!: fl.fixed_le_rd fl.rd_le_fixed)
  then have "165 \<le> py_int (fl64 (enterprise_rate - 1))" "py_int (fl64 (enterprise_rate - 1)) \<le> 167"
    by (simp_all add: py_int_nonneg le_floor_iff floor_le_iff)
  then show "test_enterprise_refills_at_correct_rate"
    unfolding test_enterprise_refills_at_correct_rate_def using rate by (simp add: check_allow phase)
  have "1 \<le> fl64 (fl64 (1 / 100) * fl64 (16667 / 100))"
  proof -
    have "fl64 (1 / 128) = 1 / 128" using fl64_dyadic [of 1 7] by simp
    then have "1 / 128 \<le> fl64 (1 / 100)" by (intro fl.fixed_le_rd) simp_all
    moreover have "166 \<le> fl64 (16667 / 100)" by (intro fl.fixed_le_rd) simp_all
    ultimately have "1 / 128 * 166 \<le> fl64 (1 / 100) * fl64 (16667 / 100)" by (intro mult_mono) auto
    then show ?thesis by (intro fl.rd_ge_1) simp
  qed
  moreover have "166 \<le> fl64 (16667 / 100)" "fl64 (16667 / 100) \<le> 167"
    by (auto intro!: fl.fixed_le_rd fl.rd_le_fixed)
  ultimately show "test_enterprise_vs_free_limit_difference"
    using rate unfolding test_enterprise_vs_free_limit_difference_def approx_def enterprise_rate_def by linarith
qed

section \<open>Tokens\<close>

text \<open>The settings, the JWT library and the clock are arguments: \<open>us\<close> is the instant a token is minted
  at in microseconds, \<open>now\<close> the second it is decoded in.\<close>

definition test_create_and_decode_round_trip :: "settings \<Rightarrow> jose \<Rightarrow> int \<Rightarrow> int \<Rightarrow> bool" where
  "test_create_and_decode_round_trip S J us now =
     asserts (create_access_token S J us ''user_42'' ''pro'' None) (\<lambda>token.
       asserts (decode_access_token S J now token) (\<lambda>payload.
         cl_sub payload = Some ''user_42'' \<and> cl_tier payload = Some ''pro''
         \<and> cl_iat payload \<noteq> None \<and> cl_exp payload \<noteq> None))"

definition test_expired_token_raises_typed_exception :: "settings \<Rightarrow> jose \<Rightarrow> int \<Rightarrow> int \<Rightarrow> bool" where
  "test_expired_token_raises_typed_exception S J us now =
     asserts (create_access_token S J us ''user_42'' ''free'' (Some (- 1 * 10 ^ 6))) (\<lambda>token.
       raises TokenExpiredError (decode_access_token S J now token))"

definition test_garbage_token_raises_invalid :: "settings \<Rightarrow> jose \<Rightarrow> int \<Rightarrow> bool" where
  "test_garbage_token_raises_invalid S J now = raises InvalidTokenError (decode_access_token S J now ''not-a-jwt'')"

definition test_different_tier_values_round_trip :: "settings \<Rightarrow> jose \<Rightarrow> (string \<Rightarrow> int \<times> int) \<Rightarrow> bool" where
  "test_different_tier_values_round_trip S J clock =
     list_all (\<lambda>tier. case clock tier of (us, now) \<Rightarrow>
         asserts (create_access_token S J us ''u'' tier None) (\<lambda>token.
           asserts (decode_access_token S J now token) (\<lambda>payload. cl_tier payload = Some tier)))
       [''free'', ''pro'', ''enterprise'']"

text \<open>\<open>parts[1] = "A" + parts[1][1:]\<close>, an \<open>IndexError\<close> without a second part.\<close>

definition test_tampered_signature_raises_typed_exception :: "settings \<Rightarrow> jose \<Rightarrow> int \<Rightarrow> int \<Rightarrow> bool" where
  "test_tampered_signature_raises_typed_exception S J us now =
     asserts (create_access_token S J us ''user_42'' ''free'' None) (\<lambda>token.
       case split_on (CHR ''.'') token of
         part0 # part1 # rest \<Rightarrow>
           raises InvalidTokenError
             (decode_access_token S J now (join ''.'' (part0 # (''A'' @ drop 1 part1) # rest)))
       | _ \<Rightarrow> False)"

text \<open>The compact form: three parts, with the encoded claims between the dots. Claims whose encoding
  begins with an A begin with a control character, which no JSON text does, so such a token is
  refused whoever signed it.\<close>

definition jws_laws :: "jose \<Rightarrow> bool" where
  "jws_laws J \<longleftrightarrow>
     (\<forall>c secret alg token. jwt_encode J c secret alg = Some token \<longrightarrow>
        (\<exists>h p s. token = join ''.'' [h, p, s] \<and> (\<forall>x\<in>{h, p, s}. CHR ''.'' \<notin> set x)))
   \<and> (\<forall>h p s now secret algs. (\<forall>x\<in>{h, p, s}. CHR ''.'' \<notin> set x) \<longrightarrow>
        jwt_decode J now (join ''.'' [h, CHR ''A'' # p, s]) secret algs = JWTError)"

text \<open>A token is minted and decoded within its lifetime of \<open>JWT_EXPIRE_MINUTES\<close>.\<close>

definition within_lifetime :: "settings \<Rightarrow> int \<Rightarrow> int \<Rightarrow> bool" where
  "within_lifetime S us now \<longleftrightarrow> sane_instant us \<and> sane_instant (us + jwt_expire_minutes S * 60 * 10 ^ 6)
   \<and> now \<le> us div 10 ^ 6 + jwt_expire_minutes S * 60"

definition jwt_configured :: "settings \<Rightarrow> bool" where
  "jwt_configured S \<longleftrightarrow> jwt_algorithm S = ''HS256'' \<and> 1 \<le> jwt_expire_minutes S \<and> jwt_expire_minutes S \<le> 10 ^ 9"

lemma minted_decodes:
  assumes "jose_laws J" "jwt_configured S" "within_lifetime S us now"
  obtains token where "create_access_token S J us user_id tier None = Inr token"
    "decode_access_token S J now token =
       Inr \<lparr>cl_sub = Some user_id, cl_tier = Some tier, cl_iat = Some (us div 10 ^ 6),
            cl_exp = Some (us div 10 ^ 6 + jwt_expire_minutes S * 60)\<rparr>"
proof -
  let ?d = "jwt_expire_minutes S * 60 * 10 ^ 6"
  have "jwt_expire_minutes S div 1440 \<le> 10 ^ 9 div 1440" "0 \<le> jwt_expire_minutes S div 1440"
    using assms(2) by (auto simp: jwt_configured_def pos_imp_zdiv_nonneg_iff intro: zdiv_mono1)
  then have S: "jwt_algorithm S = ''HS256''" "timedelta_minutes (jwt_expire_minutes S) = Inr ?d"
    using assms(2) by (simp_all add: jwt_configured_def timedelta_minutes_def)
  have clk: "sane_instant us" "sane_instant (us + ?d)" "\<not> us div 10 ^ 6 + jwt_expire_minutes S * 60 < now"
    using assms(3) by (simp_all add: within_lifetime_def)
  have exp: "(us + ?d) div 10 ^ 6 = us div 10 ^ 6 + jwt_expire_minutes S * 60" by simp
  let ?c = "\<lparr>cl_sub = Some user_id, cl_tier = Some tier, cl_iat = Some (us div 10 ^ 6),
       cl_exp = Some (us div 10 ^ 6 + jwt_expire_minutes S * 60)\<rparr>"
  obtain token where t: "jwt_encode J ?c (jwt_secret S) (jwt_algorithm S) = Some token"
    using assms(1) S(1) unfolding jose_laws_def by metis
  have "create_access_token S J us user_id tier None = Inr token"
    using create_access_token_sane [of None ?d S us J user_id tier, OF _ clk(1,2)] S(2) unfolding exp t by simp
  moreover have "decode_access_token S J now token = Inr ?c"
    using decode_minted [OF assms(1) t, of "us div 10 ^ 6 + jwt_expire_minutes S * 60" now] clk(3) by simp
  ultimately show thesis by (rule that)
qed

lemma security_tests_pass:
  assumes "jose_laws J" "jwt_configured S"
  shows "within_lifetime S us now \<Longrightarrow> test_create_and_decode_round_trip S J us now"
    and "sane_instant us \<Longrightarrow> sane_instant (us - 10 ^ 6) \<Longrightarrow> us div 10 ^ 6 \<le> now \<Longrightarrow>
      test_expired_token_raises_typed_exception S J us now"
    and "jwt_decode J now ''not-a-jwt'' (jwt_secret S) [jwt_algorithm S] = JWTError \<Longrightarrow>
      test_garbage_token_raises_invalid S J now"
    and "\<forall>tier. case clock tier of (us, now) \<Rightarrow> within_lifetime S us now \<Longrightarrow>
      test_different_tier_values_round_trip S J clock"
proof -
  show "test_create_and_decode_round_trip S J us now" if "within_lifetime S us now"
    by (rule minted_decodes [OF assms that, of "''user_42''" "''pro''"])
      (simp add: test_create_and_decode_round_trip_def)
  show "test_expired_token_raises_typed_exception S J us now"
    if "sane_instant us" "sane_instant (us - 10 ^ 6)" "us div 10 ^ 6 \<le> now"
  proof -
    have "(us - 10 ^ 6) div 10 ^ 6 = us div 10 ^ 6 - 1"
      using div_mult_self1 [of "10 ^ 6" us "- 1"] by simp
    then show ?thesis
      using minted_token_lifetime [of J S "- (10 ^ 6)" us "''user_42''" "''free''"] assms that
      by (auto simp: jwt_configured_def test_expired_token_raises_typed_exception_def raises_def new_error_def
          isinstance_def)
  qed
  show "test_garbage_token_raises_invalid S J now"
    if "jwt_decode J now ''not-a-jwt'' (jwt_secret S) [jwt_algorithm S] = JWTError"
    using that by (simp add: test_garbage_token_raises_invalid_def decode_access_token_def raises_def new_error_def
        isinstance_def)
  show "test_different_tier_values_round_trip S J clock"
    if clock: "\<forall>tier. case clock tier of (us, now) \<Rightarrow> within_lifetime S us now"
  proof -
    have "case clock tier of (us, now) \<Rightarrow> asserts (create_access_token S J us ''u'' tier None) (\<lambda>token.
        asserts (decode_access_token S J now token) (\<lambda>payload. cl_tier payload = Some tier))" for tier
    proof (cases "clock tier")
      case (Pair us now)
      then have "within_lifetime S us now" using clock by (metis case_prod_conv)
      then show ?thesis
        by (rule minted_decodes [OF assms, of us now "''u''" tier]) (simp add: Pair)
    qed
    then show ?thesis by (simp add: test_different_tier_values_round_trip_def)
  qed
qed

text \<open>Whatever the claims' encoding began with, it is refused when it begins with an A.\<close>

lemma tampered_test_passes:
  assumes "jose_laws J" "jws_laws J" "jwt_configured S" "within_lifetime S us us'"
  shows "test_tampered_signature_raises_typed_exception S J us now"
proof -
  obtain token where token: "create_access_token S J us ''user_42'' ''free'' None = Inr token"
    by (rule minted_decodes [OF assms(1,3,4)])
  then have "\<exists>c. jwt_encode J c (jwt_secret S) (jwt_algorithm S) = Some token"
    by (auto simp: create_access_token_def Let_def split: sum.splits if_splits option.splits)
  then obtain h p s where parts: "token = join ''.'' [h, p, s]" "\<forall>x\<in>{h, p, s}. CHR ''.'' \<notin> set x"
    using assms(2) unfolding jws_laws_def by metis
  have split: "split_on (CHR ''.'') token = [h, p, s]"
    using parts by (simp add: split_on_append split_on_no_sep)
  have "\<forall>x\<in>{h, drop 1 p, s}. CHR ''.'' \<notin> set x" using parts(2) by (auto dest: in_set_dropD)
  then have "jwt_decode J now (join ''.'' [h, CHR ''A'' # drop 1 p, s]) (jwt_secret S) [jwt_algorithm S] = JWTError"
    using assms(2) unfolding jws_laws_def by blast
  then show ?thesis
    by (simp add: test_tampered_signature_raises_typed_exception_def token split decode_access_token_def raises_def
        new_error_def isinstance_def)
qed

text \<open>Both laws can hold: the spelled-out token of theory Security as the middle part, its dots
  written otherwise.\<close>

fun veil :: "string \<Rightarrow> string" where
  "veil [] = []"
| "veil (c # cs) = (if c = CHR ''.'' then ''yd'' else [CHR ''x'', c]) @ veil cs"

fun unveil :: "string \<Rightarrow> string option" where
  "unveil [] = Some []"
| "unveil (m # c # cs) = (if m = CHR ''x'' then map_option ((#) c) (unveil cs)
     else if m = CHR ''y'' then map_option ((#) (CHR ''.'')) (unveil cs) else None)"
| "unveil cs = None"

lemma unveil_veil [simp]: "unveil (veil s) = Some s"
  by (induction s) auto

lemma veil_no_dot: "CHR ''.'' \<notin> set (veil s)"
  by (induction s) auto

definition compact_jose :: jose where
  "compact_jose =
     \<lparr>jwt_encode = (\<lambda>c secret alg. map_option (\<lambda>t. join ''.'' [''h'', veil t, ''s'']) (demo_encode c secret alg)),
      jwt_decode = (\<lambda>now token secret algs.
        case split_on (CHR ''.'') token of
          [h, p, s] \<Rightarrow> (case unveil p of Some t \<Rightarrow> demo_decode now t secret algs | None \<Rightarrow> JWTError)
        | _ \<Rightarrow> JWTError)\<rparr>"

lemma compact_jose_laws: "jose_laws compact_jose" "jws_laws compact_jose"
proof -
  have split: "split_on (CHR ''.'') (join ''.'' [h, p, s]) = [h, p, s]" if "\<forall>x\<in>{h, p, s}. CHR ''.'' \<notin> set x" for h p s
    using that by (simp add: split_on_append split_on_no_sep)
  note veiled = split [of "''h''" "veil t" "''s''" for t]
  show "jose_laws compact_jose"
    using demo_jose_laws veiled by (auto simp: jose_laws_def compact_jose_def demo_jose_def veil_no_dot simp del: join.simps)
  have "unveil (CHR ''A'' # p) = None" for p by (cases p) simp_all
  moreover have "\<exists>h p s. token = join ''.'' [h, p, s] \<and> (\<forall>x\<in>{h, p, s}. CHR ''.'' \<notin> set x)"
    if enc: "jwt_encode compact_jose c secret alg = Some token" for c secret alg token
  proof -
    obtain t where "token = join ''.'' [''h'', veil t, ''s'']"
      using enc by (auto simp: compact_jose_def simp del: join.simps)
    then show ?thesis
      by (intro exI [of _ "''h''"] exI [of _ "veil t"] exI [of _ "''s''"]) (simp add: veil_no_dot del: join.simps)
  qed
  ultimately show "jws_laws compact_jose"
    unfolding jws_laws_def using split by (auto simp: compact_jose_def simp del: join.simps)
qed

end
