(* ===== verification/Test_Harness.thy ===== *)
theory Test_Harness
  imports Gateway_Quota Unit_Tests Json_Text
begin

text \<open>
  What the repository's integration tests run in, \<open>tests/conftest.py\<close>: the fixtures, and the
  application as a test drives it, request by request. The HTTP client (httpx) and the
  surroundings of each request are parameters, with what the tests need of them (\<open>harness_ok\<close>).
\<close>

section \<open>Fixtures\<close>

text \<open>What a test runs in: the settings, Redis, the JWT library, the HTTP client (verb, path, header
  fields and JSON body to the request that arrives), the two third-party middlewares, the instant
  its tokens are minted at, and the surroundings of its n-th request.\<close>

record 'r harness =
  hs_settings :: settings
  hs_redis :: "'r redis_api"
  hs_jose :: jose
  hs_client :: "string \<Rightarrow> string \<Rightarrow> (string \<times> string) list \<Rightarrow> json option \<Rightarrow> request"
  hs_trusted_host :: "string list \<Rightarrow> 'r middleware"
  hs_cors :: "string list \<Rightarrow> 'r middleware"
  hs_minted_at :: int
  hs_env :: "nat \<Rightarrow> 'r env"

text \<open>\<open>client\<close>: the n-th request, straight into the application (\<open>ASGITransport\<close>).\<close>

definition client ::
  "'r harness \<Rightarrow> nat \<Rightarrow> string \<Rightarrow> string \<Rightarrow> (string \<times> string) list \<Rightarrow> json option \<Rightarrow> 'r world \<Rightarrow>
   (exn + response) \<times> 'r world" where
  "client H n verb path headers body w =
     (case app (hs_env H n) (hs_trusted_host H) (hs_cors H) (hs_client H verb path headers body) w of
        (res, st, w') \<Rightarrow> (res, w'))"

text \<open>\<open>await\<close>: an exception ends the test.\<close>

definition await :: "(exn + response) \<times> 'r world \<Rightarrow> (response \<Rightarrow> 'r world \<Rightarrow> bool) \<Rightarrow> bool" where
  "await out k = (case out of (Inl e, w) \<Rightarrow> False | (Inr r, w) \<Rightarrow> k r w)"

lemma await_simps [simp]: "await (Inl e, w) k = False" "await (Inr r, w) k = k r w"
  by (simp_all add: await_def)

definition make_token :: "'r harness \<Rightarrow> string \<Rightarrow> string \<Rightarrow> mint_error + string" where
  "make_token H user_id tier =
     create_access_token (hs_settings H) (hs_jose H) (hs_minted_at H) user_id tier None"

definition bearer :: "string \<Rightarrow> (string \<times> string) list" where
  "bearer token = [(''Authorization'', ''Bearer '' @ token)]"

definition auth_headers :: "'r harness \<Rightarrow> mint_error + (string \<times> string) list" where
  "auth_headers H = (case make_token H ''test_user'' ''free'' of Inl e \<Rightarrow> Inl e | Inr token \<Rightarrow> Inr (bearer token))"

definition admin_headers :: "'r harness \<Rightarrow> (string \<times> string) list" where
  "admin_headers H = [(''X-Admin-Key'', admin_api_key (hs_settings H))]"

text \<open>\<open>r.json()\<close>, \<open>body["error"]["code"]\<close>, \<open>int(r.headers[name])\<close>.\<close>

definition json_of :: "response \<Rightarrow> json option" where
  "json_of rs = (case rs_body rs of JsonBody j \<Rightarrow> Some j | RawBody s \<Rightarrow> json_loads s)"

fun json_path :: "json option \<Rightarrow> string list \<Rightarrow> json option" where
  "json_path j [] = j"
| "json_path j (k # ks) = json_path (Option.bind j (\<lambda>j. json_get j k)) ks"

definition int_header :: "response \<Rightarrow> string \<Rightarrow> int option" where
  "int_header rs name = map_option str_int (header rs name)"

text \<open>The stores as the fixtures leave them: every table empty (\<open>test_engine\<close>), Redis flushed
  (\<open>test_redis\<close>). The circuit breaker, the counters and the scheduled log writes are module state
  that no fixture resets.\<close>

definition clean_stores :: "'r redis_api \<Rightarrow> 'r world \<Rightarrow> bool" where
  "clean_stores R w \<longleftrightarrow> (\<forall>key field. hget R (w_redis w) key field = None)
   \<and> (\<forall>key m. zscore R (w_redis w) key m = None) \<and> w_db w = \<lparr>db_quotas = Map.empty, db_logs = []\<rparr>"

text \<open>The surroundings the tests need: PostgreSQL and Redis up and behaving as documented, a client
  that sends what it is given, the settings of \<open>.env.example\<close> as far as they matter, tokens within
  their lifetime and without blanks.\<close>

definition commands_apart :: "'r redis_api \<Rightarrow> bool" where
  "commands_apart R \<longleftrightarrow> (\<forall>k f v r k' m. zscore R (hset R k f v r) k' m = zscore R r k' m)"

definition client_laws :: "codec \<Rightarrow> (string \<Rightarrow> string \<Rightarrow> (string \<times> string) list \<Rightarrow> json option \<Rightarrow> request) \<Rightarrow> bool" where
  "client_laws C send \<longleftrightarrow>
     (\<forall>verb path headers body.
        rq_method (send verb path headers body) = verb \<and> rq_path (send verb path headers body) = path
      \<and> (\<forall>name\<in>{''Authorization'', ''X-Admin-Key''}.
           get_header (send verb path headers body) name = map_of (map (\<lambda>(k, v). (lower k, v)) headers) (lower name))
      \<and> read_body C (send verb path headers None) = No_Body
      \<and> (\<forall>j. float_free j \<longrightarrow> read_body C (send verb path headers (Some j)) = Body j))
   \<and> (\<forall>n. as_int C (JInt n) = Some n) \<and> (\<forall>s. as_str C (JStr s) = Some s)"

definition token_laws :: "jose \<Rightarrow> settings \<Rightarrow> bool" where
  "token_laws J S \<longleftrightarrow> jose_laws J
   \<and> (\<forall>c token. jwt_encode J c (jwt_secret S) (jwt_algorithm S) = Some token \<longrightarrow> strip token = token \<and> 50 < length token)
   \<and> (\<forall>now. jwt_decode J now ''not-a-jwt'' (jwt_secret S) [jwt_algorithm S] = JWTError)"

definition settings_for_tests :: "settings \<Rightarrow> bool" where
  "settings_for_tests S \<longleftrightarrow> app_env S \<noteq> Production \<and> jwt_configured S
   \<and> admin_api_key S \<noteq> [] \<and> admin_api_key S \<noteq> ''definitely-wrong''
   \<and> allowed_hosts S = [''*''] \<and> allowed_origins S = []
   \<and> rate_limit_pro S = 1000 \<and> rate_limit_enterprise S = 10000"

definition surroundings_ok :: "'r harness \<Rightarrow> 'r env \<Rightarrow> bool" where
  "surroundings_ok H env \<longleftrightarrow> ev_settings env = hs_settings H \<and> ev_redis env = hs_redis H \<and> ev_jose env = hs_jose H
   \<and> client_laws (ev_codec env) (hs_client H) \<and> ev_db_up env \<and> ev_check_dlv env = Delivered
   \<and> sane_clock (ev_epoch env) \<and> within_lifetime (hs_settings H) (hs_minted_at H) (ev_decode_at env)
   \<and> sane_instant (ev_instant env) \<and> sane_instant (ev_instant env + jwt_expire_minutes (hs_settings H) * 60 * 10 ^ 6)"

definition harness_ok :: "'r harness \<Rightarrow> bool" where
  "harness_ok H \<longleftrightarrow> settings_for_tests (hs_settings H) \<and> token_laws (hs_jose H) (hs_settings H)
   \<and> hash_laws (hs_redis H) \<and> zset_laws (hs_redis H) \<and> separate_laws (hs_redis H) \<and> commands_apart (hs_redis H)
   \<and> (\<forall>n. surroundings_ok H (hs_env H n))"

lemma harness_simps:
  assumes "harness_ok H"
  shows "ev_settings (hs_env H n) = hs_settings H" "ev_redis (hs_env H n) = hs_redis H" "ev_jose (hs_env H n) = hs_jose H"
    "ev_db_up (hs_env H n)" "ev_check_dlv (hs_env H n) = Delivered" "sane_clock (ev_epoch (hs_env H n))"
    "app_env (hs_settings H) \<noteq> Production" "admin_api_key (hs_settings H) \<noteq> []"
    "plain_request (hs_env H n) th cors rq"
  using assms by (simp_all add: harness_ok_def surroundings_ok_def settings_for_tests_def plain_request_def)

lemma client_simps:
  assumes "harness_ok H"
  shows "rq_method (hs_client H verb path headers body) = verb" "rq_path (hs_client H verb path headers body) = path"
    "get_header (hs_client H verb path headers body) ''Authorization'' =
       map_of (map (\<lambda>(k, v). (lower k, v)) headers) ''authorization''"
    "get_header (hs_client H verb path headers body) ''x-admin-key'' =
       map_of (map (\<lambda>(k, v). (lower k, v)) headers) ''x-admin-key''"
    "read_body (ev_codec (hs_env H n)) (hs_client H verb path headers None) = No_Body"
    "float_free j \<Longrightarrow> read_body (ev_codec (hs_env H n)) (hs_client H verb path headers (Some j)) = Body j"
    "as_int (ev_codec (hs_env H n)) (JInt i) = Some i" "as_str (ev_codec (hs_env H n)) (JStr s) = Some s"
proof -
  have laws: "client_laws (ev_codec (hs_env H n)) (hs_client H)" for n
    using assms by (simp add: harness_ok_def surroundings_ok_def)
  have "lower ''X-Admin-Key'' = lower ''x-admin-key''" by code_simp
  then have "get_header rq ''X-Admin-Key'' = get_header rq ''x-admin-key''" for rq by (simp add: get_header_def)
  with laws [of n] show "rq_method (hs_client H verb path headers body) = verb"
    "rq_path (hs_client H verb path headers body) = path"
    "get_header (hs_client H verb path headers body) ''Authorization'' =
       map_of (map (\<lambda>(k, v). (lower k, v)) headers) ''authorization''"
    "get_header (hs_client H verb path headers body) ''x-admin-key'' =
       map_of (map (\<lambda>(k, v). (lower k, v)) headers) ''x-admin-key''"
    "read_body (ev_codec (hs_env H n)) (hs_client H verb path headers None) = No_Body"
    "float_free j \<Longrightarrow> read_body (ev_codec (hs_env H n)) (hs_client H verb path headers (Some j)) = Body j"
    "as_int (ev_codec (hs_env H n)) (JInt i) = Some i" "as_str (ev_codec (hs_env H n)) (JStr s) = Some s"
    by (simp_all add: client_laws_def lower_names \<open>lower ''X-Admin-Key'' = lower ''x-admin-key''\<close>)
qed

text \<open>A response on its way out: the request id and the security headers.\<close>

definition outer :: "'r env \<Rightarrow> request \<Rightarrow> response \<Rightarrow> response" where
  "outer env rq rs = add_security_headers (ev_settings env) (set_header ''X-Request-ID'' (request_id_of env rq) rs)"

lemma outer_simps [simp]:
  "rs_status (outer env rq rs) = rs_status rs" "rs_body (outer env rq rs) = rs_body rs"
  "json_of (outer env rq rs) = json_of rs"
  "lower k \<notin> set outer_names \<Longrightarrow> header (outer env rq rs) k = header rs k"
  "header (outer env rq rs) ''x-request-id'' = Some (request_id_of env rq)"
proof -
  have "lower ''x-request-id'' = lower ''X-Request-ID''" by code_simp
  then have "header rs ''x-request-id'' = header rs ''X-Request-ID''" for rs by (simp add: header_def)
  then show "header (outer env rq rs) ''x-request-id'' = Some (request_id_of env rq)"
    by (simp add: outer_def header_security(5) hdr_simps)
qed (simp_all add: outer_def header_outer json_of_def)

lemma client_inner:
  assumes "harness_ok H" and rq: "rq = hs_client H verb path headers body"
    and "inner (hs_env H n) rq (start_state (hs_env H n) rq) w = (res, st, w1)"
  obtains e where "client H n verb path headers body w =
    (case res of Inl exc \<Rightarrow> (Inl exc, schedule_log e w1) | Inr rs \<Rightarrow> (Inr (outer (hs_env H n) rq rs), schedule_log e w1))"
  using app_inner [OF harness_simps(9) [OF assms(1)] assms(3), of "hs_trusted_host H" "hs_cors H"]
  by (cases res) (simp_all add: client_def outer_def rq)

lemma schedule_log_fields [simp]:
  "w_db (schedule_log e w) = w_db w" "w_redis (schedule_log e w) = w_redis w" "w_breaker (schedule_log e w) = w_breaker w"
  by (simp_all add: schedule_log_def)

text \<open>On a public path, straight to the routes.\<close>

lemma client_public:
  assumes "harness_ok H" "is_public AUTH_PUBLIC_PATH_PREFIXES path"
    and rq: "rq = hs_client H verb path headers body"
    and "route_of verb path = Full ep"
    and "run_endpoint (hs_env H n) ep rq (start_state (hs_env H n) rq) w = (res, st, w1)"
  obtains e where
    "\<And>rs. res = Inr rs \<Longrightarrow> client H n verb path headers body w = (Inr (outer (hs_env H n) rq rs), schedule_log e w1)"
    "\<And>exc. res = Inl (Gateway_Exn exc) \<Longrightarrow> client H n verb path headers body w =
       (Inr (outer (hs_env H n) rq (handle_gateway_error (st_request_id st) exc)), schedule_log e w1)"
    "\<And>code detail hs. res = Inl (HTTPException code detail hs) \<Longrightarrow> client H n verb path headers body w =
       (Inr (outer (hs_env H n) rq (json_response code (JObj [(''detail'', JStr detail)]) hs)), schedule_log e w1)"
proof -
  let ?env = "hs_env H n"
  have rqf: "rq_path rq = path" "rq_method rq = verb" by (simp_all add: rq client_simps [OF assms(1)])
  have "inner ?env rq (start_state ?env rq) w = exception_handlers ?env (router ?env) rq (start_state ?env rq) w"
    using assms(2) by (cases rule: inner_cases [of rq ?env "start_state ?env rq" w]) (simp_all add: rqf routes_def)
  then have i: "inner ?env rq (start_state ?env rq) w =
    (case (res, st, w1) of
        (Inl (Gateway_Exn e), st, w) \<Rightarrow> (Inr (handle_gateway_error (st_request_id st) e), st, w)
      | (Inl (HTTPException code detail headers), st, w) \<Rightarrow>
          (Inr (json_response code (JObj [(''detail'', JStr detail)]) headers), st, w)
      | (Inl RequestValidationError, st, w) \<Rightarrow>
          (Inr (json_response 422 (JObj [(''detail'', ev_validation_detail ?env)]) []), st, w)
      | out \<Rightarrow> out)"
    using assms(4,5) by (simp add: exception_handlers_def router_def rqf)
  obtain r' st' w' where j: "inner ?env rq (start_state ?env rq) w = (r', st', w')" using prod_cases3 by blast
  obtain e where e: "client H n verb path headers body w =
    (case r' of Inl exc \<Rightarrow> (Inl exc, schedule_log e w') | Inr rs \<Rightarrow> (Inr (outer ?env rq rs), schedule_log e w'))"
    by (rule client_inner [OF assms(1) rq j])
  show thesis by (rule that [of e]) (use i j e in simp_all)
qed

end
