(* ===== verification/Integration_Tests.thy ===== *)
theory Integration_Tests
  imports Test_Harness
begin

text \<open>
  The repository's integration tests, \<open>tests/test_integration.py\<close> and the Redis-backed part of
  \<open>tests/test_enterprise_throughput.py\<close>, over the assembled application. A test sends requests
  with the client and asserts things of the responses; the lemmas show under which surroundings
  it passes.
\<close>

section \<open>The tests without the limiter\<close>

definition test_health_endpoint :: "'r harness \<Rightarrow> 'r world \<Rightarrow> bool" where
  "test_health_endpoint H w =
     await (client H 0 ''GET'' ''/health'' [] None w) (\<lambda>r w.
       rs_status r = 200 \<and> json_of r = Some (JObj [(''status'', JStr ''ok'')]))"

definition test_mint_token :: "'r harness \<Rightarrow> 'r world \<Rightarrow> bool" where
  "test_mint_token H w =
     await (client H 0 ''POST'' ''/auth/token'' []
         (Some (JObj [(''user_id'', JStr ''alice''), (''tier'', JStr ''pro'')])) w) (\<lambda>r w.
       rs_status r = 200 \<and> json_path (json_of r) [''token_type''] = Some (JStr ''bearer'')
       \<and> (case json_path (json_of r) [''expires_in''] of Some (JInt n) \<Rightarrow> 0 < n | _ \<Rightarrow> False)
       \<and> (case json_path (json_of r) [''access_token''] of Some (JStr t) \<Rightarrow> 50 < length t | _ \<Rightarrow> False))"

definition test_protected_route_without_token_returns_401 :: "'r harness \<Rightarrow> 'r world \<Rightarrow> bool" where
  "test_protected_route_without_token_returns_401 H w =
     await (client H 0 ''GET'' ''/get'' [] None w) (\<lambda>r w.
       rs_status r = 401 \<and> json_path (json_of r) [''error'', ''code''] = Some (JStr ''INVALID_TOKEN''))"

definition test_protected_route_with_bad_token_returns_401 :: "'r harness \<Rightarrow> 'r world \<Rightarrow> bool" where
  "test_protected_route_with_bad_token_returns_401 H w =
     await (client H 0 ''GET'' ''/get'' (bearer ''not-a-jwt'') None w) (\<lambda>r w.
       rs_status r = 401 \<and> json_path (json_of r) [''error'', ''code''] = Some (JStr ''INVALID_TOKEN''))"

definition test_request_id_header_propagates :: "'r harness \<Rightarrow> 'r world \<Rightarrow> bool" where
  "test_request_id_header_propagates H w =
     await (client H 0 ''GET'' ''/health'' [] None w) (\<lambda>r w. header r ''x-request-id'' \<noteq> None)"

definition test_admin_endpoint_requires_admin_key :: "'r harness \<Rightarrow> 'r world \<Rightarrow> bool" where
  "test_admin_endpoint_requires_admin_key H w =
     await (client H 0 ''GET'' ''/admin/stats'' [] None w) (\<lambda>r w. rs_status r = 401)"

definition test_admin_endpoint_with_wrong_key :: "'r harness \<Rightarrow> 'r world \<Rightarrow> bool" where
  "test_admin_endpoint_with_wrong_key H w =
     await (client H 0 ''GET'' ''/admin/stats'' [(''X-Admin-Key'', ''definitely-wrong'')] None w)
       (\<lambda>r w. rs_status r = 401)"

text \<open>The bodies of the quota requests; a test may leave the reason out.\<close>

definition quota_body :: "int \<Rightarrow> string option \<Rightarrow> json" where
  "quota_body limit reason =
     JObj ((''custom_limit'', JInt limit) # (case reason of None \<Rightarrow> [] | Some s \<Rightarrow> [(''reason'', JStr s)]))"

definition test_admin_can_set_quota :: "'r harness \<Rightarrow> 'r world \<Rightarrow> bool" where
  "test_admin_can_set_quota H w =
     await (client H 0 ''PUT'' ''/admin/quota/alice'' (admin_headers H) (Some (quota_body 500 (Some ''VIP launch boost''))) w)
       (\<lambda>r w. rs_status r = 200 \<and> json_path (json_of r) [''user_id''] = Some (JStr ''alice'')
          \<and> json_path (json_of r) [''custom_limit''] = Some (JInt 500)
          \<and> json_path (json_of r) [''reason''] = Some (JStr ''VIP launch boost''))"

definition test_admin_get_missing_quota_returns_404 :: "'r harness \<Rightarrow> 'r world \<Rightarrow> bool" where
  "test_admin_get_missing_quota_returns_404 H w =
     await (client H 0 ''GET'' ''/admin/quota/no_such_user'' (admin_headers H) None w) (\<lambda>r w.
       rs_status r = 404 \<and> json_path (json_of r) [''error'', ''code''] = Some (JStr ''NOT_FOUND''))"

definition test_admin_delete_quota :: "'r harness \<Rightarrow> 'r world \<Rightarrow> bool" where
  "test_admin_delete_quota H w =
     await (client H 0 ''PUT'' ''/admin/quota/alice'' (admin_headers H) (Some (quota_body 100 None)) w) (\<lambda>_ w.
     await (client H 1 ''DELETE'' ''/admin/quota/alice'' (admin_headers H) None w) (\<lambda>r w.
       rs_status r = 204 \<and>
     await (client H 2 ''GET'' ''/admin/quota/alice'' (admin_headers H) None w) (\<lambda>r w. rs_status r = 404)))"

definition test_rate_limit_headers_on_success :: "'r harness \<Rightarrow> 'r world \<Rightarrow> bool" where
  "test_rate_limit_headers_on_success H w =
     asserts (auth_headers H) (\<lambda>auth_headers.
     await (client H 0 ''PUT'' ''/admin/quota/test_user'' (admin_headers H) (Some (quota_body 10 (Some ''test''))) w) (\<lambda>_ w.
     await (client H 1 ''GET'' ''/health'' auth_headers None w) (\<lambda>r w. rs_status r = 200)))"

lemma test_routes:
  "route_of ''GET'' ''/health'' = Full Health_Route" "is_public AUTH_PUBLIC_PATH_PREFIXES ''/health''"
  "route_of ''POST'' ''/auth/token'' = Full Token_Route" "is_public AUTH_PUBLIC_PATH_PREFIXES ''/auth/token''"
  "route_of ''GET'' ''/admin/stats'' = Full Stats_Route" "is_public AUTH_PUBLIC_PATH_PREFIXES ''/admin/stats''"
  "route_of ''GET'' ''/admin/quota/no_such_user'' = Full (Get_Quota ''no_such_user'')"
  "is_public AUTH_PUBLIC_PATH_PREFIXES ''/admin/quota/no_such_user''"
  by code_simp+

lemma quota_routes:
  "user \<noteq> [] \<Longrightarrow> CHR ''/'' \<notin> set user \<Longrightarrow> route_of ''PUT'' (''/admin/quota/'' @ user) = Full (Put_Quota user)"
  "user \<noteq> [] \<Longrightarrow> CHR ''/'' \<notin> set user \<Longrightarrow> route_of ''GET'' (''/admin/quota/'' @ user) = Full (Get_Quota user)"
  "user \<noteq> [] \<Longrightarrow> CHR ''/'' \<notin> set user \<Longrightarrow> route_of ''DELETE'' (''/admin/quota/'' @ user) = Full (Delete_Quota user)"
  "is_public AUTH_PUBLIC_PATH_PREFIXES (''/admin/quota/'' @ user)"
  by (simp_all add: route_of_def route_table_def fixed_def quota_path_def any_path_def is_public_def
      AUTH_PUBLIC_PATH_PREFIXES_def startswith_def removeprefix_def Let_def)

lemma admin_headers_ok:
  assumes "harness_ok H"
  shows "admin_key_ok (hs_settings H) (hs_client H verb path (admin_headers H) body)"
proof -
  have "lower ''X-Admin-Key'' = ''x-admin-key''" by code_simp
  then show ?thesis
    using harness_simps(8) [OF assms] by (simp add: admin_key_ok_def client_simps [OF assms] admin_headers_def)
qed

lemma quota_body_parses:
  assumes "harness_ok H" "1 \<le> limit" "limit \<le> 10 ^ 6" "reason = None \<or> (\<exists>s. reason = Some s \<and> length s \<le> 512)"
  shows "parse_quota_create (ev_codec (hs_env H n)) (quota_body limit reason) =
    Some \<lparr>qc_custom_limit = limit, qc_reason = reason, qc_expires_at = None\<rparr>"
  using assms(2-4)
  by (auto simp: parse_quota_create_def quota_body_def optional_field_def client_simps [OF assms(1)])

text \<open>A first put of an override, and what it leaves behind.\<close>

lemma client_put_quota:
  assumes H: "harness_ok H" and user: "user \<noteq> []" "CHR ''/'' \<notin> set user" "length user \<le> 128"
    and body: "1 \<le> limit" "limit \<le> 10 ^ 6" "reason = None \<or> (\<exists>s. reason = Some s \<and> length s \<le> 512)"
    and none: "db_quotas (w_db w) user = None"
  obtains row e rq where
    "client H n ''PUT'' (''/admin/quota/'' @ user) (admin_headers H) (Some (quota_body limit reason)) w =
       (Inr (outer (hs_env H n) rq (json_response 200 (quota_response (ev_codec (hs_env H n)) row) [])),
        schedule_log e (w\<lparr>w_db := (w_db w)\<lparr>db_quotas := (db_quotas (w_db w))(user \<mapsto> row)\<rparr>\<rparr>))"
    "row = \<lparr>q_user_id = user, q_custom_limit = limit, q_reason = reason,
            q_created_at = ev_instant (hs_env H n), q_expires_at = None\<rparr>"
proof -
  let ?env = "hs_env H n" and ?path = "''/admin/quota/'' @ user"
  let ?row = "\<lparr>q_user_id = user, q_custom_limit = limit, q_reason = reason, q_created_at = ev_instant ?env, q_expires_at = None\<rparr>"
  define rq where rq: "rq = hs_client H ''PUT'' ?path (admin_headers H) (Some (quota_body limit reason))"
  have "float_free (quota_body limit reason)" by (simp add: quota_body_def split: option.split)
  then have "run_endpoint ?env (Put_Quota user) rq (start_state ?env rq) w =
    (Inr (json_response 200 (quota_response (ev_codec ?env) ?row) []), start_state ?env rq,
     w\<lparr>w_db := (w_db w)\<lparr>db_quotas := (db_quotas (w_db w))(user \<mapsto> ?row)\<rparr>\<rparr>)"
    using admin_headers_ok [OF H] user(3) none
    by (simp add: run_endpoint_def with_body_def require_admin_def harness_simps [OF H] rq client_simps [OF H]
        quota_body_parses [OF H body] upsert_quota_def Let_def)
  from client_public [OF H quota_routes(4) rq quota_routes(1) [OF user(1,2)] this]
  show thesis using that by metis
qed

lemma client_get_quota:
  assumes H: "harness_ok H" and user: "user \<noteq> []" "CHR ''/'' \<notin> set user" and none: "db_quotas (w_db w) user = None"
  obtains e rq i exc where
    "client H n ''GET'' (''/admin/quota/'' @ user) (admin_headers H) None w =
       (Inr (outer (hs_env H n) rq (handle_gateway_error i exc)), schedule_log e w)"
    "exc_class exc = NotFoundError"
proof -
  let ?env = "hs_env H n" and ?path = "''/admin/quota/'' @ user"
  let ?exc = "new_error NotFoundError (''No quota override for user '' @ [CHR 0x27] @ user @ [CHR 0x27] @ ''.'') None"
  define rq where rq: "rq = hs_client H ''GET'' ?path (admin_headers H) None"
  have "run_endpoint ?env (Get_Quota user) rq (start_state ?env rq) w = (Inl (Gateway_Exn ?exc), start_state ?env rq, w)"
    using admin_headers_ok [OF H] none
    by (simp add: run_endpoint_def require_admin_def harness_simps [OF H] rq get_quota_def)
  from client_public [OF H quota_routes(4) rq quota_routes(2) [OF user] this]
  obtain e where "client H n ''GET'' ?path (admin_headers H) None w =
      (Inr (outer ?env rq (handle_gateway_error (st_request_id (start_state ?env rq)) ?exc)), schedule_log e w)"
    by metis
  then show thesis by (rule that) (simp add: new_error_def)
qed

lemma client_delete_quota:
  assumes H: "harness_ok H" and user: "user \<noteq> []" "CHR ''/'' \<notin> set user"
  obtains e rq where
    "client H n ''DELETE'' (''/admin/quota/'' @ user) (admin_headers H) None w =
       (Inr (outer (hs_env H n) rq no_content),
        schedule_log e (w\<lparr>w_db := (w_db w)\<lparr>db_quotas := (db_quotas (w_db w))(user := None)\<rparr>\<rparr>))"
proof -
  let ?env = "hs_env H n" and ?path = "''/admin/quota/'' @ user"
  define rq where rq: "rq = hs_client H ''DELETE'' ?path (admin_headers H) None"
  have "run_endpoint ?env (Delete_Quota user) rq (start_state ?env rq) w = (Inr no_content, start_state ?env rq,
      w\<lparr>w_db := (w_db w)\<lparr>db_quotas := (db_quotas (w_db w))(user := None)\<rparr>\<rparr>)"
    using admin_headers_ok [OF H]
    by (simp add: run_endpoint_def require_admin_def harness_simps [OF H] rq delete_quota_def)
  from client_public [OF H quota_routes(4) rq quota_routes(3) [OF user] this]
  show thesis using that by metis
qed

lemma client_health:
  assumes H: "harness_ok H"
  obtains e rq where "client H n ''GET'' ''/health'' headers None w =
    (Inr (outer (hs_env H n) rq (json_response 200 (JObj [(''status'', JStr ''ok'')]) [])), schedule_log e w)"
proof -
  have "run_endpoint (hs_env H n) Health_Route rq st w = (Inr (json_response 200 (JObj [(''status'', JStr ''ok'')]) []), st, w)"
    for rq st by (simp add: run_endpoint_def health_def)
  from client_public [OF H test_routes(2) refl test_routes(1) this] show thesis using that by metis
qed

lemma client_no_key:
  assumes H: "harness_ok H"
    and "\<not> admin_key_ok (hs_settings H) (hs_client H ''GET'' ''/admin/stats'' headers None)"
  obtains r w' where "client H n ''GET'' ''/admin/stats'' headers None w = (Inr r, w')" "rs_status r = 401"
proof -
  let ?env = "hs_env H n"
  define rq where rq: "rq = hs_client H ''GET'' ''/admin/stats'' headers None"
  have "run_endpoint ?env Stats_Route rq (start_state ?env rq) w =
    (Inl (HTTPException 401 ''Invalid or missing admin key.'' [(''WWW-Authenticate'', ''X-Admin-Key'')]), start_state ?env rq, w)"
    using assms(2) by (simp add: run_endpoint_def require_admin_def harness_simps [OF H] rq)
  from client_public [OF H test_routes(6) rq test_routes(5) this]
  obtain e where "client H n ''GET'' ''/admin/stats'' headers None w =
     (Inr (outer ?env rq (json_response 401 (JObj [(''detail'', JStr ''Invalid or missing admin key.'')])
        [(''WWW-Authenticate'', ''X-Admin-Key'')])), schedule_log e w)"
    by metis
  then show thesis by (rule that) simp
qed

lemma client_refused:
  assumes H: "harness_ok H" and path: "\<not> is_public AUTH_PUBLIC_PATH_PREFIXES path"
    and "authenticate (hs_env H n) (hs_client H verb path headers body) = Inl exc"
    and "exc_class exc = InvalidTokenError"
  obtains r w' where "client H n verb path headers body w = (Inr r, w')" "rs_status r = 401"
    "json_path (json_of r) [''error'', ''code''] = Some (JStr ''INVALID_TOKEN'')"
proof -
  define rq where rq: "rq = hs_client H verb path headers body"
  have "rq_path rq = path" by (simp add: rq client_simps [OF H])
  then have "inner (hs_env H n) rq (start_state (hs_env H n) rq) w =
      (Inr (auth_failure_response (start_state (hs_env H n) rq) exc), start_state (hs_env H n) rq, w)"
    using path assms(3)
    by (cases rule: inner_cases [of rq "hs_env H n" "start_state (hs_env H n) rq" w]) (auto simp: rq)
  from client_inner [OF H rq this] obtain e where
    "client H n verb path headers body w =
       (Inr (outer (hs_env H n) rq (auth_failure_response (start_state (hs_env H n) rq) exc)), schedule_log e w)"
    by auto
  then show thesis
    by (rule that)
      (simp_all add: auth_failure_response_def assms(4) json_of_def build_error_response_def status_code_def map_filter_def)
qed

section \<open>They pass\<close>

lemma public_tests_pass:
  assumes H: "harness_ok H"
  shows "test_health_endpoint H w" "test_request_id_header_propagates H w" "test_mint_token H w"
    "test_admin_endpoint_requires_admin_key H w" "test_admin_endpoint_with_wrong_key H w"
proof -
  show "test_health_endpoint H w" "test_request_id_header_propagates H w"
    by (rule client_health [OF H, of 0 "[]" w],
        simp add: test_health_endpoint_def test_request_id_header_propagates_def json_of_def)+
  have "\<not> admin_key_ok (hs_settings H) (hs_client H ''GET'' ''/admin/stats'' [] None)"
    by (simp add: admin_key_ok_def client_simps [OF H])
  then obtain r w' where "client H 0 ''GET'' ''/admin/stats'' [] None w = (Inr r, w')" "rs_status r = 401"
    by (rule client_no_key [OF H])
  then show "test_admin_endpoint_requires_admin_key H w" by (simp add: test_admin_endpoint_requires_admin_key_def)
  have "lower ''X-Admin-Key'' = ''x-admin-key''" by code_simp
  then have "\<not> admin_key_ok (hs_settings H) (hs_client H ''GET'' ''/admin/stats'' [(''X-Admin-Key'', ''definitely-wrong'')] None)"
    using H by (auto simp: admin_key_ok_def client_simps [OF H] harness_ok_def settings_for_tests_def)
  then obtain r w' where "client H 0 ''GET'' ''/admin/stats'' [(''X-Admin-Key'', ''definitely-wrong'')] None w = (Inr r, w')" "rs_status r = 401"
    by (rule client_no_key [OF H])
  then show "test_admin_endpoint_with_wrong_key H w" by (simp add: test_admin_endpoint_with_wrong_key_def)
  let ?body = "JObj [(''user_id'', JStr ''alice''), (''tier'', JStr ''pro'')]" and ?env = "hs_env H 0"
  let ?S = "hs_settings H" and ?J = "hs_jose H" and ?us = "ev_instant (hs_env H 0)"
  have laws: "jose_laws ?J" "jwt_configured ?S" "within_lifetime ?S ?us (?us div 10 ^ 6)"
    using H by (simp_all add: harness_ok_def token_laws_def settings_for_tests_def surroundings_ok_def
        within_lifetime_def jwt_configured_def)
  obtain token where token: "create_access_token ?S ?J ?us ''alice'' ''pro'' None = Inr token"
    by (rule minted_decodes [OF laws])
  then have "\<exists>c. jwt_encode ?J c (jwt_secret ?S) (jwt_algorithm ?S) = Some token"
    by (auto simp: create_access_token_def Let_def split: sum.splits if_splits option.splits)
  then have long: "50 < length token" using H by (auto simp: harness_ok_def token_laws_def)
  have "issue_token ?S ?J ?us ''alice'' ''pro'' = Inr (token, jwt_expire_minutes ?S * 60)"
    by (simp add: issue_token_def token)
  then have "run_endpoint ?env Token_Route (hs_client H ''POST'' ''/auth/token'' [] (Some ?body)) st w =
     (Inr (json_response 200 (token_response token (jwt_expire_minutes ?S * 60)) []), st, w)" for st
    by (simp add: run_endpoint_def with_body_def token_dependencies_def harness_simps [OF H] client_simps [OF H]
        parse_token_request_def mint_token_def)
  from client_public [OF H test_routes(4) refl test_routes(3) this]
  obtain e rq where "client H 0 ''POST'' ''/auth/token'' [] (Some ?body) w =
     (Inr (outer ?env rq (json_response 200 (token_response token (jwt_expire_minutes ?S * 60)) [])), schedule_log e w)"
    by metis
  then show "test_mint_token H w"
    using long laws(2) by (simp add: test_mint_token_def json_of_def token_response_def jwt_configured_def)
qed

lemma error_class_new: "exc_class (new_error c message details) = c"
  by (simp add: new_error_def)

lemma path_get_private: "\<not> is_public AUTH_PUBLIC_PATH_PREFIXES ''/get''"
  by (rule path_get)

lemma auth_tests_pass:
  assumes H: "harness_ok H"
  shows "test_protected_route_without_token_returns_401 H w" "test_protected_route_with_bad_token_returns_401 H w"
proof -
  have "authenticate (hs_env H 0) (hs_client H ''GET'' ''/get'' [] None) =
      Inl (new_error InvalidTokenError ''Missing or malformed Authorization header.'' None)"
    by (simp add: authenticate_def client_simps [OF H] startswith_def)
  then obtain r w' where "client H 0 ''GET'' ''/get'' [] None w = (Inr r, w')" "rs_status r = 401"
    "json_path (json_of r) [''error'', ''code''] = Some (JStr ''INVALID_TOKEN'')"
    by (rule client_refused [OF H path_get_private]) (rule error_class_new)
  then show "test_protected_route_without_token_returns_401 H w"
    unfolding test_protected_route_without_token_returns_401_def by simp
  have "lower ''Authorization'' = ''authorization''" by code_simp
  moreover have "strip ''not-a-jwt'' = ''not-a-jwt''" by code_simp
  moreover have "decode_access_token (hs_settings H) (hs_jose H) now ''not-a-jwt'' =
      Inl (new_error InvalidTokenError ''Token is invalid.'' None)" for now
    using H by (simp add: decode_access_token_def harness_ok_def token_laws_def)
  ultimately have "authenticate (hs_env H 0) (hs_client H ''GET'' ''/get'' (bearer ''not-a-jwt'') None) =
      Inl (new_error InvalidTokenError ''Token is invalid.'' None)"
    by (simp add: authenticate_def client_simps [OF H] harness_simps [OF H] bearer_def startswith_def removeprefix_def)
  then obtain r w' where "client H 0 ''GET'' ''/get'' (bearer ''not-a-jwt'') None w = (Inr r, w')" "rs_status r = 401"
    "json_path (json_of r) [''error'', ''code''] = Some (JStr ''INVALID_TOKEN'')"
    by (rule client_refused [OF H path_get_private]) (rule error_class_new)
  then show "test_protected_route_with_bad_token_returns_401 H w"
    unfolding test_protected_route_with_bad_token_returns_401_def by simp
qed

lemma quota_tests_pass:
  assumes H: "harness_ok H" and w: "w_db w = \<lparr>db_quotas = Map.empty, db_logs = []\<rparr>"
  shows "test_admin_can_set_quota H w" "test_admin_get_missing_quota_returns_404 H w" "test_admin_delete_quota H w"
    "test_rate_limit_headers_on_success H w"
proof -
  have none: "db_quotas (w_db w) u = None" for u by (simp add: w)
  obtain row e rq where
    "client H 0 ''PUT'' (''/admin/quota/'' @ ''alice'') (admin_headers H) (Some (quota_body 500 (Some ''VIP launch boost''))) w =
       (Inr (outer (hs_env H 0) rq (json_response 200 (quota_response (ev_codec (hs_env H 0)) row) [])),
        schedule_log e (w\<lparr>w_db := (w_db w)\<lparr>db_quotas := (db_quotas (w_db w))(''alice'' \<mapsto> row)\<rparr>\<rparr>))"
    "row = \<lparr>q_user_id = ''alice'', q_custom_limit = 500, q_reason = Some ''VIP launch boost'',
            q_created_at = ev_instant (hs_env H 0), q_expires_at = None\<rparr>"
    by (rule client_put_quota [OF H, where n = 0 and w = w and user = "''alice''" and limit = 500
          and reason = "Some ''VIP launch boost''"]) (use none in simp_all)
  then show "test_admin_can_set_quota H w" by (simp add: test_admin_can_set_quota_def json_of_def quota_response_def)
  obtain e rq i exc where
    "client H 0 ''GET'' (''/admin/quota/'' @ ''no_such_user'') (admin_headers H) None w =
       (Inr (outer (hs_env H 0) rq (handle_gateway_error i exc)), schedule_log e w)" "exc_class exc = NotFoundError"
    by (rule client_get_quota [OF H, where n = 0 and w = w and user = "''no_such_user''"]) (use none in simp_all)
  then show "test_admin_get_missing_quota_returns_404 H w"
    by (simp add: test_admin_get_missing_quota_returns_404_def json_of_def handle_gateway_error_def
        build_error_response_def status_code_def map_filter_def)
  obtain row e rq where put:
    "client H 0 ''PUT'' (''/admin/quota/'' @ ''alice'') (admin_headers H) (Some (quota_body 100 None)) w =
       (Inr (outer (hs_env H 0) rq (json_response 200 (quota_response (ev_codec (hs_env H 0)) row) [])),
        schedule_log e (w\<lparr>w_db := (w_db w)\<lparr>db_quotas := (db_quotas (w_db w))(''alice'' \<mapsto> row)\<rparr>\<rparr>))"
    by (rule client_put_quota [OF H, where n = 0 and w = w and user = "''alice''" and limit = 100 and reason = None])
      (use none in simp_all)
  let ?w = "schedule_log e (w\<lparr>w_db := (w_db w)\<lparr>db_quotas := (db_quotas (w_db w))(''alice'' \<mapsto> row)\<rparr>\<rparr>)"
  obtain e' rq' where del:
    "client H 1 ''DELETE'' (''/admin/quota/'' @ ''alice'') (admin_headers H) None ?w =
       (Inr (outer (hs_env H 1) rq' no_content),
        schedule_log e' (?w\<lparr>w_db := (w_db ?w)\<lparr>db_quotas := (db_quotas (w_db ?w))(''alice'' := None)\<rparr>\<rparr>))"
    by (rule client_delete_quota [OF H, where n = 1 and w = ?w and user = "''alice''"]) simp_all
  let ?w' = "schedule_log e' (?w\<lparr>w_db := (w_db ?w)\<lparr>db_quotas := (db_quotas (w_db ?w))(''alice'' := None)\<rparr>\<rparr>)"
  obtain e'' rq'' i exc where gone:
    "client H 2 ''GET'' (''/admin/quota/'' @ ''alice'') (admin_headers H) None ?w' =
       (Inr (outer (hs_env H 2) rq'' (handle_gateway_error i exc)), schedule_log e'' ?w')" "exc_class exc = NotFoundError"
    by (rule client_get_quota [OF H, where n = 2 and w = ?w' and user = "''alice''"]) simp_all
  have "rs_status (handle_gateway_error i exc) = 404"
    by (simp add: handle_gateway_error_def gone(2) status_code_def map_filter_def)
  then show "test_admin_delete_quota H w"
    unfolding test_admin_delete_quota_def
    using put del gone(1) by (simp add: no_content_def)
  have laws: "jose_laws (hs_jose H)" "jwt_configured (hs_settings H)"
    "within_lifetime (hs_settings H) (hs_minted_at H) (ev_decode_at (hs_env H 0))"
    using H by (simp_all add: harness_ok_def token_laws_def settings_for_tests_def surroundings_ok_def)
  obtain token where token: "make_token H ''test_user'' ''free'' = Inr token"
    unfolding make_token_def by (rule minted_decodes [OF laws])
  obtain row e rq where put:
    "client H 0 ''PUT'' (''/admin/quota/'' @ ''test_user'') (admin_headers H) (Some (quota_body 10 (Some ''test''))) w =
       (Inr (outer (hs_env H 0) rq (json_response 200 (quota_response (ev_codec (hs_env H 0)) row) [])),
        schedule_log e (w\<lparr>w_db := (w_db w)\<lparr>db_quotas := (db_quotas (w_db w))(''test_user'' \<mapsto> row)\<rparr>\<rparr>))"
    by (rule client_put_quota [OF H, where n = 0 and w = w and user = "''test_user''" and limit = 10
          and reason = "Some ''test''"]) (use none in simp_all)
  let ?w = "schedule_log e (w\<lparr>w_db := (w_db w)\<lparr>db_quotas := (db_quotas (w_db w))(''test_user'' \<mapsto> row)\<rparr>\<rparr>)"
  obtain e' rq' where "client H 1 ''GET'' ''/health'' (bearer token) None ?w =
      (Inr (outer (hs_env H 1) rq' (json_response 200 (JObj [(''status'', JStr ''ok'')]) [])), schedule_log e' ?w)"
    by (rule client_health [OF H])
  then show "test_rate_limit_headers_on_success H w"
    using put by (simp add: test_rate_limit_headers_on_success_def auth_headers_def token)
qed

end
