(* ===== verification/Limiter_Tests.thy ===== *)
theory Limiter_Tests
  imports Integration_Tests
begin

text \<open>
  The integration tests that reach the limiter: the 429 test of \<open>tests/test_integration.py\<close> and the
  Redis-backed tests of \<open>tests/test_enterprise_throughput.py\<close>. They pass while the limiter's clock
  stands still; two of them fail when it ticks at the wrong moment.
\<close>

section \<open>The tests\<close>

definition test_rate_limit_returns_429_not_500 :: "'r harness \<Rightarrow> 'r world \<Rightarrow> bool" where
  "test_rate_limit_returns_429_not_500 H w =
     asserts (make_token H ''rate_test_user'' ''free'') (\<lambda>token.
     await (client H 0 ''PUT'' ''/admin/quota/rate_test_user'' (admin_headers H) (Some (quota_body 3 (Some ''test''))) w) (\<lambda>_ w.
     await (client H 1 ''GET'' ''/get'' (bearer token) None w) (\<lambda>r w. rs_status r \<noteq> 429 \<and>
     await (client H 2 ''GET'' ''/get'' (bearer token) None w) (\<lambda>r w. rs_status r \<noteq> 429 \<and>
     await (client H 3 ''GET'' ''/get'' (bearer token) None w) (\<lambda>r w. rs_status r \<noteq> 429 \<and>
     await (client H 4 ''GET'' ''/get'' (bearer token) None w) (\<lambda>r w. rs_status r = 429
       \<and> json_path (json_of r) [''error'', ''code''] = Some (JStr ''RATE_LIMITED'')
       \<and> json_path (json_of r) [''error'', ''details'', ''retry_after''] \<noteq> None
       \<and> header r ''retry-after'' \<noteq> None))))))"

definition test_enterprise_header_shows_10000_limit :: "'r harness \<Rightarrow> 'r world \<Rightarrow> bool" where
  "test_enterprise_header_shows_10000_limit H w =
     asserts (make_token H ''ent_user'' ''enterprise'') (\<lambda>token.
     await (client H 0 ''GET'' ''/get'' (bearer token) None w) (\<lambda>r w. rs_status r = 200
       \<and> header r ''X-RateLimit-Limit'' = Some ''10000'' \<and> int_header r ''X-RateLimit-Remaining'' = Some 9999))"

text \<open>An assertion that compares two header fields as integers; a missing field raises.\<close>

definition int_headers :: "(int \<Rightarrow> int \<Rightarrow> bool) \<Rightarrow> response \<Rightarrow> response \<Rightarrow> string \<Rightarrow> bool" where
  "int_headers rel r r' name =
     (case (int_header r name, int_header r' name) of (Some m, Some n) \<Rightarrow> rel m n | _ \<Rightarrow> False)"

definition test_enterprise_remaining_decrements_correctly :: "'r harness \<Rightarrow> 'r world \<Rightarrow> bool" where
  "test_enterprise_remaining_decrements_correctly H w =
     asserts (make_token H ''ent_decrement'' ''enterprise'') (\<lambda>token.
     await (client H 0 ''GET'' ''/get'' (bearer token) None w) (\<lambda>r1 w.
     await (client H 1 ''GET'' ''/get'' (bearer token) None w) (\<lambda>r2 w.
     await (client H 2 ''GET'' ''/get'' (bearer token) None w) (\<lambda>r3 w.
       (case int_header r1 ''X-RateLimit-Remaining'' of Some rem1 \<Rightarrow> rem1 < 10000 | None \<Rightarrow> False)
       \<and> int_headers (\<ge>) r1 r2 ''X-RateLimit-Remaining'' \<and> int_headers (\<ge>) r2 r3 ''X-RateLimit-Remaining''))))"

text \<open>\<open>await test_redis.hset(key, mapping=...)\<close>, past the application.\<close>

definition drain_bucket :: "'r redis_api \<Rightarrow> 'r world \<Rightarrow> 'r world" where
  "drain_bucket R w =
     w\<lparr>w_redis := hset R ''user:ent_exhaust'' ''last_refill'' 9999999999
                   (hset R ''user:ent_exhaust'' ''tokens'' 0 (w_redis w))\<rparr>"

definition test_enterprise_exhaustion_returns_429 :: "'r harness \<Rightarrow> 'r world \<Rightarrow> bool" where
  "test_enterprise_exhaustion_returns_429 H w =
     asserts (make_token H ''ent_exhaust'' ''enterprise'') (\<lambda>token.
     await (client H 0 ''GET'' ''/get'' (bearer token) None (drain_bucket (hs_redis H) w)) (\<lambda>r w.
       rs_status r = 429 \<and> int_header r ''X-RateLimit-Remaining'' = Some 0
       \<and> (case int_header r ''Retry-After'' of Some n \<Rightarrow> 1 \<le> n | None \<Rightarrow> False)))"

definition test_enterprise_limit_higher_than_pro :: "'r harness \<Rightarrow> 'r world \<Rightarrow> bool" where
  "test_enterprise_limit_higher_than_pro H w =
     asserts (make_token H ''ent_cmp'' ''enterprise'') (\<lambda>ent_token.
     asserts (make_token H ''pro_cmp'' ''pro'') (\<lambda>pro_token.
     await (client H 0 ''GET'' ''/get'' (bearer ent_token) None w) (\<lambda>r_ent w.
     await (client H 1 ''GET'' ''/get'' (bearer pro_token) None w) (\<lambda>r_pro w.
       int_header r_ent ''X-RateLimit-Limit'' = Some 10000 \<and> int_header r_pro ''X-RateLimit-Limit'' = Some 1000
       \<and> int_headers (>) r_ent r_pro ''X-RateLimit-Limit''))))"

section \<open>The window of upstream results\<close>

text \<open>Fewer than ten results leave the limits alone.\<close>

definition few_results :: "'r redis_api \<Rightarrow> nat \<Rightarrow> 'r \<Rightarrow> bool" where
  "few_results R k r \<longleftrightarrow> card (dom (zscore R r KEY_SUCCESS)) + card (dom (zscore R r KEY_ERROR)) \<le> k"

lemma few_results_factor:
  assumes "zset_laws R" "few_results R 9 r"
  shows "get_health_factor R dlv now r = 1"
proof -
  have count: "zcount R r key lo \<le> card (dom (zscore R r key))" for key lo
    unfolding zset_lawsD(5) [OF assms(1)] using zset_lawsD(4) [OF assms(1)] by (intro card_mono) auto
  have "zcount R r KEY_SUCCESS lo + zcount R r KEY_ERROR lo < 10" for lo
    using count [of KEY_SUCCESS lo] count [of KEY_ERROR lo] assms(2) by (simp add: few_results_def)
  then show ?thesis by (simp add: get_health_factor_def window_counts_def Let_def)
qed

lemma few_results_record:
  assumes "zset_laws R" "few_results R k r"
  shows "few_results R (Suc k) (record_upstream_result R dlv now success r)"
proof -
  let ?r = "record_upstream_result R dlv now success r"
  let ?key = "if success then KEY_SUCCESS else KEY_ERROR"
  have keys: "KEY_SUCCESS \<noteq> KEY_ERROR" by (simp add: KEY_SUCCESS_def KEY_ERROR_def)
  have sub: "dom (zscore R ?r key) \<subseteq> (if key = ?key then insert now (dom (zscore R r key)) else dom (zscore R r key))" for key
    by (auto simp: record_upstream_result_def record_pipeline_def Let_def zset_lawsD [OF assms(1)]
        split: option.splits if_splits)
  have "card (dom (zscore R ?r key)) \<le> card (dom (zscore R r key)) + (if key = ?key then 1 else 0)" for key
  proof -
    have fin: "finite (dom (zscore R r key))" by (rule zset_lawsD(4) [OF assms(1)])
    have "card (dom (zscore R ?r key)) \<le>
        card (if key = ?key then insert now (dom (zscore R r key)) else dom (zscore R r key))"
      using fin by (intro card_mono sub) auto
    moreover have "card (insert now (dom (zscore R r key))) \<le> Suc (card (dom (zscore R r key)))"
      using fin by (simp add: card_insert_if)
    ultimately show ?thesis by (simp split: if_splits)
  qed
  from this [of KEY_SUCCESS] this [of KEY_ERROR] show ?thesis
    using assms(2) keys by (auto simp: few_results_def split: if_splits)
qed

lemma check_keeps_zsets:
  assumes "zset_laws R" "commands_apart R" "limit_ok limit"
  shows "zscore R (snd (redis_check R Delivered now key limit 60 r)) k m = zscore R r k m"
proof -
  note state = redis_check_state [OF assms(3) window_60]
  have "0 < lua_ttl (of_int limit) (refill_rate limit 60)"
    using refill_rate_pos [OF assms(3) window_60] assms(3) by (intro ttl_pos) (auto simp: limit_ok_def)
  then show ?thesis
    using assms(1,2) unfolding state commands_apart_def
    by (auto simp: token_bucket_lua_def Let_def zset_lawsD split: option.split)
qed

lemma check_keeps_results:
  assumes "zset_laws R" "commands_apart R" "limit_ok limit"
  shows "few_results R k (snd (redis_check R Delivered now key limit 60 r)) \<longleftrightarrow> few_results R k r"
  using check_keeps_zsets [OF assms] by (simp add: few_results_def dom_def)

section \<open>One request for the upstream\<close>

lemma client_token:
  assumes H: "harness_ok H"
  obtains token where "make_token H user tier = Inr token"
    "\<forall>n. authorized (hs_env H n) (hs_client H ''GET'' ''/get'' (bearer token) None) user tier"
proof -
  have laws: "jose_laws (hs_jose H)" "jwt_configured (hs_settings H)"
    "\<And>n. within_lifetime (hs_settings H) (hs_minted_at H) (ev_decode_at (hs_env H n))"
    using H by (simp_all add: harness_ok_def token_laws_def settings_for_tests_def surroundings_ok_def)
  obtain token where token: "make_token H user tier = Inr token"
    unfolding make_token_def by (rule minted_decodes [OF laws])
  then have "\<exists>c. jwt_encode (hs_jose H) c (jwt_secret (hs_settings H)) (jwt_algorithm (hs_settings H)) = Some token"
    by (auto simp: make_token_def create_access_token_def Let_def split: sum.splits if_splits option.splits)
  then have strip: "strip token = token" using H by (auto simp: harness_ok_def token_laws_def)
  have auth: "lower ''Authorization'' = ''authorization''" by code_simp
  have "authorized (hs_env H n) (hs_client H ''GET'' ''/get'' (bearer token) None) user tier" for n
  proof -
    obtain c where "decode_access_token (hs_settings H) (hs_jose H) (ev_decode_at (hs_env H n)) token = Inr c"
      "cl_sub c = Some user" "cl_tier c = Some tier"
      using token unfolding make_token_def
      by (cases rule: minted_decodes [OF laws(1,2) laws(3) [of n], where user_id = user and tier = tier]) auto
    then show ?thesis
      using path_get_private
      by (simp add: authorized_def authenticate_def client_simps [OF H] harness_simps [OF H] bearer_def auth
          strip startswith_def removeprefix_def Let_def)
  qed
  with token show thesis by (intro that allI)
qed

lemma verdict_limit:
  assumes H: "harness_ok H" and few: "few_results (hs_redis H) 9 (w_redis w)"
    and limit: "resolve_limit (hs_settings H) (ev_instant (hs_env H n)) (w_db w) user tier = limit" "limit_ok limit"
  shows "verdict (hs_env H n) user tier w =
    redis_check (hs_redis H) Delivered (ev_epoch (hs_env H n)) (user_key user) limit 60 (w_redis w)"
proof -
  have "zset_laws (hs_redis H)" using H by (simp add: harness_ok_def)
  from few_results_factor [OF this few] have "get_health_factor (hs_redis H) dlv now (w_redis w) = 1" for dlv now .
  moreover have "effective_limit limit 1 = limit"
    using limit(2) by (simp add: effective_limit_full limit_ok_def)
  ultimately show ?thesis
    by (simp add: verdict_def check_rate_limit_def harness_simps [OF H] limit(1))
qed

text \<open>What the proxy leaves of the world.\<close>

lemma proxy_world:
  assumes "zset_laws (ev_redis env)"
  shows "w_db (final (proxy env path rq st w)) = w_db w"
    and "few_results (ev_redis env) k (w_redis w) \<Longrightarrow>
      few_results (ev_redis env) (Suc k) (w_redis (final (proxy env path rq st w)))"
    and "cb_state (w_breaker w) = CLOSED \<Longrightarrow> ev_upstream env (upstream_call (ev_settings env) path rq) = Returns ur \<Longrightarrow>
      cb_state (w_breaker (final (proxy env path rq st w))) = CLOSED"
proof -
  obtain adm b where adm: "cb_admit (ev_admit_at env) (w_breaker w) = (adm, b)" by fastforce
  show "w_db (final (proxy env path rq st w)) = w_db w"
    using proxy_fields(2) [of env path rq st w] by (simp add: final_def)
  have more: "few_results R k r \<Longrightarrow> few_results R (Suc k) r" for R :: "'a redis_api" and k r by (simp add: few_results_def)
  show "few_results (ev_redis env) (Suc k) (w_redis (final (proxy env path rq st w)))"
    if "few_results (ev_redis env) k (w_redis w)"
    using few_results_record [OF assms that] more [OF that] adm
    by (cases adm) (simp_all add: proxy_rejected proxy_admitted record_result_def Let_def
        split: func_end.split http_exc.split)
  show "cb_state (w_breaker (final (proxy env path rq st w))) = CLOSED"
    if "cb_state (w_breaker w) = CLOSED" "ev_upstream env (upstream_call (ev_settings env) path rq) = Returns ur"
  proof -
    have "cb_admit (ev_admit_at env) (w_breaker w) = (True, w_breaker w)" using that(1) by (simp add: cb_admit_def)
    from proxy_admitted [OF this refl, of path rq st] show ?thesis using that by (simp add: Let_def cb_success_def)
  qed
qed

lemma routes_get:
  assumes "rq_method rq = ''GET''" "rq_path rq = ''/get''"
  shows "routes env rq = exception_handlers env (proxy env ''get'') rq"
  using assms path_get(3)
  by (simp add: fun_eq_iff routes_def exception_handlers_def router_def run_endpoint_def)

lemma proxy_status:
  assumes "client_status (ev_upstream env (upstream_call (ev_settings env) path rq)) = Some s"
  obtains rs where "fst (exception_handlers env (proxy env path) rq st w) = Inr rs"
    "cb_state (w_breaker w) = CLOSED \<longrightarrow> rs_status rs = s" "rs_status rs \<in> {s, 502}"
proof -
  obtain adm b where adm: "cb_admit (ev_admit_at env) (w_breaker w) = (adm, b)" by fastforce
  show thesis
  proof (cases adm)
    case False
    then have "cb_state (w_breaker w) \<noteq> CLOSED" using adm by (auto simp: cb_admit_def)
    then show thesis
      using adm False that
      by (simp add: exception_handlers_def proxy_rejected new_error_def handle_gateway_error_def status_code_def map_filter_def)
  next
    case True
    with assms adm that show thesis
      by (auto simp: exception_handlers_def proxy_admitted client_status_def Let_def new_error_def
          handle_gateway_error_def proxied_response_def status_code_def map_filter_def
          split: func_end.splits http_exc.splits)
  qed
qed

text \<open>A request the limiter allows: the response, and what the next request finds.\<close>

lemma client_granted:
  assumes H: "harness_ok H"
    and rq: "rq = hs_client H ''GET'' ''/get'' headers None" "authorized (hs_env H n) rq user tier"
    and v: "verdict (hs_env H n) user tier w = (Inr result, r)" "lr_allowed result"
    and up: "client_status (ev_upstream (hs_env H n) (upstream_call (hs_settings H) ''get'' rq)) = Some s"
  obtains rs w' where
    "client H n ''GET'' ''/get'' headers None w = (Inr (outer (hs_env H n) rq (add_limit_headers result rs)), w')"
    "cb_state (w_breaker w) = CLOSED \<longrightarrow> rs_status rs = s" "rs_status rs \<in> {s, 502}"
    "w_db w' = w_db w" "hash_eq (hs_redis H) r (w_redis w')"
    "\<forall>k. few_results (hs_redis H) k r \<longrightarrow> few_results (hs_redis H) (Suc k) (w_redis w')"
    "\<forall>ur. cb_state (w_breaker w) = CLOSED \<longrightarrow>
       ev_upstream (hs_env H n) (upstream_call (hs_settings H) ''get'' rq) = Returns ur \<longrightarrow> cb_state (w_breaker w') = CLOSED"
proof -
  let ?env = "hs_env H n" and ?R = "hs_redis H"
  let ?w = "w\<lparr>w_redis := r, w_allowed := inc_counter tier (w_allowed w)\<rparr>" and ?st = "user_state ?env rq user tier result"
  have R: "hash_laws ?R" "zset_laws ?R" "separate_laws ?R" using H by (simp_all add: harness_ok_def)
  note sim = harness_simps [OF H]
  have get: "routes ?env rq = exception_handlers ?env (proxy ?env ''get'') rq"
    by (rule routes_get) (simp_all add: rq(1) client_simps [OF H])
  note in_eq = inner_allowed [OF rq(2) sim(4) v]
  have "client_status (ev_upstream ?env (upstream_call (ev_settings ?env) ''get'' rq)) = Some s"
    using up by (simp add: sim)
  then obtain rs where rs: "fst (routes ?env rq ?st ?w) = Inr rs"
    "cb_state (w_breaker ?w) = CLOSED \<longrightarrow> rs_status rs = s" "rs_status rs \<in> {s, 502}"
    unfolding get by (rule proxy_status [where st = ?st and w = ?w])
  obtain st1 w1 where run: "routes ?env rq ?st ?w = (Inr rs, st1, w1)" using rs(1) by (metis prod.collapse)
  then have w1: "w1 = final (proxy ?env ''get'' rq ?st ?w)"
    unfolding get using final_exception_handlers [of ?env "proxy ?env ''get''" rq ?st ?w] by (simp add: final_def)
  have "inner ?env rq (start_state ?env rq) w = (Inr (add_limit_headers result rs), st1, w1)"
    using in_eq run by simp
  from client_inner [OF H rq(1) this] obtain e where
    c: "client H n ''GET'' ''/get'' headers None w = (Inr (outer ?env rq (add_limit_headers result rs)), schedule_log e w1)"
    by auto
  have hash: "hash_eq ?R (w_redis ?w) (w_redis w1)"
    using proxy_hash_eq [of ?env ?w "''get''" rq ?st] R by (simp add: sim w1)
  note world = proxy_world [where env = ?env and path = "''get''" and rq = rq and st = ?st and w = ?w,
      folded w1, unfolded sim, OF R(2)]
  show thesis
    by (rule that [OF c]) (use rs(2,3) world hash in simp_all)
qed

text \<open>And one it denies.\<close>

lemma client_denied:
  assumes H: "harness_ok H"
    and rq: "rq = hs_client H ''GET'' ''/get'' headers None" "authorized (hs_env H n) rq user tier"
    and v: "verdict (hs_env H n) user tier w = (Inr result, r)" "\<not> lr_allowed result"
  obtains rs w' where "client H n ''GET'' ''/get'' headers None w = (Inr rs, w')" "rs_status rs = 429"
    "json_path (json_of rs) [''error'', ''code''] = Some (JStr ''RATE_LIMITED'')"
    "json_path (json_of rs) [''error'', ''details'', ''retry_after''] = Some (JInt (lr_retry_after result))"
    "header rs ''retry-after'' = Some (int_str (lr_retry_after result))"
    "header rs ''Retry-After'' = Some (int_str (lr_retry_after result))"
    "header rs ''X-RateLimit-Remaining'' = Some ''0''"
proof -
  let ?env = "hs_env H n"
  have low: "lower ''retry-after'' = ''retry-after''" by code_simp
  note in_eq = inner_limited [OF rq(2) harness_simps(4) [OF H] v]
  from client_inner [OF H rq(1) in_eq] obtain e where
    "client H n ''GET'' ''/get'' headers None w = (Inr (outer ?env rq (limited_response (start_state ?env rq) result)),
       schedule_log e (w\<lparr>w_redis := r, w_limited := inc_counter tier (w_limited w)\<rparr>))"
    by auto
  then show thesis
    by (rule that)
      (simp_all add: limited_response_def limit_exceeded_def new_error_def json_of_def build_error_response_def
        status_code_def map_filter_def hdr_simps lower_names low outer_names_def)
qed

section \<open>Requests at one instant\<close>

text \<open>The upstream answers, whatever it answers (but not with 429 itself); or it answers 200.\<close>

definition upstream_reachable :: "'r harness \<Rightarrow> bool" where
  "upstream_reachable H \<longleftrightarrow> (\<forall>n call. \<exists>s. client_status (ev_upstream (hs_env H n) call) = Some s \<and> s \<noteq> 429)"

definition upstream_ok :: "'r harness \<Rightarrow> bool" where
  "upstream_ok H \<longleftrightarrow> (\<forall>n call. \<exists>ur. ev_upstream (hs_env H n) call = Returns ur \<and> ur_status ur = 200)"

lemma upstream_ok_reachable:
  assumes "upstream_ok H"
  shows "upstream_reachable H"
  unfolding upstream_reachable_def
proof (intro allI)
  fix n call
  obtain ur where "ev_upstream (hs_env H n) call = Returns ur" "ur_status ur = 200"
    using assms unfolding upstream_ok_def by blast
  then show "\<exists>s. client_status (ev_upstream (hs_env H n) call) = Some s \<and> s \<noteq> 429"
    by (simp add: client_status_def)
qed

text \<open>The user has \<open>k\<close> whole tokens at \<open>t\<close>, of a limit that stays; the window holds at most \<open>j\<close> results.\<close>

definition ready_for :: "'r harness \<Rightarrow> string \<Rightarrow> string \<Rightarrow> int \<Rightarrow> nat \<Rightarrow> int \<Rightarrow> nat \<Rightarrow> 'r world \<Rightarrow> bool" where
  "ready_for H user tier limit k t j w \<longleftrightarrow> limit_ok limit \<and> j \<le> 9
   \<and> whole_tokens (hs_redis H) (user_key user) limit k t (w_redis w) \<and> few_results (hs_redis H) j (w_redis w)
   \<and> (\<forall>now. resolve_limit (hs_settings H) now (w_db w) user tier = limit)"

lemma client_check:
  assumes H: "harness_ok H" "upstream_reachable H"
    and auth: "authorized (hs_env H n) (hs_client H ''GET'' ''/get'' headers None) user tier"
    and ready: "few_results (hs_redis H) j (w_redis w)" "j \<le> 9" "limit_ok limit"
    "\<And>now. resolve_limit (hs_settings H) now (w_db w) user tier = limit"
    and check: "redis_check (hs_redis H) Delivered (ev_epoch (hs_env H n)) (user_key user) limit 60 (w_redis w) =
      (Inr \<lparr>lr_allowed = True, lr_limit = limit, lr_remaining = left, lr_retry_after = wt, lr_degraded = False\<rparr>, r)"
  obtains rs w' where "client H n ''GET'' ''/get'' headers None w = (Inr rs, w')" "rs_status rs \<noteq> 429"
    "header rs ''X-RateLimit-Limit'' = Some (int_str limit)" "header rs ''X-RateLimit-Remaining'' = Some (int_str left)"
    "w_db w' = w_db w" "hash_eq (hs_redis H) r (w_redis w')" "few_results (hs_redis H) (Suc j) (w_redis w')"
    "upstream_ok H \<longrightarrow> cb_state (w_breaker w) = CLOSED \<longrightarrow> rs_status rs = 200 \<and> cb_state (w_breaker w') = CLOSED"
proof -
  define rq where rq: "rq = hs_client H ''GET'' ''/get'' headers None"
  let ?env = "hs_env H n" and ?call = "upstream_call (hs_settings H) ''get'' rq"
  let ?result = "\<lparr>lr_allowed = True, lr_limit = limit, lr_remaining = left, lr_retry_after = wt, lr_degraded = False\<rparr>"
  obtain s where s: "client_status (ev_upstream ?env ?call) = Some s" "s \<noteq> 429"
    using H(2) unfolding upstream_reachable_def by blast
  have laws: "zset_laws (hs_redis H)" "commands_apart (hs_redis H)" using H(1) by (simp_all add: harness_ok_def)
  have "few_results (hs_redis H) 9 (w_redis w)" using ready(1,2) by (simp add: few_results_def)
  from verdict_limit [OF H(1) this ready(4,3)] have v: "verdict ?env user tier w = (Inr ?result, r)" by (simp add: check)
  have few: "few_results (hs_redis H) j r" using check_keeps_results [OF laws ready(3)] ready(1) check by (metis snd_conv)
  have "lr_allowed ?result" by simp
  then obtain rs w' where
    c: "client H n ''GET'' ''/get'' headers None w = (Inr (outer ?env rq (add_limit_headers ?result rs)), w')"
    and st: "cb_state (w_breaker w) = CLOSED \<longrightarrow> rs_status rs = s" "rs_status rs \<in> {s, 502}"
    and w': "w_db w' = w_db w" "hash_eq (hs_redis H) r (w_redis w')"
    "\<forall>k. few_results (hs_redis H) k r \<longrightarrow> few_results (hs_redis H) (Suc k) (w_redis w')"
    "\<forall>ur. cb_state (w_breaker w) = CLOSED \<longrightarrow> ev_upstream ?env ?call = Returns ur \<longrightarrow> cb_state (w_breaker w') = CLOSED"
    by (rule client_granted [OF H(1) rq auth [folded rq] v _ s(1)])
  have ok: "rs_status rs = 200 \<and> cb_state (w_breaker w') = CLOSED" if "upstream_ok H" "cb_state (w_breaker w) = CLOSED"
  proof -
    obtain ur where "ev_upstream ?env ?call = Returns ur" "ur_status ur = 200"
      using \<open>upstream_ok H\<close> unfolding upstream_ok_def by blast
    then show ?thesis using st(1) w'(4) s(1) that(2) by (simp add: client_status_def)
  qed
  show thesis
  proof (rule that [OF c])
    show "rs_status (outer ?env rq (add_limit_headers ?result rs)) \<noteq> 429" using st(2) s(2) by (auto simp: header_limits)
    show "header (outer ?env rq (add_limit_headers ?result rs)) ''X-RateLimit-Limit'' = Some (int_str limit)"
      "header (outer ?env rq (add_limit_headers ?result rs)) ''X-RateLimit-Remaining'' = Some (int_str left)"
      by (simp_all add: header_limits lower_names outer_names_def)
  qed (use w' few ok in \<open>simp_all add: header_limits\<close>)
qed

lemma redis_check_other:
  assumes "hash_laws R" "limit_ok limit" "window_ok window" "key' \<noteq> key"
  shows "hget R (snd (redis_check R Delivered now key limit window r)) key' f = hget R r key' f"
proof -
  have "0 < lua_ttl (of_int limit) (refill_rate limit window)"
    using refill_rate_pos [OF assms(2,3)] assms(2) by (intro ttl_pos) (auto simp: limit_ok_def)
  then show ?thesis using script_other_keys [OF assms(1) _ assms(4)] by (simp add: redis_check_state [OF assms(2,3)])
qed

lemma granted_step:
  assumes H: "harness_ok H" "upstream_reachable H"
    and auth: "authorized (hs_env H n) (hs_client H ''GET'' ''/get'' headers None) user tier"
    and ready: "ready_for H user tier limit (Suc k) t j w" "j < 9" and t: "ev_epoch (hs_env H n) = t"
  obtains rs w' where "client H n ''GET'' ''/get'' headers None w = (Inr rs, w')" "rs_status rs \<noteq> 429"
    "header rs ''X-RateLimit-Limit'' = Some (int_str limit)" "header rs ''X-RateLimit-Remaining'' = Some (int_str (int k))"
    "ready_for H user tier limit k t (Suc j) w'"
    "\<forall>user' tier' limit' k' t'. user' \<noteq> user \<longrightarrow> ready_for H user' tier' limit' k' t' j w \<longrightarrow>
       ready_for H user' tier' limit' k' t' (Suc j) w'"
    "upstream_ok H \<longrightarrow> cb_state (w_breaker w) = CLOSED \<longrightarrow> rs_status rs = 200 \<and> cb_state (w_breaker w') = CLOSED"
proof -
  have r: "few_results (hs_redis H) j (w_redis w)" "j \<le> 9" "limit_ok limit"
    "\<And>now. resolve_limit (hs_settings H) now (w_db w) user tier = limit"
    and tok: "whole_tokens (hs_redis H) (user_key user) limit (Suc k) t (w_redis w)"
    using ready by (simp_all add: ready_for_def)
  have laws: "hash_laws (hs_redis H)" "window_ok 60" "sane_clock t"
    using H(1) harness_simps(6) [OF H(1), of n] t by (simp_all add: harness_ok_def window_ok_def)
  then obtain wt r' where
    "redis_check (hs_redis H) Delivered t (user_key user) limit 60 (w_redis w) =
      (Inr \<lparr>lr_allowed = (1 \<le> Suc k), lr_limit = limit, lr_remaining = int (Suc k - 1), lr_retry_after = wt, lr_degraded = False\<rparr>, r')"
    and "whole_tokens (hs_redis H) (user_key user) limit (Suc k - 1) t r'"
    using r(3) tok by (blast elim: whole_tokens_check)
  then have check: "redis_check (hs_redis H) Delivered t (user_key user) limit 60 (w_redis w) =
      (Inr \<lparr>lr_allowed = True, lr_limit = limit, lr_remaining = int k, lr_retry_after = wt, lr_degraded = False\<rparr>, r')"
    and left: "whole_tokens (hs_redis H) (user_key user) limit k t r'"
    by simp_all
  obtain rs w' where
    c: "client H n ''GET'' ''/get'' headers None w = (Inr rs, w')" "rs_status rs \<noteq> 429"
    "header rs ''X-RateLimit-Limit'' = Some (int_str limit)" "header rs ''X-RateLimit-Remaining'' = Some (int_str (int k))"
    and w': "w_db w' = w_db w" "hash_eq (hs_redis H) r' (w_redis w')" "few_results (hs_redis H) (Suc j) (w_redis w')"
    and ok: "upstream_ok H \<longrightarrow> cb_state (w_breaker w) = CLOSED \<longrightarrow> rs_status rs = 200 \<and> cb_state (w_breaker w') = CLOSED"
    by (rule client_check [OF H auth r check [folded t]])
  have "ready_for H user tier limit k t (Suc j) w'"
    using r ready(2) left w' by (simp add: ready_for_def whole_tokens_def hash_eq_def)
  moreover have "ready_for H user' tier' limit' k' t' (Suc j) w'"
    if "user' \<noteq> user" "ready_for H user' tier' limit' k' t' j w" for user' tier' limit' k' t'
  proof -
    have "hget (hs_redis H) r' (user_key user') f = hget (hs_redis H) (w_redis w) (user_key user') f" for f
      using redis_check_other [OF laws(1) r(3) laws(2), of "user_key user'" "user_key user" t "w_redis w" f] that(1)
      by (simp add: check)
    then show ?thesis using that(2) ready(2) w' by (simp add: ready_for_def whole_tokens_def hash_eq_def)
  qed
  ultimately show thesis using ok by (intro that [OF c]) blast+
qed

lemma denied_step:
  assumes H: "harness_ok H"
    and auth: "authorized (hs_env H n) (hs_client H ''GET'' ''/get'' headers None) user tier"
    and ready: "ready_for H user tier limit 0 t j w" and t: "ev_epoch (hs_env H n) = t"
  obtains rs w' where "client H n ''GET'' ''/get'' headers None w = (Inr rs, w')" "rs_status rs = 429"
    "json_path (json_of rs) [''error'', ''code''] = Some (JStr ''RATE_LIMITED'')"
    "json_path (json_of rs) [''error'', ''details'', ''retry_after''] \<noteq> None" "header rs ''retry-after'' \<noteq> None"
proof -
  have few: "few_results (hs_redis H) 9 (w_redis w)" and ok: "limit_ok limit"
    and limit: "resolve_limit (hs_settings H) (ev_instant (hs_env H n)) (w_db w) user tier = limit"
    and tok: "whole_tokens (hs_redis H) (user_key user) limit 0 t (w_redis w)"
    using ready by (simp_all add: ready_for_def few_results_def)
  have "hash_laws (hs_redis H)" "window_ok 60" "sane_clock t"
    using H(1) harness_simps(6) [OF H, of n] t by (simp_all add: harness_ok_def window_ok_def)
  then obtain wt r' where
    "redis_check (hs_redis H) Delivered t (user_key user) limit 60 (w_redis w) =
      (Inr \<lparr>lr_allowed = (1 \<le> (0 :: nat)), lr_limit = limit, lr_remaining = int (0 - 1), lr_retry_after = wt, lr_degraded = False\<rparr>, r')"
    using ok tok by (blast elim: whole_tokens_check)
  then have v: "verdict (hs_env H n) user tier w =
      (Inr \<lparr>lr_allowed = False, lr_limit = limit, lr_remaining = 0, lr_retry_after = wt, lr_degraded = False\<rparr>, r')"
    using verdict_limit [OF H few limit ok] by (simp add: t)
  from client_denied [OF H refl auth v] show thesis using that by (metis LimitResult.select_convs(1) option.distinct(1))
qed

section \<open>They pass while the clock stands still\<close>

lemma ready_fresh:
  assumes "clean_stores (hs_redis H) w" "limit_ok limit" "tier_default (hs_settings H) tier = limit"
  shows "ready_for H user tier limit (nat limit) t 0 w"
  using assms
  by (simp add: ready_for_def clean_stores_def whole_tokens_def few_results_def resolve_limit_def lookup_override_def
      limit_ok_def dom_def)

lemma tier_limits:
  assumes "harness_ok H"
  shows "tier_default (hs_settings H) ''enterprise'' = 10000" "tier_default (hs_settings H) ''pro'' = 1000"
  using assms by (simp_all add: tier_default_def harness_ok_def settings_for_tests_def)

lemma three_requests:
  assumes H: "harness_ok H" "upstream_reachable H" and w: "clean_stores (hs_redis H) w"
    and clock: "\<forall>n\<in>{1..3}. ev_epoch (hs_env H n) = t"
    and auth: "\<forall>n. authorized (hs_env H n) (hs_client H ''GET'' ''/get'' (bearer token) None) ''rate_test_user'' ''free''"
  obtains r0 w0 r1 w1 r2 w2 r3 w3 where
    "client H 0 ''PUT'' ''/admin/quota/rate_test_user'' (admin_headers H) (Some (quota_body 3 (Some ''test''))) w = (Inr r0, w0)"
    "client H 1 ''GET'' ''/get'' (bearer token) None w0 = (Inr r1, w1)" "rs_status r1 \<noteq> 429"
    "client H 2 ''GET'' ''/get'' (bearer token) None w1 = (Inr r2, w2)" "rs_status r2 \<noteq> 429"
    "client H 3 ''GET'' ''/get'' (bearer token) None w2 = (Inr r3, w3)" "rs_status r3 \<noteq> 429"
    "ready_for H ''rate_test_user'' ''free'' 3 0 t 3 w3"
proof -
  let ?user = "''rate_test_user''"
  obtain row e rq where put:
    "client H 0 ''PUT'' (''/admin/quota/'' @ ?user) (admin_headers H) (Some (quota_body 3 (Some ''test''))) w =
       (Inr (outer (hs_env H 0) rq (json_response 200 (quota_response (ev_codec (hs_env H 0)) row) [])),
        schedule_log e (w\<lparr>w_db := (w_db w)\<lparr>db_quotas := (db_quotas (w_db w))(?user \<mapsto> row)\<rparr>\<rparr>))"
    and row: "row = \<lparr>q_user_id = ?user, q_custom_limit = 3, q_reason = Some ''test'',
            q_created_at = ev_instant (hs_env H 0), q_expires_at = None\<rparr>"
    by (rule client_put_quota [OF H(1), where n = 0 and w = w and user = ?user and limit = 3
          and reason = "Some ''test''"]) (use w in \<open>simp_all add: clean_stores_def\<close>)
  define w0 where "w0 = schedule_log e (w\<lparr>w_db := (w_db w)\<lparr>db_quotas := (db_quotas (w_db w))(?user \<mapsto> row)\<rparr>\<rparr>)"
  have "ready_for H ?user ''free'' 3 (Suc 2) t 0 w0"
    using w by (simp add: ready_for_def clean_stores_def whole_tokens_def few_results_def resolve_limit_def
        lookup_override_def limit_ok_def dom_def row w0_def)
  then obtain r1 w1 where c1: "client H 1 ''GET'' ''/get'' (bearer token) None w0 = (Inr r1, w1)" "rs_status r1 \<noteq> 429"
    "ready_for H ?user ''free'' 3 2 t 1 w1"
    by (rule granted_step [OF H auth [THEN spec, of 1]]) (use clock in simp_all)
  then have "ready_for H ?user ''free'' 3 (Suc 1) t 1 w1" by (simp add: numeral_2_eq_2)
  then obtain r2 w2 where c2: "client H 2 ''GET'' ''/get'' (bearer token) None w1 = (Inr r2, w2)" "rs_status r2 \<noteq> 429"
    "ready_for H ?user ''free'' 3 1 t 2 w2"
    by (rule granted_step [OF H auth [THEN spec, of 2]]) (use clock in \<open>simp_all add: numeral_2_eq_2\<close>)
  then have "ready_for H ?user ''free'' 3 (Suc 0) t 2 w2" by simp
  then obtain r3 w3 where c3: "client H 3 ''GET'' ''/get'' (bearer token) None w2 = (Inr r3, w3)" "rs_status r3 \<noteq> 429"
    "ready_for H ?user ''free'' 3 0 t 3 w3"
    by (rule granted_step [OF H auth [THEN spec, of 3]]) (use clock in \<open>simp_all add: numeral_3_eq_3\<close>)
  have "\<exists>r0. client H 0 ''PUT'' ''/admin/quota/rate_test_user'' (admin_headers H) (Some (quota_body 3 (Some ''test''))) w = (Inr r0, w0)"
    using put [folded w0_def] by simp
  then obtain r0 where c0:
    "client H 0 ''PUT'' ''/admin/quota/rate_test_user'' (admin_headers H) (Some (quota_body 3 (Some ''test''))) w = (Inr r0, w0)" ..
  show thesis by (rule that [OF c0 c1(1,2) c2(1,2) c3])
qed

lemma rate_limit_test_passes:
  assumes H: "harness_ok H" "upstream_reachable H" and w: "clean_stores (hs_redis H) w"
    and clock: "\<forall>n\<in>{1..4}. ev_epoch (hs_env H n) = t"
  shows "test_rate_limit_returns_429_not_500 H w"
proof -
  let ?user = "''rate_test_user''"
  obtain token where token: "make_token H ?user ''free'' = Inr token"
    and auth: "\<forall>n. authorized (hs_env H n) (hs_client H ''GET'' ''/get'' (bearer token) None) ?user ''free''"
    by (rule client_token [OF H(1)])
  have t: "\<forall>n\<in>{1..3}. ev_epoch (hs_env H n) = t" using clock by simp
  obtain r0 w0 r1 w1 r2 w2 r3 w3 where run:
    "client H 0 ''PUT'' ''/admin/quota/rate_test_user'' (admin_headers H) (Some (quota_body 3 (Some ''test''))) w = (Inr r0, w0)"
    "client H 1 ''GET'' ''/get'' (bearer token) None w0 = (Inr r1, w1)" "rs_status r1 \<noteq> 429"
    "client H 2 ''GET'' ''/get'' (bearer token) None w1 = (Inr r2, w2)" "rs_status r2 \<noteq> 429"
    "client H 3 ''GET'' ''/get'' (bearer token) None w2 = (Inr r3, w3)" "rs_status r3 \<noteq> 429"
    "ready_for H ?user ''free'' 3 0 t 3 w3"
    by (rule three_requests [OF H w t auth])
  obtain r4 w4 where c4: "client H 4 ''GET'' ''/get'' (bearer token) None w3 = (Inr r4, w4)" "rs_status r4 = 429"
    "json_path (json_of r4) [''error'', ''code''] = Some (JStr ''RATE_LIMITED'')"
    "json_path (json_of r4) [''error'', ''details'', ''retry_after''] \<noteq> None" "header r4 ''retry-after'' \<noteq> None"
    by (rule denied_step [OF H(1) auth [THEN spec, of 4] run(8)]) (use clock in simp_all)
  show ?thesis
    unfolding test_rate_limit_returns_429_not_500_def token asserts_simps run(1,2,4,6) await_simps c4(1)
    using run(3,5,7) c4(2-5) by blast
qed

lemma int_str_10000: "int_str 10000 = ''10000''"
proof -
  have step: "nat_str n = nat_str (n div 10) @ [char_of (48 + n mod 10)]" if "10 \<le> n" for n
    using that by (simp add: nat_str.simps [of n])
  have "nat_str 1 = [char_of (49 :: nat)]" using nat_str.simps [of 1] by simp
  then have "nat_str 10000 = map char_of [49, 48, 48, 48, 48 :: nat]"
    using step [of 10000] step [of 1000] step [of 100] step [of 10] by simp
  then show ?thesis by (simp add: int_str_def char_of_def bit_Suc_0_iff)
qed

lemma enterprise_header_test_passes:
  assumes H: "harness_ok H" "upstream_ok H" and w: "clean_stores (hs_redis H) w" "cb_state (w_breaker w) = CLOSED"
  shows "test_enterprise_header_shows_10000_limit H w"
proof -
  obtain token where token: "make_token H ''ent_user'' ''enterprise'' = Inr token"
    and auth: "\<forall>n. authorized (hs_env H n) (hs_client H ''GET'' ''/get'' (bearer token) None) ''ent_user'' ''enterprise''"
    by (rule client_token [OF H(1)])
  note start = ready_fresh [OF w(1) _ tier_limits(1) [OF H(1)], of "''ent_user''" "ev_epoch (hs_env H 0)"]
  have "ready_for H ''ent_user'' ''enterprise'' 10000 (Suc 9999) (ev_epoch (hs_env H 0)) 0 w"
    using start by (simp add: limit_ok_def)
  then obtain r w' where "client H 0 ''GET'' ''/get'' (bearer token) None w = (Inr r, w')"
    "header r ''X-RateLimit-Limit'' = Some (int_str 10000)" "header r ''X-RateLimit-Remaining'' = Some (int_str (int 9999))"
    "upstream_ok H \<longrightarrow> cb_state (w_breaker w) = CLOSED \<longrightarrow> rs_status r = 200 \<and> cb_state (w_breaker w') = CLOSED"
    by (rule granted_step [OF H(1) upstream_ok_reachable [OF H(2)] auth [THEN spec, of 0]]) simp_all
  then show ?thesis
    using H(2) w(2) by (simp add: test_enterprise_header_shows_10000_limit_def token int_header_def int_str_10000)
qed

lemma enterprise_pro_test_passes:
  assumes H: "harness_ok H" "upstream_reachable H" and w: "clean_stores (hs_redis H) w"
  shows "test_enterprise_limit_higher_than_pro H w"
proof -
  obtain token where token: "make_token H ''ent_cmp'' ''enterprise'' = Inr token"
    and auth: "\<forall>n. authorized (hs_env H n) (hs_client H ''GET'' ''/get'' (bearer token) None) ''ent_cmp'' ''enterprise''"
    by (rule client_token [OF H(1)])
  obtain token' where token': "make_token H ''pro_cmp'' ''pro'' = Inr token'"
    and auth': "\<forall>n. authorized (hs_env H n) (hs_client H ''GET'' ''/get'' (bearer token') None) ''pro_cmp'' ''pro''"
    by (rule client_token [OF H(1)])
  have ent: "ready_for H ''ent_cmp'' ''enterprise'' 10000 (Suc 9999) (ev_epoch (hs_env H 0)) 0 w"
    using ready_fresh [OF w(1) _ tier_limits(1) [OF H(1)], of "''ent_cmp''" "ev_epoch (hs_env H 0)"] by (simp add: limit_ok_def)
  have pro: "ready_for H ''pro_cmp'' ''pro'' 1000 (Suc 999) (ev_epoch (hs_env H 1)) 0 w"
    using ready_fresh [OF w(1) _ tier_limits(2) [OF H(1)], of "''pro_cmp''" "ev_epoch (hs_env H 1)"] by (simp add: limit_ok_def)
  obtain r w' where c1: "client H 0 ''GET'' ''/get'' (bearer token) None w = (Inr r, w')"
    "header r ''X-RateLimit-Limit'' = Some (int_str 10000)"
    and keep: "\<forall>user' tier' limit' k' t'. user' \<noteq> ''ent_cmp'' \<longrightarrow> ready_for H user' tier' limit' k' t' 0 w \<longrightarrow>
       ready_for H user' tier' limit' k' t' (Suc 0) w'"
    by (rule granted_step [OF H auth [THEN spec, of 0] ent]) simp_all
  have "ready_for H ''pro_cmp'' ''pro'' 1000 (Suc 999) (ev_epoch (hs_env H 1)) (Suc 0) w'"
    using keep [rule_format, OF _ pro] by simp
  then obtain r' w'' where c2: "client H 1 ''GET'' ''/get'' (bearer token') None w' = (Inr r', w'')"
    "header r' ''X-RateLimit-Limit'' = Some (int_str 1000)"
    by (rule granted_step [OF H auth' [THEN spec, of 1]]) simp_all
  show ?thesis
    using c1 c2 by (simp add: test_enterprise_limit_higher_than_pro_def token token' int_headers_def int_header_def)
qed

text \<open>A bucket drained behind the application's back, until the year 2286.\<close>

lemma enterprise_exhaustion_test_passes:
  assumes H: "harness_ok H" and w: "clean_stores (hs_redis H) w" and clock: "ev_epoch (hs_env H 0) \<le> 9999999999"
  shows "test_enterprise_exhaustion_returns_429 H w"
proof -
  let ?R = "hs_redis H" and ?now = "ev_epoch (hs_env H 0)" and ?user = "''ent_exhaust''" and ?rate = "refill_rate 10000 60"
  let ?w = "drain_bucket ?R w" and ?s = "\<lparr>tokens = 0, last_refill = 9999999999\<rparr> :: TokenBucketState"
  obtain token where token: "make_token H ?user ''enterprise'' = Inr token"
    and auth: "\<forall>n. authorized (hs_env H n) (hs_client H ''GET'' ''/get'' (bearer token) None) ?user ''enterprise''"
    by (rule client_token [OF H])
  have laws: "hash_laws ?R" "commands_apart ?R" and ok: "limit_ok 10000" "window_ok 60" "sane_clock ?now"
    using H harness_simps(6) [OF H, of 0] by (simp_all add: harness_ok_def limit_ok_def window_ok_def)
  have key: "user_key ?user = ''user:ent_exhaust''" by (simp add: user_key_def)
  have few: "few_results ?R 9 (w_redis ?w)"
    using w laws(2) by (simp add: few_results_def drain_bucket_def clean_stores_def commands_apart_def dom_def)
  have limit: "resolve_limit (hs_settings H) (ev_instant (hs_env H 0)) (w_db ?w) ?user ''enterprise'' = 10000"
    using w tier_limits [OF H] by (simp add: drain_bucket_def clean_stores_def resolve_limit_def lookup_override_def)
  have stored: "hget ?R (w_redis ?w) (user_key ?user) ''tokens'' = Some 0"
    "hget ?R (w_redis ?w) (user_key ?user) ''last_refill'' = Some 9999999999"
    by (simp_all add: key drain_bucket_def hash_lawsD [OF laws(1)])
  have rate: "?rate = enterprise_rate" by (simp add: refill_rate_def enterprise_rate_def)
  note bounds = enterprise_rate_bounds [folded rate]
  have "refill_phase ?s ?now 10000 ?rate = 0"
    using refill_phase_same_instant [of ?s ?now 10000 ?rate] clock limit_capacity [OF ok(1)] by simp
  then have out: "lua_bucket 10000 ?rate (of_int ?now) 0 9999999999 =
      \<lparr>lua_allowed = 0, lua_remaining = 0, lua_retry_after = \<lceil>fl64 (1 / ?rate)\<rceil>, lua_tokens = 0\<rparr>"
    using lua_bucket_phase [OF limit_capacity [OF ok(1)] ok(3), of ?s ?rate] by (simp add: sane_clock_def)
  have "1 / 256 \<le> 1 / ?rate" using bounds by (simp add: field_simps)
  then have "1 / 256 \<le> fl64 (1 / ?rate)" using fl64_dyadic [of 1 8] by (intro fl.fixed_le_rd) simp_all
  then have wait: "1 \<le> \<lceil>fl64 (1 / ?rate)\<rceil>" by (simp add: one_le_ceiling)
  have "0 < lua_ttl 10000 ?rate" using bounds by (intro ttl_pos) auto
  from script_writes(1) [OF laws(1) _ this, where r = "w_redis ?w" and key = "user_key ?user" and now = "of_int ?now"
      and t = 0 and l = 9999999999]
  have "fst (token_bucket_lua ?R (user_key ?user) 10000 ?rate (of_int ?now) (w_redis ?w)) = Inr (0, 0, \<lceil>fl64 (1 / ?rate)\<rceil>)"
    using bounds by (simp add: stored out)
  then obtain r where "token_bucket_lua ?R (user_key ?user) 10000 ?rate (of_int ?now) (w_redis ?w) = (Inr (0, 0, \<lceil>fl64 (1 / ?rate)\<rceil>), r)"
    by (metis prod.collapse)
  then have "redis_check ?R Delivered ?now (user_key ?user) 10000 60 (w_redis ?w) =
     (Inr \<lparr>lr_allowed = False, lr_limit = 10000, lr_remaining = 0, lr_retry_after = \<lceil>fl64 (1 / ?rate)\<rceil>, lr_degraded = False\<rparr>, r)"
    by (simp add: redis_check_delivered [OF ok(1,2)])
  then have v: "verdict (hs_env H 0) ?user ''enterprise'' ?w =
     (Inr \<lparr>lr_allowed = False, lr_limit = 10000, lr_remaining = 0, lr_retry_after = \<lceil>fl64 (1 / ?rate)\<rceil>, lr_degraded = False\<rparr>, r)"
    using verdict_limit [OF H few limit ok(1)] by simp
  obtain rs w' where "client H 0 ''GET'' ''/get'' (bearer token) None ?w = (Inr rs, w')" "rs_status rs = 429"
    "header rs ''Retry-After'' = Some (int_str \<lceil>fl64 (1 / ?rate)\<rceil>)" "header rs ''X-RateLimit-Remaining'' = Some ''0''"
    by (rule client_denied [OF H refl auth [THEN spec, of 0] v]) simp_all
  moreover have "str_int ''0'' = 0" by (simp add: str_int_def digits_val_def)
  ultimately show ?thesis
    using wait by (simp add: test_enterprise_exhaustion_returns_429_def token int_header_def)
qed

lemma enterprise_remaining_test_passes:
  assumes H: "harness_ok H" "upstream_reachable H" and w: "clean_stores (hs_redis H) w"
    and clock: "\<forall>n\<in>{0..2}. ev_epoch (hs_env H n) = t"
  shows "test_enterprise_remaining_decrements_correctly H w"
proof -
  let ?user = "''ent_decrement''" and ?tier = "''enterprise''"
  obtain token where token: "make_token H ?user ?tier = Inr token"
    and auth: "\<forall>n. authorized (hs_env H n) (hs_client H ''GET'' ''/get'' (bearer token) None) ?user ?tier"
    by (rule client_token [OF H(1)])
  have "ready_for H ?user ?tier 10000 (Suc 9999) t 0 w"
    using ready_fresh [OF w(1) _ tier_limits(1) [OF H(1)], of ?user t] by (simp add: limit_ok_def)
  then obtain r1 w1 where c1: "client H 0 ''GET'' ''/get'' (bearer token) None w = (Inr r1, w1)"
    "header r1 ''X-RateLimit-Remaining'' = Some (int_str (int 9999))" "ready_for H ?user ?tier 10000 9999 t (Suc 0) w1"
    by (rule granted_step [OF H auth [THEN spec, of 0]]) (use clock in simp_all)
  have "ready_for H ?user ?tier 10000 (Suc 9998) t (Suc 0) w1" using c1(3) by simp
  then obtain r2 w2 where c2: "client H 1 ''GET'' ''/get'' (bearer token) None w1 = (Inr r2, w2)"
    "header r2 ''X-RateLimit-Remaining'' = Some (int_str (int 9998))" "ready_for H ?user ?tier 10000 9998 t (Suc (Suc 0)) w2"
    by (rule granted_step [OF H auth [THEN spec, of 1]]) (use clock in simp_all)
  have "ready_for H ?user ?tier 10000 (Suc 9997) t (Suc (Suc 0)) w2" using c2(3) by simp
  then obtain r3 w3 where c3: "client H 2 ''GET'' ''/get'' (bearer token) None w2 = (Inr r3, w3)"
    "header r3 ''X-RateLimit-Remaining'' = Some (int_str (int 9997))"
    by (rule granted_step [OF H auth [THEN spec, of 2]]) (use clock in simp_all)
  show ?thesis
    unfolding test_enterprise_remaining_decrements_correctly_def token asserts_simps c1(1) c2(1) c3(1) await_simps
    by (simp add: int_headers_def int_header_def c1(2) c2(2) c3(2))
qed

section \<open>They fail when it ticks\<close>

lemma refilled_step:
  assumes H: "harness_ok H" "upstream_reachable H"
    and auth: "authorized (hs_env H n) (hs_client H ''GET'' ''/get'' (bearer token) None) user tier"
    and ready: "ready_for H user tier limit k t j w" "int k < limit" and t: "sane_clock t"
    and refill: "refill_phase \<lparr>tokens = of_nat k, last_refill = t\<rparr> (ev_epoch (hs_env H n)) limit (refill_rate limit 60) = p" "1 \<le> p"
  obtains rs w' where "client H n ''GET'' ''/get'' (bearer token) None w = (Inr rs, w')" "rs_status rs \<noteq> 429"
    "header rs ''X-RateLimit-Remaining'' = Some (int_str (py_int (fl64 (p - 1))))"
proof -
  let ?R = "hs_redis H" and ?now = "ev_epoch (hs_env H n)" and ?rate = "refill_rate limit 60"
  have r: "few_results ?R j (w_redis w)" "j \<le> 9" "limit_ok limit"
    "\<And>now. resolve_limit (hs_settings H) now (w_db w) user tier = limit"
    and h: "hget ?R (w_redis w) (user_key user) ''tokens'' = Some (of_nat k)"
    "hget ?R (w_redis w) (user_key user) ''last_refill'' = Some (of_int t)"
    using ready by (auto simp: ready_for_def whole_tokens_def)
  have "int k \<le> 10 ^ 14" using ready(2) r(3) by (simp add: limit_ok_def)
  then have s: "stored_bucket ?R (user_key user) (w_redis w) = Some \<lparr>tokens = of_nat k, last_refill = t\<rparr>"
    "key_wf ?R (user_key user) (w_redis w)"
    using h t by (simp_all add: stored_bucket_def key_wf_def fl64_nat)
  have "hash_laws ?R" "window_ok 60" "sane_clock ?now"
    using H(1) harness_simps(6) [OF H(1), of n] by (simp_all add: harness_ok_def window_ok_def)
  then obtain res wt r' where res: "check_token_bucket (stored_bucket ?R (user_key user) (w_redis w)) ?now limit ?rate = Inr res"
    and check: "redis_check ?R Delivered ?now (user_key user) limit 60 (w_redis w) =
       (Inr \<lparr>lr_allowed = allowed res, lr_limit = limit, lr_remaining = remaining res, lr_retry_after = wt, lr_degraded = False\<rparr>, r')"
    using r(3) s(2) by (blast elim: check_refines)
  have "allowed res" "remaining res = py_int (fl64 (p - 1))"
    using res refill by (auto simp: s(1) check_allow)
  then have "redis_check ?R Delivered ?now (user_key user) limit 60 (w_redis w) =
     (Inr \<lparr>lr_allowed = True, lr_limit = limit, lr_remaining = py_int (fl64 (p - 1)), lr_retry_after = wt, lr_degraded = False\<rparr>, r')"
    using check by simp
  then show thesis by (rule client_check [OF H auth r]) (rule that)
qed

text \<open>One tick between the second and the third request refills more than the three took, so the third
  has more tokens left than the second, though the test says it must not.\<close>

lemma enterprise_remaining_test_fails:
  assumes H: "harness_ok H" "upstream_reachable H" and w: "clean_stores (hs_redis H) w"
    and clock: "ev_epoch (hs_env H 0) = t" "ev_epoch (hs_env H 1) = t" "ev_epoch (hs_env H 2) = t + 1"
  shows "\<not> test_enterprise_remaining_decrements_correctly H w"
proof -
  let ?user = "''ent_decrement''" and ?tier = "''enterprise''"
  obtain token where token: "make_token H ?user ?tier = Inr token"
    and auth: "\<forall>n. authorized (hs_env H n) (hs_client H ''GET'' ''/get'' (bearer token) None) ?user ?tier"
    by (rule client_token [OF H(1)])
  have "ready_for H ?user ?tier 10000 (Suc 9999) t 0 w"
    using ready_fresh [OF w(1) _ tier_limits(1) [OF H(1)], of ?user t] by (simp add: limit_ok_def)
  then obtain r1 w1 where c1: "client H 0 ''GET'' ''/get'' (bearer token) None w = (Inr r1, w1)"
    "ready_for H ?user ?tier 10000 9999 t (Suc 0) w1"
    by (rule granted_step [OF H auth [THEN spec, of 0]]) (use clock in simp_all)
  have "ready_for H ?user ?tier 10000 (Suc 9998) t (Suc 0) w1" using c1(2) by simp
  then obtain r2 w2 where c2: "client H 1 ''GET'' ''/get'' (bearer token) None w1 = (Inr r2, w2)"
    "header r2 ''X-RateLimit-Remaining'' = Some (int_str (int 9998))" "ready_for H ?user ?tier 10000 9998 t (Suc (Suc 0)) w2"
    by (rule granted_step [OF H auth [THEN spec, of 1]]) (use clock in simp_all)
  have rate: "refill_rate 10000 60 = enterprise_rate" by (simp add: refill_rate_def enterprise_rate_def)
  have "fl64 enterprise_rate = enterprise_rate" by (simp add: enterprise_rate_def fl.rd_idem)
  moreover have "10000 \<le> fl64 (9998 + enterprise_rate)"
    using enterprise_rate_bounds(1) by (intro fl.fixed_le_rd) simp_all
  ultimately have p: "refill_phase \<lparr>tokens = of_nat 9998, last_refill = t\<rparr> (ev_epoch (hs_env H 2)) 10000 (refill_rate 10000 60) = 10000"
    unfolding clock(3) by (simp add: refill_phase_def Let_def rate min_def)
  have t: "sane_clock t" using harness_simps(6) [OF H(1), of 0] clock by simp
  obtain r3 w3 where c3: "client H 2 ''GET'' ''/get'' (bearer token) None w2 = (Inr r3, w3)"
    "header r3 ''X-RateLimit-Remaining'' = Some (int_str (py_int (fl64 (10000 - 1))))"
    by (rule refilled_step [OF H auth [THEN spec, of 2] c2(3) _ t p]) simp_all
  have "py_int (fl64 (10000 - 1)) = 9999" by simp
  then show ?thesis
    unfolding test_enterprise_remaining_decrements_correctly_def token asserts_simps c1(1) c2(1) c3(1) await_simps
    by (simp add: int_headers_def int_header_def c2(2) c3(2))
qed

text \<open>Three requests to an upstream that takes its time are enough to refill one of three tokens: if the
  limiter's clock moves 20 seconds before the fourth, it is not denied.\<close>

lemma rate_limit_test_fails:
  assumes H: "harness_ok H" "upstream_reachable H" and w: "clean_stores (hs_redis H) w"
    and clock: "\<forall>n\<in>{1..3}. ev_epoch (hs_env H n) = t" "t + 20 \<le> ev_epoch (hs_env H 4)"
  shows "\<not> test_rate_limit_returns_429_not_500 H w"
proof -
  let ?user = "''rate_test_user''"
  obtain token where token: "make_token H ?user ''free'' = Inr token"
    and auth: "\<forall>n. authorized (hs_env H n) (hs_client H ''GET'' ''/get'' (bearer token) None) ?user ''free''"
    by (rule client_token [OF H(1)])
  obtain r0 w0 r1 w1 r2 w2 r3 w3 where run:
    "client H 0 ''PUT'' ''/admin/quota/rate_test_user'' (admin_headers H) (Some (quota_body 3 (Some ''test''))) w = (Inr r0, w0)"
    "client H 1 ''GET'' ''/get'' (bearer token) None w0 = (Inr r1, w1)" "client H 2 ''GET'' ''/get'' (bearer token) None w1 = (Inr r2, w2)"
    "client H 3 ''GET'' ''/get'' (bearer token) None w2 = (Inr r3, w3)" "ready_for H ?user ''free'' 3 0 t 3 w3"
    by (rule three_requests [OF H w clock(1) auth])
  have t: "sane_clock t" "sane_clock (ev_epoch (hs_env H 4))"
    using harness_simps(6) [OF H(1), of 1] harness_simps(6) [OF H(1), of 4] clock by simp_all
  let ?now = "ev_epoch (hs_env H 4)" and ?rate = "refill_rate 3 60"
  let ?p = "refill_phase \<lparr>tokens = of_nat 0, last_refill = t\<rparr> ?now 3 ?rate"
  have rate: "?rate = 7205759403792794 / 2 ^ 57"
    using fl64_evalI [where k = 57 and n = 7205759403792794 and x = "1 / 20"] by (simp add: refill_rate_def)
  have "(20 :: rat) \<le> of_int (?now - t)" using clock(2) by (metis le_diff_eq add.commute of_int_le_iff of_int_numeral)
  then have "1 \<le> of_int (?now - t) * ?rate" unfolding rate by simp
  then have "1 \<le> fl64 (of_int (?now - t) * ?rate)" by (rule fl.rd_ge_1)
  then have p: "1 \<le> ?p"
    using sane_elapsed [OF t] clock(2) by (simp add: refill_phase_def Let_def fl.rd_idem max_def)
  obtain r4 w4 where c4: "client H 4 ''GET'' ''/get'' (bearer token) None w3 = (Inr r4, w4)" "rs_status r4 \<noteq> 429"
    by (rule refilled_step [OF H auth [THEN spec, of 4] run(5) _ t(1) refl p]) simp_all
  then show ?thesis
    unfolding test_rate_limit_returns_429_not_500_def token asserts_simps run(1-4) await_simps c4(1) by blast
qed

end
