(* ===== verification/Concurrent_Tests.thy ===== *)
theory Concurrent_Tests
  imports Limiter_Tests Interleaving Conformance
begin

text \<open>
  The test of \<open>tests/test_enterprise_throughput.py\<close> that sends 100 requests at once. On one event
  loop they interleave at their awaits (theory Interleaving) in an order the test does not choose,
  so it is run on any schedule, with log writes in between, and whatever the limiter's clock shows
  to each request: it passes on all of them in which every request runs to its end.
\<close>

section \<open>The test\<close>

text \<open>\<open>asyncio.gather\<close> of the same request, \<open>n\<close> times: an answer each, once the schedule is done. The
  k-th request has the k-th surroundings of the harness.\<close>

definition gather :: "'r harness \<Rightarrow> nat \<Rightarrow> request \<Rightarrow> sys_event list \<Rightarrow> 'r world \<Rightarrow> (exn + response) option list" where
  "gather H n rq es w =
     (let (stages, w') = run_system (\<lambda>k. (hs_env H k, rq)) es (\<lambda>_. Arrived, w)
      in map (\<lambda>k. case stages k of Replied st res \<Rightarrow> Some res | _ \<Rightarrow> None) [0..<n])"

text \<open>The request came back as a response with status 200.\<close>

definition status_200 :: "exn + response \<Rightarrow> bool" where
  "status_200 res = (case res of Inl e \<Rightarrow> False | Inr rs \<Rightarrow> rs_status rs = 200)"

definition test_100_concurrent_enterprise_requests_all_pass ::
  "'r harness \<Rightarrow> sys_event list \<Rightarrow> 'r world \<Rightarrow> bool" where
  "test_100_concurrent_enterprise_requests_all_pass H es w =
     asserts (make_token H ''ent_concurrent'' ''enterprise'') (\<lambda>token.
       list_all (\<lambda>r. case r of Some res \<Rightarrow> status_200 res | None \<Rightarrow> False)
         (gather H 100 (hs_client H ''GET'' ''/get'' (bearer token) None) es w))"

text \<open>A schedule of \<open>n\<close> requests, in which each runs to its end.\<close>

definition complete_schedule :: "nat \<Rightarrow> sys_event list \<Rightarrow> bool" where
  "complete_schedule n es \<longleftrightarrow> (\<forall>k. Task k \<in> set es \<longrightarrow> k < n) \<and> (\<forall>k<n. 7 \<le> count_list es (Task k))"

section \<open>An upstream without errors\<close>

definition no_errors :: "'r redis_api \<Rightarrow> 'r \<Rightarrow> bool" where
  "no_errors R r \<longleftrightarrow> (\<forall>m. zscore R r KEY_ERROR m = None)"

lemma no_errors_factor: "zset_laws R \<Longrightarrow> no_errors R r \<Longrightarrow> get_health_factor R dlv now r = 1"
  using fl.rd_nonneg [of "1 / 5"]
  by (simp add: get_health_factor_def window_counts_def Let_def zset_lawsD(5) no_errors_def ERROR_THRESHOLD_def)

lemma no_errors_record:
  assumes "zset_laws R" "no_errors R r"
  shows "no_errors R (record_upstream_result R dlv now True r)"
proof -
  have "KEY_SUCCESS \<noteq> KEY_ERROR" by (simp add: KEY_SUCCESS_def KEY_ERROR_def)
  then show ?thesis
    using assms by (simp add: no_errors_def record_upstream_result_def record_pipeline_def Let_def zset_lawsD)
qed

section \<open>What holds at every stage\<close>

fun on_course :: "string \<Rightarrow> string \<Rightarrow> int \<Rightarrow> stage \<Rightarrow> bool" where
  "on_course user tier limit (Factor_Read st user_id t factor) \<longleftrightarrow> user_id = user \<and> t = tier \<and> factor = 1"
| "on_course user tier limit (Limit_Read st user_id t l) \<longleftrightarrow> user_id = user \<and> l = limit"
| "on_course user tier limit (Recording st success res) \<longleftrightarrow> success \<and> status_200 res"
| "on_course user tier limit (Leaving st res) \<longleftrightarrow> status_200 res"
| "on_course user tier limit (Replied st res) \<longleftrightarrow> status_200 res"
| "on_course user tier limit stage \<longleftrightarrow> True"

text \<open>And of the world, when the user has called the limiter \<open>n\<close> times.\<close>

definition serving :: "'r harness \<Rightarrow> string \<Rightarrow> string \<Rightarrow> int \<Rightarrow> nat \<Rightarrow> 'r world \<Rightarrow> bool" where
  "serving H user tier limit n w \<longleftrightarrow> cb_state (w_breaker w) = CLOSED \<and> no_errors (hs_redis H) (w_redis w)
   \<and> (\<forall>now. resolve_limit (hs_settings H) now (w_db w) user tier = limit)
   \<and> in_credit (hs_redis H) (user_key user) limit 60 n (w_redis w)"

lemma status_200_leave_route [simp]:
  "on_course user tier limit (leave_route env st (Inr rs)) \<longleftrightarrow> rs_status rs = 200"
  by (simp add: leave_route_def limit_headers_def handle_exception_def status_200_def header_limits split: option.split)

lemma task_on_course:
  assumes H: "harness_ok H" "upstream_ok H" and limit: "limit_ok limit"
    and rq: "authorized (hs_env H k) rq user tier" "rq_method rq = ''GET''" "rq_path rq = ''/get''"
    and stage: "on_course user tier limit stage" and w: "serving H user tier limit n w"
    and few: "stage_calls (hs_env H k) stage \<noteq> [] \<Longrightarrow> int n + 1 < limit \<and> 6 * max limit 60 * (int n + 1) \<le> 10 ^ 14"
  shows "on_course user tier limit (fst (task_step (hs_env H k) rq stage w))
    \<and> serving H user tier limit (n + length (stage_calls (hs_env H k) stage)) (snd (task_step (hs_env H k) rq stage w))"
proof (cases stage)
  case Arrived
  obtain c where "\<not> is_public AUTH_PUBLIC_PATH_PREFIXES (rq_path rq)" "authenticate (hs_env H k) rq = Inr c"
    "cl_sub c = Some user" "cl_tier c = Some tier"
    using rq(1) by (auto simp: authorized_def)
  moreover have "get_health_factor (hs_redis H) dlv now (w_redis w) = 1" for dlv now
    using H(1) w by (intro no_errors_factor) (simp_all add: harness_ok_def serving_def)
  ultimately show ?thesis using w by (simp add: Arrived Let_def harness_simps [OF H(1)])
next
  case (Factor_Read st u t factor)
  then have s: "u = user" "t = tier" "factor = 1" using stage by simp_all
  have "effective_limit limit 1 = limit" using limit by (simp add: effective_limit_full limit_ok_def)
  then show ?thesis using w by (simp add: Factor_Read s harness_simps [OF H(1)] serving_def)
next
  case (Limit_Read st u t l)
  then have s: "u = user" "l = limit" using stage by simp_all
  let ?env = "hs_env H k" and ?R = "hs_redis H"
  let ?c = "(user_key user, limit, 60, ev_epoch ?env)"
  have laws: "hash_laws ?R" "zset_laws ?R" "commands_apart ?R" using H(1) by (simp_all add: harness_ok_def)
  have few: "int n + 1 < limit" "6 * max limit 60 * (int n + 1) \<le> 10 ^ 14" using few by (simp_all add: Limit_Read)
  have credit: "in_credit ?R (user_key user) limit 60 n (w_redis w)" using w by (simp add: serving_def)
  note call = in_credit_call [OF laws(1) limit window_60 harness_simps(6) [OF H(1), of k] few credit]
  obtain x r' where check: "redis_check ?R Delivered (ev_epoch ?env) (user_key user) limit 60 (w_redis w) = (x, r')" by fastforce
  with call(1) obtain lr where lr: "x = Inr lr" "lr_allowed lr" by (cases x) simp_all
  have credit': "in_credit ?R (user_key user) limit 60 (Suc n) r'" using call(2) by (simp add: check lr)
  have "no_errors ?R r'"
    using w check_keeps_zsets [OF laws(2,3) limit, of "ev_epoch ?env" "user_key user" "w_redis w"]
    by (simp add: serving_def no_errors_def check)
  then show ?thesis
    using w credit' by (simp add: Limit_Read s check lr harness_simps [OF H(1)] serving_def Let_def)
next
  case (Called st)
  have "cb_admit (ev_admit_at (hs_env H k)) (w_breaker w) = (True, w_breaker w)" using w by (simp add: cb_admit_def serving_def)
  then show ?thesis
    using w path_get(3) by (simp add: Called rq do_upstream_request_def serving_def)
next
  case (Sent st path)
  obtain ur where "ev_upstream (hs_env H k) (upstream_call (ev_settings (hs_env H k)) path rq) = Returns ur" "ur_status ur = 200"
    using H(2) unfolding upstream_ok_def by blast
  then show ?thesis
    using w by (simp add: Sent Let_def serving_def cb_success_def proxied_response_def status_200_def)
next
  case (Recording st success res)
  then obtain rs where s: success "res = Inr rs" "rs_status rs = 200"
    using stage by (cases res) (auto simp: status_200_def)
  let ?w = "record_result (hs_env H k) True w"
  have laws: "hash_laws (hs_redis H)" "separate_laws (hs_redis H)" "zset_laws (hs_redis H)"
    using H(1) by (simp_all add: harness_ok_def)
  have "hash_eq (hs_redis H) (w_redis w) (w_redis ?w)"
    using record_hash_eq [OF laws(1,2)] by (simp add: record_result_def harness_simps [OF H(1)])
  note credit = in_credit_cong [OF this, of "user_key user" limit 60 n]
  have "no_errors (hs_redis H) (w_redis ?w)"
    using w no_errors_record [OF laws(3)] by (simp add: record_result_def harness_simps [OF H(1)] serving_def)
  then show ?thesis
    using w credit s by (simp add: Recording serving_def record_result_def)
next
  case (Leaving st res)
  then obtain rs where s: "res = Inr rs" "rs_status rs = 200"
    using stage by (cases res) (auto simp: status_200_def)
  then show ?thesis using w by (simp add: Leaving leave_stack_def serving_def status_200_def header_security)
next
  case (Replied st res)
  then show ?thesis using stage w by simp
qed

section \<open>Every schedule\<close>

text \<open>The requests that have not called the limiter yet, and the calls made, are never more than the
  requests.\<close>

definition before_limiter :: "nat \<Rightarrow> nat \<Rightarrow> stage \<Rightarrow> bool" where
  "before_limiter m k stage \<longleftrightarrow> k < m \<and> 5 \<le> stages_left stage"

definition gather_inv :: "'r harness \<Rightarrow> string \<Rightarrow> string \<Rightarrow> int \<Rightarrow> nat \<Rightarrow> 'r system \<Rightarrow> bool" where
  "gather_inv H user tier limit m s \<longleftrightarrow> (\<forall>k. on_course user tier limit (fst s k))
   \<and> (\<exists>n. serving H user tier limit n (snd s) \<and> n + card {k. before_limiter m k (fst s k)} \<le> m)"

lemma finite_before_limiter: "finite {k. before_limiter m k (f k)}"
  by (rule finite_subset [of _ "{..<m}"]) (auto simp: before_limiter_def)

lemma gather_inv_step:
  assumes H: "harness_ok H" "upstream_ok H" and limit: "limit_ok limit"
    and rq: "\<forall>k. authorized (hs_env H k) rq user tier" "rq_method rq = ''GET''" "rq_path rq = ''/get''"
    and few: "int m < limit" "6 * max limit 60 * int m \<le> 10 ^ 14"
    and e: "\<forall>k. e = Task k \<longrightarrow> k < m" and inv: "gather_inv H user tier limit m s"
  shows "gather_inv H user tier limit m (sys_step (\<lambda>k. (hs_env H k, rq)) e s)"
proof (cases e)
  case (Log_Write i up row t)
  then show ?thesis using inv by (cases s) (simp add: gather_inv_def serving_def resolve_limit_def lookup_override_def)
next
  case (Task k)
  let ?stage = "fst s k" and ?B = "\<lambda>f. card {j. before_limiter m j (f j)}"
  let ?next = "task_step (hs_env H k) rq ?stage (snd s)"
  obtain n where n: "serving H user tier limit n (snd s)" "n + ?B (fst s) \<le> m"
    and course: "\<forall>j. on_course user tier limit (fst s j)"
    using inv by (auto simp: gather_inv_def)
  have k: "k < m" using e Task by simp
  have at: "n + 1 \<le> m" "before_limiter m k ?stage" if "stage_calls (hs_env H k) ?stage \<noteq> []"
  proof -
    show *: "before_limiter m k ?stage" using that k by (cases ?stage) (simp_all add: before_limiter_def)
    then show "n + 1 \<le> m"
      using n(2) of_bool_le_card [OF finite_before_limiter, of k m "fst s"] by simp
  qed
  have "int n + 1 < limit \<and> 6 * max limit 60 * (int n + 1) \<le> 10 ^ 14" if "stage_calls (hs_env H k) ?stage \<noteq> []"
  proof -
    have le: "int n + 1 \<le> int m" using at(1) [OF that] by simp
    then have "6 * max limit 60 * (int n + 1) \<le> 6 * max limit 60 * int m" by (intro mult_left_mono) auto
    then show ?thesis using le few by linarith
  qed
  note step = task_on_course [OF H limit rq(1) [THEN spec] rq(2,3) course [THEN spec] n(1) this]
  have "length (stage_calls (hs_env H k) ?stage) + ?B ((fst s)(k := fst ?next)) \<le> ?B (fst s)"
  proof -
    have count: "?B ((fst s)(k := fst ?next)) + of_bool (before_limiter m k ?stage) =
        ?B (fst s) + of_bool (before_limiter m k (fst ?next))"
      by (rule card_fun_upd(2)) (rule finite_before_limiter)
    show ?thesis
    proof (cases "stage_calls (hs_env H k) ?stage = []")
      case True
      then have "before_limiter m k (fst ?next) \<Longrightarrow> before_limiter m k ?stage"
        using task_step_progress [of "hs_env H k" rq ?stage "snd s"] by (auto simp: before_limiter_def)
      then show ?thesis using count True by (cases "before_limiter m k (fst ?next)") simp_all
    next
      case False
      then obtain st u t l where "?stage = Limit_Read st u t l" by (cases ?stage) simp_all
      moreover from this have "\<not> before_limiter m k (fst ?next)"
        using task_step_progress [of "hs_env H k" rq ?stage "snd s"] by (simp add: before_limiter_def)
      ultimately show ?thesis using count at(2) [OF False] by simp
    qed
  qed
  then have "n + length (stage_calls (hs_env H k) ?stage) + ?B ((fst s)(k := fst ?next)) \<le> m" using n(2) by linarith
  then show ?thesis
    using step course unfolding gather_inv_def Task sys_step_fst fst_conv snd_conv
    by (intro conjI allI exI [of _ "n + length (stage_calls (hs_env H k) ?stage)"]) auto
qed

text \<open>Fewer requests of one user than the limit, all at once: on every schedule, whatever the clocks
  show, each of them is answered with the 200 of the upstream.\<close>

lemma gathered_requests_served:
  assumes H: "harness_ok H" "upstream_ok H" and limit: "limit_ok limit"
    and rq: "\<forall>k. authorized (hs_env H k) rq user tier" "rq_method rq = ''GET''" "rq_path rq = ''/get''"
    and few: "int m < limit" "6 * max limit 60 * int m \<le> 10 ^ 14"
    and w: "serving H user tier limit 0 w" and es: "complete_schedule m es"
  shows "list_all (\<lambda>r. case r of Some res \<Rightarrow> status_200 res | None \<Rightarrow> False) (gather H m rq es w)"
proof -
  let ?tasks = "\<lambda>k. (hs_env H k, rq)"
  have run: "gather_inv H user tier limit m (run_system ?tasks es s)"
    if "\<forall>k. Task k \<in> set es \<longrightarrow> k < m" "gather_inv H user tier limit m s" for es s
    using that
  proof (induction es arbitrary: s)
    case (Cons e es)
    have "gather_inv H user tier limit m (sys_step ?tasks e s)"
      using Cons.prems by (intro gather_inv_step [OF H limit rq few]) auto
    then show ?case using Cons by simp
  qed simp
  have "card {k. before_limiter m k Arrived} \<le> m"
    using card_mono [of "{..<m}" "{k. before_limiter m k Arrived}"] by (auto simp: before_limiter_def)
  then have "gather_inv H user tier limit m (\<lambda>_. Arrived, w)"
    using w unfolding gather_inv_def by (auto intro!: exI [of _ 0])
  then have inv: "gather_inv H user tier limit m (run_system ?tasks es (\<lambda>_. Arrived, w))"
    using es by (intro run) (simp_all add: complete_schedule_def)
  have "\<exists>st res. fst (run_system ?tasks es (\<lambda>_. Arrived, w)) k = Replied st res \<and> status_200 res" if "k < m" for k
  proof -
    have "7 \<le> count_list es (Task k)" using es that by (simp add: complete_schedule_def)
    from every_request_replied [OF this, of ?tasks "(\<lambda>_. Arrived, w)"]
    obtain st res where r: "fst (run_system ?tasks es (\<lambda>_. Arrived, w)) k = Replied st res" by blast
    have "on_course user tier limit (fst (run_system ?tasks es (\<lambda>_. Arrived, w)) k)" using inv by (simp add: gather_inv_def)
    then show ?thesis using r by simp
  qed
  then show ?thesis by (force simp: gather_def list_all_iff case_prod_unfold Let_def)
qed

lemma concurrent_test_passes:
  assumes H: "harness_ok H" "upstream_ok H" and w: "clean_stores (hs_redis H) w" "cb_state (w_breaker w) = CLOSED"
    and es: "complete_schedule 100 es"
  shows "test_100_concurrent_enterprise_requests_all_pass H es w"
proof -
  let ?user = "''ent_concurrent''" and ?tier = "''enterprise''"
  obtain token where token: "make_token H ?user ?tier = Inr token"
    and auth: "\<forall>n. authorized (hs_env H n) (hs_client H ''GET'' ''/get'' (bearer token) None) ?user ?tier"
    by (rule client_token [OF H(1)])
  have limit: "limit_ok 10000" by (simp add: limit_ok_def)
  have "serving H ?user ?tier 10000 0 w"
    using w tier_limits(1) [OF H(1)]
    by (simp add: serving_def clean_stores_def no_errors_def in_credit_def key_wf_def stored_bucket_def
        resolve_limit_def lookup_override_def)
  from gathered_requests_served [OF H limit auth _ _ _ _ this es] show ?thesis
    by (simp add: test_100_concurrent_enterprise_requests_all_pass_def token client_simps [OF H(1)])
qed

end
