(* ===== verification/Test_Suite.thy ===== *)
theory Test_Suite
  imports Concurrent_Tests
begin

text \<open>
  The integration tests together, and a harness in which they run.
\<close>

section \<open>The suite\<close>

text \<open>C40. The repository's integration tests pass on the model: with PostgreSQL and Redis behaving as
  documented, empty tables and an empty Redis, a closed breaker, an upstream that answers 200, and
  while the limiter's clock stands still (before the year 2286), every assertion of
  \<open>test_integration.py\<close> and of the Redis-backed tests of \<open>test_enterprise_throughput.py\<close> holds,
  request after request through the whole stack, and the 100 concurrent requests on every schedule
  of their steps and of log writes in which each runs to its end.\<close>

theorem integration_tests_pass:
  assumes "harness_ok H" "upstream_ok H" "clean_stores (hs_redis H) w" "cb_state (w_breaker w) = CLOSED"
    and "\<forall>n. ev_epoch (hs_env H n) = t" "t \<le> 9999999999" and "complete_schedule 100 es"
  shows "test_health_endpoint H w \<and> test_mint_token H w
    \<and> test_protected_route_without_token_returns_401 H w \<and> test_protected_route_with_bad_token_returns_401 H w
    \<and> test_request_id_header_propagates H w
    \<and> test_rate_limit_headers_on_success H w \<and> test_rate_limit_returns_429_not_500 H w
    \<and> test_admin_endpoint_requires_admin_key H w \<and> test_admin_endpoint_with_wrong_key H w
    \<and> test_admin_can_set_quota H w \<and> test_admin_get_missing_quota_returns_404 H w \<and> test_admin_delete_quota H w
    \<and> test_enterprise_header_shows_10000_limit H w \<and> test_enterprise_remaining_decrements_correctly H w
    \<and> test_enterprise_exhaustion_returns_429 H w \<and> test_enterprise_limit_higher_than_pro H w
    \<and> test_100_concurrent_enterprise_requests_all_pass H es w"
proof -
  have db: "w_db w = \<lparr>db_quotas = Map.empty, db_logs = []\<rparr>" using assms(3) by (simp add: clean_stores_def)
  note up = upstream_ok_reachable [OF assms(2)]
  note tests = public_tests_pass [OF assms(1)] auth_tests_pass [OF assms(1)] quota_tests_pass [OF assms(1) db]
    rate_limit_test_passes [OF assms(1) up assms(3), of t] enterprise_header_test_passes [OF assms(1-4)]
    enterprise_remaining_test_passes [OF assms(1) up assms(3), of t]
    enterprise_exhaustion_test_passes [OF assms(1,3)] enterprise_pro_test_passes [OF assms(1) up assms(3)]
    concurrent_test_passes [OF assms(1-4)]
  show ?thesis using assms(5-7) by (intro conjI tests) simp_all
qed

text \<open>A harness: requests as httpx builds them, bodies printed and read as JSON.\<close>

definition demo_client :: "string \<Rightarrow> string \<Rightarrow> (string \<times> string) list \<Rightarrow> json option \<Rightarrow> request" where
  "demo_client verb path headers body =
     \<lparr>rq_method = verb, rq_path = path, rq_query = [], rq_headers = map (\<lambda>(k, v). (lower k, v)) headers,
      rq_client = Some ''127.0.0.1'', rq_body = (case body of None \<Rightarrow> [] | Some j \<Rightarrow> dumps (\<lambda>_. ''0.0'') j)\<rparr>"

definition json_codec :: codec where
  "json_codec = demo_codec\<lparr>read_body := (\<lambda>rq. if rq_body rq = [] then No_Body
     else case json_loads (rq_body rq) of None \<Rightarrow> Malformed | Some j \<Rightarrow> Body j)\<rparr>"

definition demo_harness :: "demo_redis harness" where
  "demo_harness =
     \<lparr>hs_settings = test_settings, hs_redis = demo_api, hs_jose = demo_jose, hs_client = demo_client,
      hs_trusted_host = keep, hs_cors = keep, hs_minted_at = 1700000000000000,
      hs_env = (\<lambda>n. demo_env\<lparr>ev_codec := json_codec\<rparr>)\<rparr>"

lemma demo_client_laws: "client_laws json_codec demo_client"
proof -
  have "json_loads [] = None" by code_simp
  then have "dumps F j \<noteq> []" if "float_free j" for F j using json_loads_dumps [OF that, of F] by auto
  then show ?thesis
    by (simp add: client_laws_def json_codec_def demo_codec_def demo_client_def get_header_def json_loads_dumps)
qed

lemma demo_token_laws: "token_laws demo_jose test_settings"
proof -
  have field: "\<not> py_space (hd (put_field f))" "length (put_field f) = Suc (2 * length f)" for f
    by (induction f) (simp_all add: py_space_def)
  have "strip token = token \<and> 50 < length token"
    if "jwt_encode demo_jose c DEV_JWT_SECRET ''HS256'' = Some token" for c token
  proof -
    have token: "token = put_field (opt_str (cl_sub c)) @ put_field (opt_str (cl_tier c))
      @ put_field (opt_str (map_option int_str (cl_iat c))) @ put_field (opt_str (map_option int_str (cl_exp c)))
      @ put_field DEV_JWT_SECRET @ put_field ''HS256'' @ ''.''"
      using that by (simp add: demo_jose_def demo_encode_def)
    have "\<not> py_space (hd token)" using field(1) by (simp add: token)
    moreover have "last token = CHR ''.''" by (simp add: token)
    ultimately have "strip token = token" by (intro strip_id) (simp add: py_space_def)
    moreover have "50 < length token" by (simp add: token field(2) DEV_JWT_SECRET_def)
    ultimately show ?thesis by simp
  qed
  moreover have "demo_decode now ''not-a-jwt'' DEV_JWT_SECRET [''HS256''] = JWTError" for now
    by (simp add: demo_decode_def DEV_JWT_SECRET_def)
  ultimately show ?thesis
    using demo_jose_laws by (simp add: token_laws_def test_settings_fields) (simp add: demo_jose_def)
qed

lemma demo_harness_ok: "harness_ok demo_harness"
proof -
  have "settings_for_tests test_settings"
    by (simp add: settings_for_tests_def test_settings_fields jwt_configured_def DEV_ADMIN_KEY_def)
  moreover have "surroundings_ok demo_harness (hs_env demo_harness n)" for n
    using demo_client_laws
    by (simp add: surroundings_ok_def demo_harness_def demo_env_def sane_clock_def within_lifetime_def
        sane_instant_def test_settings_fields)
  moreover have "commands_apart demo_api" by (simp add: commands_apart_def demo_api_def)
  ultimately show ?thesis
    using demo_hash_laws demo_zset_laws demo_separate_laws demo_token_laws
    by (simp add: harness_ok_def) (simp add: demo_harness_def)
qed

text \<open>The hundred requests in turn, stage by stage.\<close>

lemma rounds_complete: "complete_schedule n (concat (replicate 7 (map Task [0..<n])))"
proof -
  have "count_list (concat (replicate j (map Task [0..<n]))) (Task k) = j" if "k < n" for j k
  proof (induction j)
    case (Suc j)
    have "count_list (map Task [0..<n]) (Task k) = 1" using that
      by (induction n) (auto simp: less_Suc_eq count_list_0_iff)
    then show ?case using Suc by simp
  qed simp
  then show ?thesis by (auto simp: complete_schedule_def)
qed

theorem integration_tests_pass_witness:
  "test_rate_limit_returns_429_not_500 demo_harness (demo_world demo_empty)
   \<and> test_admin_delete_quota demo_harness (demo_world demo_empty)
   \<and> test_100_concurrent_enterprise_requests_all_pass demo_harness (concat (replicate 7 (map Task [0..<100])))
       (demo_world demo_empty)"
proof -
  have up: "upstream_ok demo_harness" by (simp add: upstream_ok_def demo_harness_def demo_env_def)
  have clean: "clean_stores (hs_redis demo_harness) (demo_world demo_empty)"
    by (simp add: clean_stores_def demo_harness_def demo_world_def)
  have closed: "cb_state (w_breaker (demo_world demo_empty)) = CLOSED"
    by (simp add: demo_world_def upstream_breaker_def new_breaker_def)
  have "\<forall>n. ev_epoch (hs_env demo_harness n) = 1700000000" by (simp add: demo_harness_def demo_env_def)
  from integration_tests_pass [OF demo_harness_ok up clean closed this _ rounds_complete] show ?thesis by simp
qed

end
