(* ===== verification/Spec2Isabelle.thy ===== *)
theory Spec2Isabelle
  imports Diagnostics Workers Gateway_History Response_Types Contracts Process Test_Suite
begin

text \<open>
  A model of the rate-limiting API gateway under \<open>app/\<close>: a FastAPI application that authenticates
  requests by JWT, limits each user's rate with a token bucket kept in Redis, forwards what is
  within quota to an upstream through a circuit breaker, and logs every request to PostgreSQL.

  \<^bold>\<open>Parts and theories.\<close>

  \<^item> Prelude: exceptions of the language, \<open>int()\<close> of a float, the string methods and dictionaries the
    code uses; the locale \<open>kept_by_steps\<close> for conditions that histories keep.
    Floats: binary64 rounding (\<open>fl64\<close>) and Lua's \<open>%.14g\<close> (\<open>g14\<close>) as instances of rounding to a
    number of digits; the locale \<open>rounding\<close> has what every proof about floats uses.
  \<^item> Metering: the budget contract of a limiter (locale \<open>metered\<close>), interpreted on the reference
    bucket and on the Redis script.
  \<^item> Token_Bucket: \<open>infra/rate_limiter/algorithms.py\<close>. Redis_Api: the Redis commands the gateway
    uses, a parameter, with their documented laws and one instance. Redis_Limiter:
    \<open>infra/rate_limiter/redis_limiter.py\<close>, the Lua script included. Conformance: what it
    cannot refuse, by an exact bucket of rationals.
  \<^item> Circuit_Breaker: \<open>infra/circuit_breaker.py\<close>, with the step relation of concurrent calls.
  \<^item> Http, Errors: requests, responses, JSON; \<open>core/errors.py\<close> and the global exception handler.
  \<^item> Config: \<open>core/config.py\<close>. Security: \<open>core/security.py\<close>, \<open>services/auth_service.py\<close>,
    \<open>utils/time.py\<close>, over a JWT library as parameter.
  \<^item> Upstream_Health: \<open>services/upstream_health.py\<close>. Database: \<open>models/db.py\<close> and the log store of
    \<open>infra/log_store/\<close>. Rate_Limit_Service: \<open>services/rate_limit_service.py\<close>.
  \<^item> Gateway_State: what a process holds (\<open>world\<close>), what a request is handled with (\<open>env\<close>), and the
    type of handlers. Middleware: \<open>middleware/\<close> and \<open>services/logging_service.py\<close>, with the
    contract of a layer (locale \<open>layer\<close>) interpreted on every middleware. Proxy:
    \<open>routes/proxy.py\<close>. Admin: \<open>routes/admin.py\<close>, \<open>auth.py\<close>, \<open>health.py\<close>, the guard of
    \<open>dependencies.py\<close>, \<open>models/schemas.py\<close>. App: \<open>main.py\<close>, routing and the order of the stack.
  \<^item> App_Properties, Response_Types, Gateway_Quota, Gateway_History: what holds of the assembled
    application, for one request and over whole histories; Response_Types has the response schemas
    of \<open>models/schemas.py\<close> as types of JSON values.
  \<^item> Interleaving: requests in flight at once, as stages cut at the awaits of \<open>middleware/rate_limit.py\<close>,
    \<open>services/rate_limit_service.py\<close>, \<open>routes/proxy.py\<close> and \<open>infra/circuit_breaker.py\<close>.
  \<^item> Deployment, Workers: several worker processes (\<open>scripts/start.sh\<close>) over one Redis and one
    database, each with its own breaker, counters and scheduled log writes, any of which may die.
    Traffic: the contract of traffic that is paid for by the limiter (locale \<open>paid_traffic\<close>),
    interpreted on the histories of Gateway_Quota and Interleaving, and with the denials counted
    (locale \<open>answered_traffic\<close>) on those of Deployment.
  \<^item> Quota_Races: the upsert and delete of \<open>routes/admin.py\<close> as single database statements that
    interleave with those of other requests.
  \<^item> Sessions: the database sessions of \<open>infra/database.py\<close>, the log store, the quota routes and the
    override look-up as statements that may each fail. Contracts: the abstract classes
    \<open>infra/rate_limiter/base.py\<close> and \<open>infra/log_store/base.py\<close> as records of methods, their promises as
    locales (\<open>rate_limiter\<close>, \<open>log_store\<close>) interpreted on the Redis limiter and the PostgreSQL store,
    and the clients that \<open>dependencies.py\<close> gives them to.
  \<^item> Url, Engine: \<open>urllib.parse\<close>, and the rewriting of the database URL in \<open>infra/database.py\<close>.
    Schema: the tables of \<open>models/db.py\<close>, \<open>migrations/\<close>, \<open>init_db\<close> and \<open>scripts/start.sh\<close> as DDL over a
    database server with laws (\<open>ddl_laws\<close>). Utf8, Json_Text, Log_Format: strings as UTF-8 with their
    code points, \<open>json.dumps\<close> with a reader, and \<open>core/logging.py\<close>.
  \<^item> Diagnostics: the log lines of the breaker, the limiter, the upstream health and the log store, over
    a model of \<open>%\<close>-formatting, and the representations of the rows.
  \<^item> Process: a process from import to shutdown (the lifespan of \<open>main.py\<close>, failures included), what it
    prints while it serves, its OpenAPI document, \<open>scripts/init_db.py\<close> and \<open>scripts/generate_token.py\<close>
    with the arguments that argparse takes.
  \<^item> Unit_Tests, Test_Harness, Integration_Tests, Limiter_Tests, Concurrent_Tests, Test_Suite: the
    repository's tests (\<open>tests/\<close>) as predicates over the models, with the fixtures of \<open>conftest.py\<close>,
    the concurrent ones on every schedule of their steps.

  \<^bold>\<open>How a request runs.\<close> From the outside in: security headers, (CORS, trusted host), logging,
  request id, authentication, rate limiting, exception handlers, router. The rate limiter asks
  Upstream_Health for the adaptive factor, Rate_Limit_Service for the limit, and the Lua script
  for a token; the proxy asks the breaker, sends, and records the result, which the next factor
  is computed from. An exception that nothing handles passes every middleware, and the client gets
  a plain-text 500 from the layer outside (\<open>received\<close> in theory App).

  \<^bold>\<open>What is shown.\<close> The script refines the reference algorithm, grants exactly the whole tokens
  there are under concurrency, and bounds a user's rate in the long run, rounding included; the
  bound carries over to the upstream traffic of any history of the gateway (\<open>gateway_quota\<close>), of any
  interleaving of requests at their awaits (\<open>interleaved_quota\<close>), and of any deployment of several
  workers that may die (\<open>deployment_quota\<close>). There a user whose requests an exact
  bucket of one token less accepts is never turned away (\<open>conforming_user_never_turned_away\<close>), each
  request alone is the one of theory App, each worker's breaker lets nothing out while it is open,
  each worker's counters count its own verdicts, and each reply is logged at most once.
  The breaker keeps its invariant in every interleaving, opens at its threshold and stays shut
  for its recovery time. Of the stack: no upstream request without a valid token and a granted
  token on paths that are not public, the exact answers to unauthenticated, denied and granted
  requests, one log entry for every request, security headers on every response but the 500 made
  outside the stack, an admin plane closed without the key, a quota table that stays valid in every interleaving of its statements,
  responses and rows that have their declared types, log writes that neither get lost nor doubled,
  database sessions that do all or nothing whichever statement fails, and an admin view of the log
  that shows nothing but what was written, with statistics that are consistent when nothing is
  written between their statements (\<open>stats_torn\<close> has the other case).
  The log tells the breaker's state (\<open>breaker_log_tells_state\<close>), and every fail-open path but the
  recording of upstream results leaves a warning (\<open>degradations_logged\<close>).
  Of a process: its clients and tables are there while it serves, what it logs is printed as lines of
  JSON if no extra field holds a float (\<open>nan_line_unreadable\<close>), the migration and the models agree,
  the engine's URL and the log lines parse back to what went in. The repository's own tests
  pass on the model (\<open>integration_tests_pass\<close>, \<open>token_bucket_tests_pass\<close>, \<open>enterprise_tests_pass\<close>,
  \<open>security_tests_pass\<close>, \<open>tampered_test_passes\<close>), and two of them only while the limiter's clock stands still. Several theorems state what the code
  does where its documentation promises something else.

  \<^bold>\<open>Numbers and bounds.\<close> A float is the rational it denotes, and every operation rounds; infinities
  and overflow are out of reach of the values the code forms. Clocks are assumed between 0 and
  \<open>10 ^ 14\<close> seconds (\<open>sane_clock\<close>), limits at most \<open>10 ^ 14\<close> (\<open>limit_ok\<close>; the printed digits of a
  stored token count are exact up to there), instants for tokens before the year 2242
  (\<open>sane_instant\<close>). The JSON reader recurses on fuel, one more than the length of its text, which
  \<open>json_loads_dumps\<close> shows to be enough; no other recursion needs any.

  \<^bold>\<open>What is not modelled.\<close> The libraries: Redis, SQL, python-jose, httpx, pydantic and Starlette's
  CORS and trusted-host middlewares are parameters. In theory App a request is handled in one
  step; theory Interleaving cuts the requests of one process at their awaits, theory Redis_Limiter
  interleaves several processes at the script, and Quota_Races the quota routes at their
  statements. An await that never returns is a request that gets no further step; no theorem says
  that a request must end. A key that expires is treated in \<open>expiry_unobservable\<close>. The statements of a
  session other than those of the statistics see one database (theory Quota_Races has the upsert
  with other sessions in between). Left out: the Prometheus instrumentator, the ASGI server's own
  log and signals, of the command-line parser the arguments that \<open>plain_arguments\<close> excludes (\<open>--\<close>, a
  lone dash, negative numbers, abbreviations of \<open>--help\<close>), Alembic's logging configuration, clients
  that disconnect while their request is handled. Strings that hold lone surrogates other than
  those of \<open>surrogateescape\<close> have no UTF-8 and are not represented.
\<close>

end
